(* ===== verification/Go_Prelude.thy ===== *)
theory Go_Prelude
  imports Main "HOL-Library.Word" "HOL-Library.Multiset" "HOL-Library.Product_Lexorder"
begin

text \<open>
  Shared vocabulary of the development: the Go types and the few functions of Go's standard
  library that the sources call (integer widths, \<open>time.Time\<close>, \<open>time.Duration\<close>,
  \<open>strings\<close>, \<open>strconv\<close>), the theorem collections the component theories extend, and the
  generic lemmas on lists, options and words they share.

  Conventions of the whole development:
  \<^item> \<open>uint\<close>, \<open>uint64\<close> are \<open>64 word\<close> (the tool runs on 64-bit Linux); \<open>int\<close>
    counters that index slices are \<open>nat\<close> or \<open>int\<close>, as the source uses them;
  \<^item> \<open>time.Time\<close> is the number of nanoseconds since Go's zero time
    (0001-01-01 00:00:00 UTC), so \<open>IsZero\<close> is equality with 0;
  \<^item> \<open>time.Duration\<close> is an \<open>int\<close> count of nanoseconds, wrapped to 64 bits where the
    source multiplies or converts;
  \<^item> a Go \<open>error\<close> is the left part of a sum; a panic is a constructor of its own;
  \<^item> log output is not modelled.
\<close>

named_theorems pkt_simps \<open>equations of the packet and result layer\<close>
named_theorems pacing_simps \<open>bounds and equations of the rate sender\<close>
named_theorems sched_simps \<open>unfolding rules of the experiment schedules\<close>
named_theorems server_simps \<open>unfolding rules of the RPC server's atomic sections\<close>

unbundle bit_operations_syntax

section \<open>Integer widths\<close>

type_synonym u8 = "8 word"
type_synonym u16 = "16 word"
type_synonym u32 = "32 word"
type_synonym u64 = "64 word"

text \<open>Conversion to \<open>int64\<close>: two's complement wrap-around.\<close>

definition int64 :: "int \<Rightarrow> int" where
  "int64 x = signed_take_bit 63 x"

lemma int64_id [simp]: "- (2 ^ 63) \<le> x \<Longrightarrow> x < 2 ^ 63 \<Longrightarrow> int64 x = x"
  by (simp add: int64_def signed_take_bit_int_eq_self)

lemma int64_bounds: "- (2 ^ 63) \<le> int64 x" "int64 x < 2 ^ 63"
  using signed_take_bit_int_greater_eq_minus_exp [of 63 x]
    signed_take_bit_int_less_exp [of 63 x]
  by (simp_all add: int64_def)

lemma unat_lt64: "unat (w :: u64) < 2 ^ 64"
  by (rule order_less_le_trans [OF unsigned_less]) simp

lemma unat_of_nat64: "n < 2 ^ 64 \<Longrightarrow> unat (of_nat n :: u64) = n"
  by (simp add: unat_of_nat take_bit_nat_eq_self)

lemma unat_succ64: "unat (w :: u64) + 1 < 2 ^ 64 \<Longrightarrow> unat (w + 1) = unat w + 1"
  by (simp add: unat_word_ariths)

section \<open>Panics\<close>

text \<open>The result of a call that returns normally, or the run-time panic it raises.\<close>

datatype 'a panics = Returns 'a | Panics string

fun panics_bind :: "'a panics \<Rightarrow> ('a \<Rightarrow> 'b panics) \<Rightarrow> 'b panics" where
  "panics_bind (Returns x) f = f x"
| "panics_bind (Panics m) f = Panics m"

lemma panics_bind_Returns: "panics_bind p f = Returns y \<longleftrightarrow> (\<exists>x. p = Returns x \<and> f x = Returns y)"
  by (cases p) simp_all

text \<open>A call per element, in order, up to the first panic.\<close>

fun panics_fold :: "('a \<Rightarrow> 's \<Rightarrow> 's panics) \<Rightarrow> 'a list \<Rightarrow> 's \<Rightarrow> 's panics" where
  "panics_fold f [] s = Returns s"
| "panics_fold f (x # xs) s = panics_bind (f x s) (panics_fold f xs)"

fun panics_map :: "('a \<Rightarrow> 'b panics) \<Rightarrow> 'a list \<Rightarrow> 'b list panics" where
  "panics_map f [] = Returns []"
| "panics_map f (x # xs) = panics_bind (f x) (\<lambda>y. panics_bind (panics_map f xs) (\<lambda>ys. Returns (y # ys)))"

section \<open>Time\<close>

type_synonym gtime = int
type_synonym gduration = int

abbreviation millisecond :: gduration where "millisecond \<equiv> 1000000"
abbreviation second :: gduration where "second \<equiv> 1000000000"
abbreviation minute :: gduration where "minute \<equiv> 60000000000"

definition IsZero :: "gtime \<Rightarrow> bool" where
  "IsZero t \<longleftrightarrow> t = 0"

text \<open>\<open>Time.Sub\<close> saturates at the bounds of \<open>Duration\<close>.\<close>

definition time_Sub :: "gtime \<Rightarrow> gtime \<Rightarrow> gduration" where
  "time_Sub t u = max (- (2 ^ 63)) (min (2 ^ 63 - 1) (t - u))"

lemma time_Sub_exact [simp]: "\<bar>t - u\<bar> < 2 ^ 63 \<Longrightarrow> time_Sub t u = t - u"
  by (auto simp: time_Sub_def)

text \<open>\<open>time.Duration(n) * time.Millisecond\<close> for an unsigned \<open>n\<close>: the conversion
  reinterprets the bits and the product wraps.\<close>

definition ms_duration :: "u64 \<Rightarrow> gduration" where
  "ms_duration n = int64 (int64 (uint n) * millisecond)"

lemma int64_nonneg_id: "0 \<le> x \<Longrightarrow> x < 2 ^ 63 \<Longrightarrow> int64 x = x"
  by (rule int64_id) simp_all

lemma ms_duration_exact: "uint n < 2 ^ 32 \<Longrightarrow> ms_duration n = uint n * millisecond"
  by (simp add: ms_duration_def int64_nonneg_id)

lemma ms_duration_nonneg: "uint n < 2 ^ 32 \<Longrightarrow> 0 \<le> ms_duration n"
  by (simp add: ms_duration_exact)

section \<open>Strings\<close>

text \<open>
  Go strings are byte strings. \<open>strings.ToLower\<close> maps runes; the only runes beyond ASCII
  that it maps into ASCII are U+0130 (bytes C4 B0, to \<open>i\<close>) and U+212A (bytes E2 84 AA, to
  \<open>k\<close>). Every other rune beyond ASCII is mapped to a rune beyond ASCII, which is kept as it
  is here: the sources only compare the result with ASCII literals.
\<close>

definition lower_char :: "char \<Rightarrow> char" where
  "lower_char c =
     (if 65 \<le> (of_char c :: nat) \<and> (of_char c :: nat) \<le> 90
      then char_of (of_char c + 32 :: nat) else c)"

fun to_lower :: "string \<Rightarrow> string" where
  "to_lower [] = []"
| "to_lower (c # s) =
     (if c = CHR 0xC4 \<and> s \<noteq> [] \<and> hd s = CHR 0xB0 then CHR ''i'' # to_lower (tl s)
      else if c = CHR 0xE2 \<and> length s \<ge> 2 \<and> s ! 0 = CHR 0x84 \<and> s ! 1 = CHR 0xAA
        then CHR ''k'' # to_lower (drop 2 s)
      else lower_char c # to_lower s)"

declare to_lower.simps [simp del]

text \<open>\<open>strings.Split\<close> with a one-byte separator: always at least one part.\<close>

fun split_on :: "char \<Rightarrow> string \<Rightarrow> string list" where
  "split_on sep [] = [[]]"
| "split_on sep (c # s) =
     (if c = sep then [] # split_on sep s
      else (case split_on sep s of p # ps \<Rightarrow> (c # p) # ps | [] \<Rightarrow> [[c]]))"

fun join_with :: "string \<Rightarrow> string list \<Rightarrow> string" where
  "join_with sep [] = []"
| "join_with sep [p] = p"
| "join_with sep (p # ps) = p @ sep @ join_with sep ps"

lemma split_on_nonempty [simp]: "split_on sep s \<noteq> []"
  by (cases s) (auto split: list.splits)

lemma split_on_no_sep: "sep \<notin> set s \<Longrightarrow> split_on sep s = [s]"
  by (induction s) auto

lemma split_on_append:
  "sep \<notin> set p \<Longrightarrow> split_on sep (p @ sep # s) = p # split_on sep s"
  by (induction p) auto

lemma split_on_join:
  assumes "ps \<noteq> []" and "\<forall>p \<in> set ps. sep \<notin> set p"
  shows "split_on sep (join_with [sep] ps) = ps"
  using assms
  by (induction "[sep]" ps rule: join_with.induct)
    (auto simp: split_on_no_sep split_on_append)

definition has_prefix :: "string \<Rightarrow> string \<Rightarrow> bool" where
  "has_prefix s p \<longleftrightarrow> take (length p) s = p"

fun str_contains :: "string \<Rightarrow> string \<Rightarrow> bool" where
  "str_contains [] sub \<longleftrightarrow> sub = []"
| "str_contains (c # s) sub \<longleftrightarrow> has_prefix (c # s) sub \<or> str_contains s sub"

section \<open>Decimal numbers\<close>

definition digit_char :: "nat \<Rightarrow> char" where
  "digit_char d = char_of (48 + d)"

definition is_digit :: "char \<Rightarrow> bool" where
  "is_digit c \<longleftrightarrow> 48 \<le> (of_char c :: nat) \<and> (of_char c :: nat) \<le> 57"

definition digit_val :: "char \<Rightarrow> nat" where
  "digit_val c = of_char c - 48"

text \<open>\<open>strconv.FormatUint(n, 10)\<close>.\<close>

fun nat_dec :: "nat \<Rightarrow> string" where
  "nat_dec n = (if n < 10 then [digit_char n] else nat_dec (n div 10) @ [digit_char (n mod 10)])"

declare nat_dec.simps [simp del]

definition dec_val :: "string \<Rightarrow> nat" where
  "dec_val s = foldl (\<lambda>a c. 10 * a + digit_val c) 0 s"

text \<open>\<open>strconv.ParseUint(s, 10, 32)\<close>: a nonempty run of digits whose value fits in 32
  bits; anything else is an error.\<close>

definition ParseUint32 :: "string \<Rightarrow> nat option" where
  "ParseUint32 s =
     (if s \<noteq> [] \<and> list_all is_digit s \<and> dec_val s < 2 ^ 32 then Some (dec_val s) else None)"

lemma of_char_char_of_small: "n < 256 \<Longrightarrow> (of_char (char_of (n :: nat)) :: nat) = n"
  by (simp add: of_char_of)

lemma digit_char_props [simp]:
  assumes "d < 10"
  shows "is_digit (digit_char d)" and "digit_val (digit_char d) = d"
  using assms
  by (simp_all add: is_digit_def digit_val_def digit_char_def of_char_char_of_small
      del: of_char_of)

lemma nat_dec_nonempty [simp]: "nat_dec n \<noteq> []"
  by (subst nat_dec.simps) simp

lemma nat_dec_digits: "list_all is_digit (nat_dec n)"
proof (induction n rule: nat_dec.induct)
  case (1 n)
  then show ?case by (cases "n < 10") (simp_all add: nat_dec.simps [of n])
qed

lemma dec_val_snoc: "dec_val (s @ [c]) = 10 * dec_val s + digit_val c"
  by (simp add: dec_val_def)

lemma dec_val_nat_dec [simp]: "dec_val (nat_dec n) = n"
proof (induction n rule: nat_dec.induct)
  case (1 n)
  show ?case
  proof (cases "n < 10")
    case True
    then show ?thesis by (simp add: nat_dec.simps [of n] dec_val_def)
  next
    case False
    with 1 have "dec_val (nat_dec (n div 10)) = n div 10" by simp
    with False show ?thesis by (simp add: nat_dec.simps [of n] dec_val_snoc)
  qed
qed

lemma nat_dec_inj: "nat_dec m = nat_dec n \<Longrightarrow> m = n"
  by (metis dec_val_nat_dec)

lemma ParseUint32_nat_dec: "n < 2 ^ 32 \<Longrightarrow> ParseUint32 (nat_dec n) = Some n"
  by (simp add: ParseUint32_def nat_dec_digits)

lemma ParseUint32_bound: "ParseUint32 s = Some n \<Longrightarrow> n < 2 ^ 32"
  by (auto simp: ParseUint32_def split: if_splits)

text \<open>The \<open>%0wd\<close> verb of \<open>fmt.Sprintf\<close> on an unsigned number.\<close>

definition zero_pad :: "nat \<Rightarrow> nat \<Rightarrow> string" where
  "zero_pad w n = replicate (w - length (nat_dec n)) (CHR ''0'') @ nat_dec n"

lemma dec_val_zero_prefix: "dec_val (replicate k (CHR ''0'') @ s) = dec_val s"
proof -
  have "foldl (\<lambda>a c. 10 * a + digit_val c) 0 (replicate k (CHR ''0'')) = 0"
    by (induction k) (simp_all add: digit_val_def)
  then show ?thesis by (simp add: dec_val_def)
qed

lemma zero_pad_val [simp]: "dec_val (zero_pad w n) = n"
  by (simp add: zero_pad_def dec_val_zero_prefix)

lemma zero_pad_inj: "zero_pad w m = zero_pad w n \<Longrightarrow> m = n"
  by (metis zero_pad_val)

section \<open>Paths\<close>

text \<open>
  \<open>filepath.Clean\<close> and \<open>filepath.Join\<close> on Unix, both purely lexical: empty and \<open>.\<close>
  segments disappear, \<open>..\<close> removes the segment before it (at the root it disappears).
\<close>

fun clean_segs :: "bool \<Rightarrow> string list \<Rightarrow> string list \<Rightarrow> string list" where
  "clean_segs rooted acc [] = rev acc"
| "clean_segs rooted acc (x # xs) =
     (if x = [] \<or> x = ''.'' then clean_segs rooted acc xs
      else if x = ''..'' then
        (case acc of
           a # as \<Rightarrow> if a = ''..'' then clean_segs rooted (x # acc) xs
                     else clean_segs rooted as xs
         | [] \<Rightarrow> clean_segs rooted (if rooted then [] else [x]) xs)
      else clean_segs rooted (x # acc) xs)"

definition filepath_Clean :: "string \<Rightarrow> string" where
  "filepath_Clean p =
     (let rooted = (p \<noteq> [] \<and> hd p = CHR ''/'');
          segs = clean_segs rooted [] (split_on (CHR ''/'') p)
      in if rooted then CHR ''/'' # join_with ''/'' segs
         else if segs = [] then ''.'' else join_with ''/'' segs)"

definition filepath_Join :: "string \<Rightarrow> string \<Rightarrow> string" where
  "filepath_Join a b =
     (if a \<noteq> [] \<and> b \<noteq> [] then filepath_Clean (a @ ''/'' @ b)
      else if a \<noteq> [] then filepath_Clean a
      else if b \<noteq> [] then filepath_Clean b
      else [])"

section \<open>Lists\<close>

lemma take_length_append_less [simp]:
  "take (length xs + n) (xs @ ys) = xs @ take n ys"
  by simp

lemma map_upt_shift: "map f [m..<m + n] = map (\<lambda>k. f (m + k)) [0..<n]"
  by (induction n) auto

text \<open>A loop that maps a fallible function over a list and stops at the first error.\<close>

fun sum_mapM :: "('a \<Rightarrow> 'e + 'b) \<Rightarrow> 'a list \<Rightarrow> 'e + 'b list" where
  "sum_mapM f [] = Inr []"
| "sum_mapM f (x # xs) =
     (case f x of
        Inl e \<Rightarrow> Inl e
      | Inr y \<Rightarrow> (case sum_mapM f xs of Inl e \<Rightarrow> Inl e | Inr ys \<Rightarrow> Inr (y # ys)))"

lemma sum_mapM_Inr: "sum_mapM f xs = Inr ys \<longleftrightarrow> list_all2 (\<lambda>x y. f x = Inr y) xs ys"
proof (induction xs arbitrary: ys)
  case (Cons x xs)
  show ?case
  proof (cases "f x")
    case (Inr y)
    then show ?thesis
      by (cases "sum_mapM f xs") (simp_all add: list_all2_Cons1 Cons.IH [symmetric], blast)
  qed (auto simp: list_all2_Cons1)
qed auto

lemma sum_mapM_total: "\<forall>x \<in> set xs. f x = Inr (g x) \<Longrightarrow> sum_mapM f xs = Inr (map g xs)"
  by (induction xs) auto

end
