(* ===== verification/Net_Modes.thy ===== *)
theory Net_Modes
  imports Go_Prelude
begin

text \<open>
  The enumerations shared by client and server: transfer directions and CSV-facing names
  (\<open>pkg/common.go\<close>), the RPC modes with their socket types (\<open>pkg/net.go\<close>) and the TCP
  congestion control algorithms (\<open>pkg/tcp.go\<close>). A \<open>Mode\<close> or \<open>TCPCCA\<close> arrives over the
  network as an integer, so both have a constructor for the values the constants do not cover.
\<close>

section \<open>Directions\<close>

datatype direction = UL | DL

fun direction_String :: "direction \<Rightarrow> string" where
  "direction_String UL = ''UL''"
| "direction_String DL = ''DL''"

definition direction_StringLower :: "direction \<Rightarrow> string" where
  "direction_StringLower d = to_lower (direction_String d)"

datatype parse_error = UnknownDirection string | UnknownTCPCCA string

definition ParseDirection :: "string \<Rightarrow> parse_error + direction" where
  "ParseDirection s =
     (if to_lower s = ''ul'' then Inr UL
      else if to_lower s = ''dl'' then Inr DL
      else Inl (UnknownDirection s))"

lemma to_lower_directions [simp]:
  "to_lower ''UL'' = ''ul''" "to_lower ''DL'' = ''dl''"
  "to_lower ''ul'' = ''ul''" "to_lower ''dl'' = ''dl''"
  by code_simp+

lemma direction_StringLower_simps [simp]:
  "direction_StringLower UL = ''ul''" "direction_StringLower DL = ''dl''"
  by (simp_all add: direction_StringLower_def)

lemma ParseDirection_String [simp]:
  "ParseDirection (direction_String d) = Inr d"
  "ParseDirection (direction_StringLower d) = Inr d"
  by (cases d; simp add: ParseDirection_def)+

section \<open>Modes\<close>

datatype mode =
  ReceiveUDP | SendBurst | SendRate | SendPeriodic | ReceiveQUIC | SendQUIC
| ReceiveTCP | SendTCP | ReceiveICMP | SendICMP | UnknownMode int

definition NetModes :: "mode list" where
  "NetModes = [ReceiveUDP, SendBurst, SendRate, SendPeriodic, ReceiveQUIC, SendQUIC,
     ReceiveTCP, SendTCP, ReceiveICMP, SendICMP]"

fun mode_String :: "mode \<Rightarrow> string panics" where
  "mode_String ReceiveUDP = Returns ''receive''"
| "mode_String SendBurst = Returns ''burst''"
| "mode_String SendRate = Returns ''rate''"
| "mode_String SendPeriodic = Returns ''periodic''"
| "mode_String ReceiveQUIC = Returns ''receiveQUIC''"
| "mode_String SendQUIC = Returns ''sendQUIC''"
| "mode_String ReceiveTCP = Returns ''receiveTCP''"
| "mode_String SendTCP = Returns ''sendTCP''"
| "mode_String ReceiveICMP = Returns ''receiveICMP''"
| "mode_String SendICMP = Returns ''sendICMP''"
| "mode_String (UnknownMode n) = Panics ''Unknown Mode''"

datatype socket_type = UDP | TCP | ICMP

fun SocketType :: "mode \<Rightarrow> socket_type panics" where
  "SocketType ReceiveUDP = Returns UDP"
| "SocketType SendBurst = Returns UDP"
| "SocketType SendRate = Returns UDP"
| "SocketType SendPeriodic = Returns UDP"
| "SocketType ReceiveQUIC = Returns UDP"
| "SocketType SendQUIC = Returns UDP"
| "SocketType ReceiveTCP = Returns TCP"
| "SocketType SendTCP = Returns TCP"
| "SocketType ReceiveICMP = Returns ICMP"
| "SocketType SendICMP = Returns ICMP"
| "SocketType (UnknownMode n) = Panics ''Unknown Mode''"

lemma SocketType_NetModes: "(\<exists>t. SocketType m = Returns t) \<longleftrightarrow> m \<in> set NetModes"
  by (cases m) (simp_all add: NetModes_def)

section \<open>Congestion control algorithms\<close>

datatype tcpcca =
  CUBIC | CUBIC_NO_HYSTART | CUBIC_HYSTARTPP | CUBIC_SEARCH | CUBIC_SUSS
| BBR1 | BBR3 | ILLINOIS | LEOCC | SATPIPE | UnknownCCA int

definition TCPCCAS :: "tcpcca list" where
  "TCPCCAS = [CUBIC, CUBIC_NO_HYSTART, CUBIC_HYSTARTPP, CUBIC_SEARCH, CUBIC_SUSS,
     BBR1, BBR3, ILLINOIS, LEOCC, SATPIPE]"

fun cca_String :: "tcpcca \<Rightarrow> string panics" where
  "cca_String CUBIC = Returns ''cubic''"
| "cca_String CUBIC_NO_HYSTART = Returns ''cubic-nohy''"
| "cca_String CUBIC_HYSTARTPP = Returns ''hystartpp''"
| "cca_String CUBIC_SEARCH = Returns ''search''"
| "cca_String CUBIC_SUSS = Returns ''suss''"
| "cca_String BBR1 = Returns ''bbr1''"
| "cca_String BBR3 = Returns ''bbr3''"
| "cca_String ILLINOIS = Returns ''illinois''"
| "cca_String LEOCC = Returns ''leocc''"
| "cca_String SATPIPE = Returns ''satpipe''"
| "cca_String (UnknownCCA n) = Panics ''Unknown TCPCC''"

definition ParseTCPCCA :: "string \<Rightarrow> parse_error + tcpcca" where
  "ParseTCPCCA s =
     (let l = to_lower s in
      if l = ''cubic'' then Inr CUBIC
      else if l = ''cubic-nohy'' then Inr CUBIC_NO_HYSTART
      else if l = ''hystartpp'' then Inr CUBIC_HYSTARTPP
      else if l = ''search'' then Inr CUBIC_SEARCH
      else if l = ''suss'' then Inr CUBIC_SUSS
      else if l = ''bbr1'' then Inr BBR1
      else if l = ''bbr3'' then Inr BBR3
      else if l = ''illinois'' then Inr ILLINOIS
      else if l = ''leocc'' then Inr LEOCC
      else if l = ''satpipe'' then Inr SATPIPE
      else Inl (UnknownTCPCCA s))"

text \<open>
  \<open>bbr3Available\<close> reads \<open>/proc/sys/net/ipv4/tcp_available_congestion_control\<close>; the argument
  is the file's contents, \<open>None\<close> when reading it fails (a panic in the source).
\<close>

definition bbr3Available :: "string option \<Rightarrow> bool panics" where
  "bbr3Available ccas =
     (case ccas of None \<Rightarrow> Panics ''Failed to fetch kernel CCAs''
      | Some s \<Rightarrow> Returns (str_contains s ''bbr1''))"

datatype kernel_name_error = BBRv3NotAvailable

fun KernelName :: "string option \<Rightarrow> tcpcca \<Rightarrow> (kernel_name_error + string) panics" where
  "KernelName ccas c =
     (if c = BBR1 \<or> c = BBR3 then
        (case bbr3Available ccas of
           Panics m \<Rightarrow> Panics m
         | Returns bbr3Av \<Rightarrow>
             if c = BBR1 then
               (if bbr3Av then Returns (Inr ''bbr1'') else Returns (Inr ''bbr''))
             else
               (if bbr3Av then Returns (Inr ''bbr'') else Returns (Inl BBRv3NotAvailable)))
      else
        (case c of
           CUBIC \<Rightarrow> Returns (Inr ''cubic'')
         | CUBIC_NO_HYSTART \<Rightarrow> Returns (Inr ''cubic'')
         | CUBIC_HYSTARTPP \<Rightarrow> Returns (Inr ''cubic_hystartpp'')
         | CUBIC_SEARCH \<Rightarrow> Returns (Inr ''cubic_search'')
         | CUBIC_SUSS \<Rightarrow> Returns (Inr ''cubic_suss'')
         | ILLINOIS \<Rightarrow> Returns (Inr ''illinois'')
         | LEOCC \<Rightarrow> Returns (Inr ''leocc'')
         | SATPIPE \<Rightarrow> Returns (Inr ''satpipe'')
         | _ \<Rightarrow> Panics ''Unknown TCPCC''))"

lemma to_lower_ccas:
  "to_lower ''cubic'' = ''cubic''" "to_lower ''cubic-nohy'' = ''cubic-nohy''"
  "to_lower ''hystartpp'' = ''hystartpp''" "to_lower ''search'' = ''search''"
  "to_lower ''suss'' = ''suss''" "to_lower ''bbr1'' = ''bbr1''" "to_lower ''bbr3'' = ''bbr3''"
  "to_lower ''illinois'' = ''illinois''" "to_lower ''leocc'' = ''leocc''"
  "to_lower ''satpipe'' = ''satpipe''"
  by code_simp+

lemma ParseTCPCCA_String:
  assumes "cca_String c = Returns s"
  shows "ParseTCPCCA s = Inr c"
  using assms
  by (cases c) (auto simp: ParseTCPCCA_def to_lower_ccas)

lemma ParseTCPCCA_known: "ParseTCPCCA s = Inr c \<Longrightarrow> c \<in> set TCPCCAS"
  by (auto simp: ParseTCPCCA_def TCPCCAS_def Let_def split: if_splits)

lemma cca_String_known: "(\<exists>s. cca_String c = Returns s) \<longleftrightarrow> c \<in> set TCPCCAS"
  by (cases c) (simp_all add: TCPCCAS_def)

lemma to_lower_ParseTCPCCA: "ParseTCPCCA s = Inr c \<Longrightarrow> cca_String c = Returns (to_lower s)"
  by (auto simp: ParseTCPCCA_def Let_def split: if_splits)

section \<open>Properties\<close>

text \<open>Names of congestion control algorithms: the parser accepts exactly the (case-insensitive)
  names that \<open>String\<close> prints, and the two are inverse to each other; the constants are exactly the
  values on which \<open>String\<close> does not panic.\<close>

theorem TCPCCA_names:
  "(ParseTCPCCA s = Inr c \<longleftrightarrow> cca_String c = Returns (to_lower s)) \<and>
   ((\<exists>n. cca_String c = Returns n) \<longleftrightarrow> c \<in> set TCPCCAS)"
proof -
  have "ParseTCPCCA s = Inr c" if "cca_String c = Returns (to_lower s)"
    using that by (cases c) (simp_all add: ParseTCPCCA_def Let_def, (drule sym, simp)+)
  then show ?thesis using to_lower_ParseTCPCCA cca_String_known by blast
qed

end
