(* ===== verification/Wire_Format.thy ===== *)
theory Wire_Format
  imports Go_Prelude
begin

text \<open>
  The bytes on the wire: the fixed-width integer encodings of \<open>encoding/binary\<close>, the UDP
  measurement packet (\<open>Msg\<close>, its padding pool) of \<open>pkg/common.go\<close> and the ICMP echo payload
  of \<open>pkg/icmp.go\<close>. The integer encodings share one interface, the locale
  \<open>fixed_codec\<close>, which every decoder of the development goes through.
\<close>

section \<open>Fixed-width integers\<close>

fun le_val :: "u8 list \<Rightarrow> nat" where
  "le_val [] = 0"
| "le_val (b # bs) = unat b + 256 * le_val bs"

fun le_digits :: "nat \<Rightarrow> nat \<Rightarrow> u8 list" where
  "le_digits 0 v = []"
| "le_digits (Suc n) v = of_nat v # le_digits n (v div 256)"

text \<open>\<open>binary.LittleEndian\<close> and \<open>binary.BigEndian\<close>. Reading from a slice that is too short
  panics in Go: \<open>None\<close> here.\<close>

definition put_le :: "nat \<Rightarrow> 'a::len word \<Rightarrow> u8 list" where
  "put_le n w = le_digits n (unat w)"

definition get_le :: "nat \<Rightarrow> u8 list \<Rightarrow> 'a::len word option" where
  "get_le n bs = (if length bs < n then None else Some (of_nat (le_val (take n bs))))"

definition put_be :: "nat \<Rightarrow> 'a::len word \<Rightarrow> u8 list" where
  "put_be n w = rev (put_le n w)"

definition get_be :: "nat \<Rightarrow> u8 list \<Rightarrow> 'a::len word option" where
  "get_be n bs = (if length bs < n then None else Some (of_nat (le_val (rev (take n bs)))))"

lemma length_le_digits [simp]: "length (le_digits n v) = n"
  by (induction n arbitrary: v) auto

lemma le_val_digits: "le_val (le_digits n v) = v mod 256 ^ n"
proof (induction n arbitrary: v)
  case (Suc n)
  then show ?case by (simp add: unat_of_nat mod_mult2_eq take_bit_eq_mod)
qed simp

lemma le_val_bound: "le_val bs < 256 ^ length bs"
proof (induction bs)
  case (Cons b bs)
  have "unat b < 256" using unsigned_less [of b] by simp
  with Cons show ?case by simp
qed simp

lemma byte_256: "(256 :: u8) = 0"
  by (simp add: word_unat_eq_iff)

lemma le_digits_val: "le_digits (length bs) (le_val bs) = bs"
proof (induction bs)
  case (Cons b bs)
  have "unat b < 256" using unsigned_less [of b] by simp
  then have "(unat b + 256 * le_val bs) div 256 = le_val bs" by simp
  moreover have "(of_nat (unat b + 256 * le_val bs) :: u8) = b"
    by (simp add: byte_256)
  ultimately show ?case using Cons by simp
qed simp

subsection \<open>The codec interface\<close>

locale fixed_codec =
  fixes enc :: "'a \<Rightarrow> u8 list"
    and dec :: "u8 list \<Rightarrow> 'a option"
    and width :: nat
  assumes length_enc: "length (enc x) = width"
    and dec_enc_append: "dec (enc x @ rest) = Some x"
    and dec_take: "dec bs = Some x \<Longrightarrow> take width bs = enc x"
    and dec_short: "dec bs = None \<longleftrightarrow> length bs < width"
begin

lemma dec_enc: "dec (enc x) = Some x"
  using dec_enc_append [of x "[]"] by simp

lemma enc_inj: "enc x = enc y \<Longrightarrow> x = y"
  by (metis dec_enc option.inject)

lemma dec_total: "width \<le> length bs \<Longrightarrow> \<exists>x. dec bs = Some x"
  by (metis dec_short not_less option.exhaust)

lemma dec_prefix_only: "width \<le> length bs \<Longrightarrow> dec (bs @ junk) = dec bs"
  by (metis append.assoc append_take_drop_id dec_enc_append dec_take dec_total)

lemma enc_of_dec: "dec bs = Some x \<Longrightarrow> enc x @ drop width bs = bs"
  by (metis append_take_drop_id dec_take)

end

lemma put_le_codec:
  assumes "LENGTH('a::len) = 8 * n"
  shows "fixed_codec (put_le n :: 'a word \<Rightarrow> u8 list) (get_le n) n"
proof
  fix x :: "'a word" and rest bs :: "u8 list"
  have pow: "(256 :: nat) ^ n = 2 ^ LENGTH('a)"
    using assms by (simp add: power_mult)
  show "length (put_le n x) = n" by (simp add: put_le_def)
  show "get_le n (put_le n x @ rest) = Some x"
    by (simp add: get_le_def put_le_def le_val_digits pow) 
  show "take n bs = put_le n x" if "get_le n bs = Some x"
  proof -
    from that have len: "n \<le> length bs" and x: "x = of_nat (le_val (take n bs))"
      by (auto simp: get_le_def split: if_splits)
    have "le_val (take n bs) < 2 ^ LENGTH('a)"
      using le_val_bound [of "take n bs"] len pow by (simp add: min_absorb2)
    with x have "unat x = le_val (take n bs)"
      by (simp add: unat_of_nat take_bit_nat_eq_self)
    then show ?thesis
      using le_digits_val [of "take n bs"] len by (simp add: put_le_def min_absorb2)
  qed
  show "get_le n bs = (None :: 'a word option) \<longleftrightarrow> length bs < n"
    by (simp add: get_le_def)
qed

lemma put_be_codec:
  assumes "LENGTH('a::len) = 8 * n"
  shows "fixed_codec (put_be n :: 'a word \<Rightarrow> u8 list) (get_be n) n"
proof
  fix x :: "'a word" and rest bs :: "u8 list"
  have be_le: "get_be n bs = (if length bs < n then None else get_le n (rev (take n bs)) :: 'a word option)"
    for bs by (simp add: get_be_def get_le_def)
  note le = put_le_codec [OF assms]
  show len: "length (put_be n x) = n"
    using fixed_codec.length_enc [OF le] by (simp add: put_be_def)
  show "get_be n (put_be n x @ rest) = Some x"
    using fixed_codec.dec_enc [OF le] len by (simp add: be_le put_be_def)
  show "take n bs = put_be n x" if g: "get_be n bs = Some x"
  proof -
    from g have l: "n \<le> length bs" and "get_le n (rev (take n bs)) = Some x"
      by (auto simp: be_le split: if_splits)
    then have "take n (rev (take n bs)) = put_le n x"
      by (intro fixed_codec.dec_take [OF le])
    then show ?thesis using l by (simp add: put_be_def rev_swap [symmetric])
  qed
  show "get_be n bs = (None :: 'a word option) \<longleftrightarrow> length bs < n"
    by (simp add: get_be_def)
qed

interpretation be64: fixed_codec "put_be 8 :: u64 \<Rightarrow> u8 list" "get_be 8" 8
  by (rule put_be_codec) simp

interpretation le16: fixed_codec "put_le 2 :: u16 \<Rightarrow> u8 list" "get_le 2" 2
  by (rule put_le_codec) simp

interpretation le32: fixed_codec "put_le 4 :: u32 \<Rightarrow> u8 list" "get_le 4" 4
  by (rule put_le_codec) simp

interpretation le64: fixed_codec "put_le 8 :: u64 \<Rightarrow> u8 list" "get_le 8" 8
  by (rule put_le_codec) simp

section \<open>The measurement packet\<close>

text \<open>\<open>type Msg struct\<close>.\<close>

record msg =
  m_Seq :: u64
  m_PadN :: u64

subsection \<open>Padding\<close>

text \<open>\<open>fillRandom\<close>: the successive 64-bit draws of \<open>math/rand/v2\<close> are an argument.\<close>

fun fillRandom :: "(nat \<Rightarrow> u64) \<Rightarrow> nat \<Rightarrow> u8 list" where
  "fillRandom draws n =
     (if 8 \<le> n then put_le 8 (draws 0) @ fillRandom (\<lambda>k. draws (Suc k)) (n - 8)
      else if 0 < n then take n (put_le 8 (draws 0))
      else [])"

declare fillRandom.simps [simp del]

definition paddingPool :: "(nat \<Rightarrow> u64) \<Rightarrow> u8 list" where
  "paddingPool draws = fillRandom draws (4 * 2 ^ 20)"

text \<open>
  \<open>copyPadding\<close> fills \<open>n\<close> bytes from the pool, starting at a random offset and wrapping
  around to the pool's start. A round that copies nothing would repeat forever: \<open>None\<close>.
\<close>

function copy_loop :: "u8 list \<Rightarrow> nat \<Rightarrow> nat \<Rightarrow> u8 list option" where
  "copy_loop pool offset n =
     (if n = 0 then Some []
      else let chunk = take n (drop offset pool) in
        if chunk = [] then None
        else map_option (\<lambda>rest. chunk @ rest) (copy_loop pool 0 (n - length chunk)))"
  by pat_completeness auto
termination
  by (relation "measure (\<lambda>(pool, offset, n). n)") auto

declare copy_loop.simps [simp del]

definition copyPadding :: "u8 list \<Rightarrow> nat \<Rightarrow> nat \<Rightarrow> u8 list option" where
  "copyPadding pool offset n = (if n = 0 then Some [] else copy_loop pool offset n)"

lemma length_fillRandom [simp]: "length (fillRandom draws n) = n"
proof (induction draws n rule: fillRandom.induct)
  case (1 draws n)
  then show ?case
    by (subst fillRandom.simps) (simp add: le64.length_enc)
qed

lemma length_paddingPool [simp]: "length (paddingPool draws) = 4194304"
  by (simp add: paddingPool_def)

lemma copy_loop_cyclic:
  assumes "pool \<noteq> []" and "offset < length pool"
  shows "copy_loop pool offset n = Some (map (\<lambda>i. pool ! ((offset + i) mod length pool)) [0..<n])"
  using assms
proof (induction pool offset n rule: copy_loop.induct)
  case (1 pool offset n)
  let ?L = "length pool"
  let ?k = "min n (?L - offset)"
  show ?case
  proof (cases "n = 0")
    case True
    then show ?thesis by (simp add: copy_loop.simps)
  next
    case False
    let ?chunk = "take n (drop offset pool)"
    have len: "length ?chunk = ?k" by simp
    have ne: "?chunk \<noteq> []" using False 1 by auto
    have rest: "copy_loop pool 0 (n - ?k) =
        Some (map (\<lambda>i. pool ! (i mod ?L)) [0..<n - ?k])"
      using 1(1) [OF False refl ne] 1(2) len by simp
    have chunk: "?chunk = map (\<lambda>i. pool ! ((offset + i) mod ?L)) [0..<?k]"
      by (rule nth_equalityI) auto
    have "map (\<lambda>i. pool ! (i mod ?L)) [0..<n - ?k] =
        map (\<lambda>i. pool ! ((offset + i) mod ?L)) [?k..<n]"
    proof (rule nth_equalityI)
      fix i assume "i < length (map (\<lambda>i. pool ! (i mod ?L)) [0..<n - ?k])"
      then have i: "i < n - ?k" by simp
      then have "?k = ?L - offset" by auto
      with 1(3) have eq: "offset + (?k + i) = ?L + i" by simp
      from i have "map (\<lambda>i. pool ! ((offset + i) mod ?L)) [?k..<n] ! i =
          pool ! ((offset + (?k + i)) mod ?L)" by (subst nth_map) (auto simp: nth_upt)
      with i eq show "map (\<lambda>i. pool ! (i mod ?L)) [0..<n - ?k] ! i =
          map (\<lambda>i. pool ! ((offset + i) mod ?L)) [?k..<n] ! i" by simp
    qed simp
    moreover have "[0..<n] = [0..<?k] @ [?k..<n]"
      by (metis le_add_diff_inverse min.cobounded1 upt_add_eq_append zero_le)
    moreover have "copy_loop pool offset n =
        map_option (\<lambda>rest. ?chunk @ rest) (copy_loop pool 0 (n - length ?chunk))"
      by (subst copy_loop.simps) (simp only: False ne Let_def if_False)
    ultimately show ?thesis
      by (simp only: len rest option.map(2) map_append flip: chunk)
  qed
qed

lemma copyPadding_cyclic:
  "pool \<noteq> [] \<Longrightarrow> offset < length pool \<Longrightarrow>
   copyPadding pool offset n = Some (map (\<lambda>i. pool ! ((offset + i) mod length pool)) [0..<n])"
  by (simp add: copyPadding_def copy_loop_cyclic)

subsection \<open>Encoding and decoding\<close>

datatype encode_error = BufferTooSmall nat u64

text \<open>
  \<open>Msg.Encode\<close> writes into the caller's buffer: the result is the number of bytes used and
  the buffer afterwards. The padding pool and the random offset into it are arguments;
  \<open>None\<close> is a padding loop that does not end.
\<close>

definition Encode :: "u8 list \<Rightarrow> nat \<Rightarrow> msg \<Rightarrow> u8 list \<Rightarrow> (encode_error + nat \<times> u8 list) option"
where
  "Encode pool offset m buf =
     (if length buf < 8 \<or> length buf - 8 < unat (m_PadN m)
      then Some (Inl (BufferTooSmall (length buf) (m_PadN m)))
      else case copyPadding pool offset (unat (m_PadN m)) of
        None \<Rightarrow> None
      | Some pad \<Rightarrow>
          Some (Inr (8 + unat (m_PadN m),
                     put_be 8 (m_Seq m) @ pad @ drop (8 + unat (m_PadN m)) buf)))"

definition Decode :: "msg \<Rightarrow> u8 list \<Rightarrow> msg panics" where
  "Decode m buf =
     (case get_be 8 buf of
        None \<Rightarrow> Panics ''index out of range''
      | Some s \<Rightarrow> Returns (m\<lparr>m_Seq := s\<rparr>))"

lemma Encode_fits:
  assumes "8 + unat (m_PadN m) \<le> length buf" and "pool \<noteq> []" and "offset < length pool"
  shows "Encode pool offset m buf =
     Some (Inr (8 + unat (m_PadN m),
       put_be 8 (m_Seq m) @
       map (\<lambda>i. pool ! ((offset + i) mod length pool)) [0..<unat (m_PadN m)] @
       drop (8 + unat (m_PadN m)) buf))"
  using assms by (simp add: Encode_def copyPadding_cyclic)

lemma Encode_error_iff:
  assumes "pool \<noteq> []" and "offset < length pool"
  shows "(\<exists>e. Encode pool offset m buf = Some (Inl e)) \<longleftrightarrow> length buf < 8 + unat (m_PadN m)"
  using assms by (auto simp: Encode_def copyPadding_cyclic)

lemma Decode_panics_iff: "(\<exists>e. Decode m buf = Panics e) \<longleftrightarrow> length buf < 8"
  by (auto simp: Decode_def get_be_def split: option.splits if_splits)

section \<open>The ICMP echo payload\<close>

definition ICMPProbePayload :: "u8 list" where
  "ICMPProbePayload = map (\<lambda>c. of_nat (of_char c)) ''whatapunch''"

definition makeICMPData :: "u16 \<Rightarrow> bool \<Rightarrow> u8 list" where
  "makeICMPData echoID punch = put_le 2 echoID @ (if punch then ICMPProbePayload else [])"

datatype icmp_error = ICMPDataTooShort

definition parseICMPData :: "u8 list \<Rightarrow> icmp_error + u16 \<times> bool" where
  "parseICMPData data =
     (case get_le 2 data of
        None \<Rightarrow> Inl ICMPDataTooShort
      | Some echoID \<Rightarrow>
          Inr (echoID,
               if length data = 2 + length ICMPProbePayload then drop 2 data = ICMPProbePayload
               else False))"

lemma ICMPProbePayload_length [simp]: "length ICMPProbePayload = 10"
  by (simp add: ICMPProbePayload_def)

lemma parse_makeICMPData [simp]: "parseICMPData (makeICMPData echoID punch) = Inr (echoID, punch)"
  by (cases punch)
    (simp_all add: parseICMPData_def makeICMPData_def le16.dec_enc_append le16.dec_enc
      le16.length_enc)

lemma parseICMPData_punch:
  assumes "parseICMPData data = Inr (echoID, True)"
  shows "data = makeICMPData echoID True"
proof -
  from assms have "get_le 2 data = Some echoID" and d: "drop 2 data = ICMPProbePayload"
    by (auto simp: parseICMPData_def split: option.splits if_splits)
  then have "take 2 data = put_le 2 echoID" by (intro le16.dec_take)
  with d show ?thesis by (metis append_take_drop_id makeICMPData_def)
qed

section \<open>Properties\<close>

text \<open>C30. \<open>Msg.Encode\<close> fails exactly when the buffer is shorter than header and padding. Otherwise
  it ends, uses \<open>8 + PadN\<close> bytes and leaves the rest of the buffer as it was, and \<open>Decode\<close>
  of any prefix of the buffer that holds the header recovers the sequence number.\<close>

theorem Encode_Decode:
  assumes "offset < length (paddingPool draws)"
  shows "case Encode (paddingPool draws) offset m buf of
     None \<Rightarrow> False
   | Some (Inl e) \<Rightarrow> length buf < 8 + unat (m_PadN m) \<and> e = BufferTooSmall (length buf) (m_PadN m)
   | Some (Inr (n, buf')) \<Rightarrow> n = 8 + unat (m_PadN m) \<and> n \<le> length buf \<and> length buf' = length buf \<and>
       drop n buf' = drop n buf \<and>
       (\<forall>k m0. 8 \<le> k \<longrightarrow> Decode m0 (take k buf') = Returns (m0\<lparr>m_Seq := m_Seq m\<rparr>))"
proof (cases "length buf < 8 + unat (m_PadN m)")
  case True
  then show ?thesis by (auto simp: Encode_def)
next
  case False
  have ne: "paddingPool draws \<noteq> []" by (metis length_paddingPool list.size(3) zero_neq_numeral)
  show ?thesis
    using False assms ne Encode_fits [of m buf "paddingPool draws" offset]
    by (simp add: Decode_def be64.dec_enc_append be64.length_enc)
qed

theorem Encode_Decode_witness:
  "(3::nat) < length (paddingPool (\<lambda>k. of_nat k)) \<and>
   (case Encode (paddingPool (\<lambda>k. of_nat k)) 3 \<lparr>m_Seq = 77, m_PadN = 4\<rparr> (replicate 20 1) of
     Some (Inr (n, buf')) \<Rightarrow> n = 12 \<and> Decode \<lparr>m_Seq = 0, m_PadN = 0\<rparr> (take 12 buf') =
        Returns \<lparr>m_Seq = 77, m_PadN = 0\<rparr>
   | _ \<Rightarrow> False)"
proof -
  have lt: "(3::nat) < length (paddingPool (\<lambda>k. of_nat k))" by simp
  show ?thesis
    using Encode_Decode [OF lt, where m = "\<lparr>m_Seq = 77, m_PadN = 4\<rparr>" and buf = "replicate 20 1"] lt
    by (auto split: option.splits sum.splits prod.splits)
qed

text \<open>The ICMP echo payload: parsing inverts building, so an ordinary packet is never taken for
  a hole-punching probe nor the other way round; payloads shorter than the flow identifier are
  rejected, and every payload parsed as a probe is one that \<open>makeICMPData\<close> builds.\<close>

theorem ICMPData_roundtrip:
  "parseICMPData (makeICMPData echoID punch) = Inr (echoID, punch) \<and>
   (parseICMPData data = Inl ICMPDataTooShort \<longleftrightarrow> length data < 2) \<and>
   (parseICMPData data = Inr (echoID, True) \<longleftrightarrow> data = makeICMPData echoID True)"
proof -
  have "parseICMPData data = Inl ICMPDataTooShort \<longleftrightarrow> length data < 2"
    by (simp add: parseICMPData_def get_le_def)
  then show ?thesis using parseICMPData_punch [of data echoID] by auto
qed

end
