(* ===== verification/Udp_Results.thy ===== *)
theory Udp_Results
  imports Go_Prelude
begin

text \<open>
  Result processing of the UDP and ICMP measurements (\<open>pkg/results.go\<close>, with the message
  records of \<open>pkg/common.go\<close>): matching sent against received packets and rendering the CSV
  rows. \<open>sort.Slice\<close> is an interface here: it promises a permutation that is sorted by the
  given comparison and nothing about equal elements (locale \<open>slice_sort\<close>).
\<close>

section \<open>Records\<close>

record msg_sent =
  s_Seq :: u64
  s_TsSent :: gtime
  s_Len :: u64

record msg_rcvd =
  r_Seq :: u64
  r_TsRcvd :: gtime
  r_Len :: u64

record msg_result =
  Seq :: u64
  TsSent :: gtime
  TsRcvd :: gtime
  Owd :: gduration
  Len :: u64
  Lost :: bool
  TsRcvdDups :: "gtime list"

section \<open>Sorting the received packets\<close>

definition rcvd_less :: "msg_rcvd \<Rightarrow> msg_rcvd \<Rightarrow> bool" where
  "rcvd_less a b =
     (if r_Seq a = r_Seq b then r_TsRcvd a < r_TsRcvd b else r_Seq a < r_Seq b)"

definition rcvd_key :: "msg_rcvd \<Rightarrow> nat \<times> gtime" where
  "rcvd_key m = (unat (r_Seq m), r_TsRcvd m)"

definition rcvd_sort :: "msg_rcvd list \<Rightarrow> msg_rcvd list" where
  "rcvd_sort rcvd = sort_key rcvd_key rcvd"

lemma rcvd_less_key: "rcvd_less a b \<longleftrightarrow> rcvd_key a < rcvd_key b"
  by (auto simp: rcvd_less_def rcvd_key_def word_less_nat_alt word_unat_eq_iff)

section \<open>Matching sent and received packets\<close>

text \<open>The zero value of \<open>MsgResult\<close> (\<open>var result MsgResult\<close>).\<close>

definition zero_result :: msg_result where
  "zero_result = \<lparr>Seq = 0, TsSent = 0, TsRcvd = 0, Owd = 0, Len = 0, Lost = False,
     TsRcvdDups = []\<rparr>"

definition lost_result :: "u64 \<Rightarrow> msg_sent \<Rightarrow> msg_result" where
  "lost_result seq s = \<lparr>Seq = seq, TsSent = s_TsSent s, TsRcvd = 0, Owd = 0, Len = s_Len s,
     Lost = True, TsRcvdDups = []\<rparr>"

definition rcvd_result :: "u64 \<Rightarrow> msg_sent \<Rightarrow> gtime \<Rightarrow> gtime list \<Rightarrow> msg_result" where
  "rcvd_result seq s t dups = \<lparr>Seq = seq, TsSent = s_TsSent s, TsRcvd = t,
     Owd = time_Sub t (s_TsSent s), Len = s_Len s, Lost = False, TsRcvdDups = dups\<rparr>"

text \<open>
  The loop of \<open>processUDP\<close>: \<open>seq\<close> counts up over \<open>sent\<close> (the remaining slice), the second
  list is \<open>rcvd\<close> from \<open>resultIdx\<close> on.
\<close>

fun processUDP_loop :: "u64 \<Rightarrow> msg_sent list \<Rightarrow> msg_rcvd list \<Rightarrow> msg_result list" where
  "processUDP_loop seq [] rcvd = []"
| "processUDP_loop seq (s # sent) rcvd =
     (if rcvd = [] \<or> seq < r_Seq (hd rcvd)
      then lost_result seq s # processUDP_loop (seq + 1) sent rcvd
      else if seq = r_Seq (hd rcvd)
      then rcvd_result seq s (r_TsRcvd (hd rcvd))
             (map r_TsRcvd (takeWhile (\<lambda>m. r_Seq m = seq) (tl rcvd)))
           # processUDP_loop (seq + 1) sent (dropWhile (\<lambda>m. r_Seq m = seq) (tl rcvd))
      else zero_result # processUDP_loop (seq + 1) sent rcvd)"

definition processUDP :: "msg_sent list \<Rightarrow> msg_rcvd list \<Rightarrow> msg_result list" where
  "processUDP sent rcvd = processUDP_loop 0 sent (rcvd_sort rcvd)"

subsection \<open>The reference result\<close>

text \<open>
  What a row should be, said without sorting or merging: the arrival times of all copies with
  the row's sequence number, in order; the first is the arrival, the rest are the duplicates.
\<close>

definition arrivals :: "u64 \<Rightarrow> msg_rcvd list \<Rightarrow> gtime list" where
  "arrivals seq rcvd = sort (map r_TsRcvd (filter (\<lambda>m. r_Seq m = seq) rcvd))"

definition result_for :: "u64 \<Rightarrow> msg_sent \<Rightarrow> msg_rcvd list \<Rightarrow> msg_result" where
  "result_for seq s rcvd =
     (case arrivals seq rcvd of
        [] \<Rightarrow> lost_result seq s
      | t # dups \<Rightarrow> rcvd_result seq s t dups)"

fun results_from :: "u64 \<Rightarrow> msg_sent list \<Rightarrow> msg_rcvd list \<Rightarrow> msg_result list" where
  "results_from seq [] rcvd = []"
| "results_from seq (s # sent) rcvd = result_for seq s rcvd # results_from (seq + 1) sent rcvd"

lemma arrivals_mset: "mset xs = mset ys \<Longrightarrow> arrivals seq xs = arrivals seq ys"
  unfolding arrivals_def
  by (rule properties_for_sort) (simp_all only: sorted_sort mset_sort mset_map mset_filter)

lemma result_for_mset: "mset xs = mset ys \<Longrightarrow> result_for seq s xs = result_for seq s ys"
  by (simp add: result_for_def arrivals_mset [of xs ys])

lemma results_from_mset: "mset xs = mset ys \<Longrightarrow> results_from seq sent xs = results_from seq sent ys"
  by (induction sent arbitrary: seq) (simp_all add: result_for_mset [of xs ys])

lemma results_from_nth:
  "length (results_from seq sent rcvd) = length sent"
  "k < length sent \<Longrightarrow> results_from seq sent rcvd ! k = result_for (seq + of_nat k) (sent ! k) rcvd"
  by (induction sent arbitrary: seq k) (auto simp: nth_Cons' algebra_simps)

subsection \<open>The merge walk computes the reference\<close>

lemma key_le_seq: "rcvd_key a \<le> rcvd_key b \<Longrightarrow> r_Seq a \<le> r_Seq b"
  by (auto simp: rcvd_key_def word_le_nat_alt less_eq_prod_def)

lemma key_le_ts: "rcvd_key a \<le> rcvd_key b \<Longrightarrow> r_Seq a = r_Seq b \<Longrightarrow> r_TsRcvd a \<le> r_TsRcvd b"
  by (auto simp: rcvd_key_def less_eq_prod_def)

lemma group_prefix:
  assumes "sorted (map rcvd_key rcvd)" and "\<forall>x \<in> set rcvd. seq \<le> r_Seq x"
  shows "filter (\<lambda>x. r_Seq x = seq) rcvd = takeWhile (\<lambda>x. r_Seq x = seq) rcvd"
    and "\<forall>x \<in> set (dropWhile (\<lambda>x. r_Seq x = seq) rcvd). seq < r_Seq x"
proof -
  have "filter (\<lambda>x. r_Seq x = seq) rcvd = takeWhile (\<lambda>x. r_Seq x = seq) rcvd \<and>
    (\<forall>x \<in> set (dropWhile (\<lambda>x. r_Seq x = seq) rcvd). seq < r_Seq x)"
    using assms
  proof (induction rcvd)
    case (Cons y ys)
    show ?case
    proof (cases "r_Seq y = seq")
      case False
      with Cons.prems(2) have "seq < r_Seq y" by (simp add: less_le)
      moreover have "r_Seq y \<le> r_Seq x" if "x \<in> set ys" for x
        using Cons.prems(1) that by (auto intro: key_le_seq)
      ultimately have "\<forall>x \<in> set ys. seq < r_Seq x" by (auto intro: less_le_trans)
      with False \<open>seq < r_Seq y\<close> show ?thesis by (auto simp: filter_empty_conv)
    qed (use Cons in simp)
  qed simp
  then show "filter (\<lambda>x. r_Seq x = seq) rcvd = takeWhile (\<lambda>x. r_Seq x = seq) rcvd"
    and "\<forall>x \<in> set (dropWhile (\<lambda>x. r_Seq x = seq) rcvd). seq < r_Seq x" by auto
qed

lemma sorted_ts_group:
  assumes "sorted (map rcvd_key rcvd)"
  shows "sorted (map r_TsRcvd (filter (\<lambda>x. r_Seq x = seq) rcvd))"
  using assms by (induction rcvd) (auto intro: key_le_ts)

lemma arrivals_sorted:
  assumes "sorted (map rcvd_key rcvd)" and "\<forall>x \<in> set rcvd. seq \<le> r_Seq x"
  shows "arrivals seq rcvd = map r_TsRcvd (takeWhile (\<lambda>x. r_Seq x = seq) rcvd)"
  using sorted_ts_group [OF assms(1), of seq] group_prefix(1) [OF assms]
  by (simp add: arrivals_def sorted_sort_id)

lemma results_from_drop:
  assumes "\<forall>x \<in> set pre. r_Seq x < seq" and "unat seq + length sent \<le> 2 ^ 64"
  shows "results_from seq sent (pre @ rcvd) = results_from seq sent rcvd"
  using assms
proof (induction sent arbitrary: seq)
  case (Cons s sent)
  have "filter (\<lambda>m. r_Seq m = seq) pre = []"
    using Cons.prems(1) by (auto simp: filter_empty_conv)
  then have "result_for seq s (pre @ rcvd) = result_for seq s rcvd"
    by (simp add: result_for_def arrivals_def)
  moreover have "results_from (seq + 1) sent (pre @ rcvd) = results_from (seq + 1) sent rcvd"
  proof (cases sent)
    case (Cons s' sent')
    with Cons.prems(2) have "unat (seq + 1) = unat seq + 1"
      by (intro unat_succ64) simp
    with Cons.prems show ?thesis
      by (intro Cons.IH) (auto simp: word_less_nat_alt)
  qed simp
  ultimately show ?case by simp
qed simp

lemma processUDP_loop_results:
  assumes "sorted (map rcvd_key rcvd)" and "\<forall>x \<in> set rcvd. seq \<le> r_Seq x"
    and "unat seq + length sent \<le> 2 ^ 64"
  shows "processUDP_loop seq sent rcvd = results_from seq sent rcvd"
  using assms
proof (induction sent arbitrary: seq rcvd)
  case (Cons s sent)
  let ?eq = "\<lambda>m. r_Seq m = seq"
  let ?rest = "dropWhile ?eq rcvd"
  note group = group_prefix [OF Cons.prems(1,2)]
  have arr: "arrivals seq rcvd = map r_TsRcvd (takeWhile ?eq rcvd)"
    by (rule arrivals_sorted [OF Cons.prems(1,2)])
  have next_rows: "processUDP_loop (seq + 1) sent ?rest = results_from (seq + 1) sent rcvd"
  proof (cases "sent = []")
    case False
    with Cons.prems(3) have succ: "unat (seq + 1) = unat seq + 1"
      by (intro unat_succ64) (cases sent; simp)
    have ge: "\<forall>x \<in> set ?rest. seq + 1 \<le> r_Seq x"
      using group(2) succ by (auto simp: word_le_nat_alt word_less_nat_alt)
    have "processUDP_loop (seq + 1) sent ?rest = results_from (seq + 1) sent ?rest"
      using Cons.prems succ ge
      by (intro Cons.IH) (simp_all add: sorted_map sorted_wrt_dropWhile)
    also have "\<dots> = results_from (seq + 1) sent (takeWhile ?eq rcvd @ ?rest)"
      using Cons.prems(3) succ
      by (intro results_from_drop [symmetric]) (auto simp: word_less_nat_alt dest: set_takeWhileD)
    finally show ?thesis by simp
  qed simp
  show ?case
  proof (cases "rcvd = [] \<or> seq < r_Seq (hd rcvd)")
    case True
    then have "takeWhile ?eq rcvd = []" and "?rest = rcvd"
      by (cases rcvd; auto)+
    with True next_rows arr show ?thesis by (simp add: result_for_def)
  next
    case False
    then obtain m rcvd' where rcvd: "rcvd = m # rcvd'" by (cases rcvd) auto
    with False Cons.prems(2) have "r_Seq m = seq" by auto
    with rcvd next_rows arr show ?thesis by (simp add: result_for_def)
  qed
qed simp

subsection \<open>Any sort will do\<close>

locale slice_sort =
  fixes less :: "'a \<Rightarrow> 'a \<Rightarrow> bool" and srt :: "'a list \<Rightarrow> 'a list"
  assumes srt_mset: "mset (srt xs) = mset xs"
    and srt_sorted: "sorted_wrt (\<lambda>x y. \<not> less y x) (srt xs)"
begin

lemma srt_length: "length (srt xs) = length xs"
  by (metis size_mset srt_mset)

lemma srt_set: "set (srt xs) = set xs"
  by (metis set_mset_mset srt_mset)

lemma srt_sorted_key:
  assumes "\<And>x y. less x y \<longleftrightarrow> key x < (key y :: 'k::linorder)"
  shows "sorted (map key (srt xs))"
  using srt_sorted [of xs] by (simp add: assms not_less sorted_map)

end

locale rcvd_sorter = slice_sort rcvd_less srt
  for srt :: "msg_rcvd list \<Rightarrow> msg_rcvd list"
begin

lemma walk_results:
  assumes "length sent \<le> 2 ^ 64"
  shows "processUDP_loop 0 sent (srt rcvd) = results_from 0 sent rcvd"
proof -
  have "processUDP_loop 0 sent (srt rcvd) = results_from 0 sent (srt rcvd)"
    using assms by (intro processUDP_loop_results srt_sorted_key) (auto simp: rcvd_less_key)
  then show ?thesis by (simp add: results_from_mset [OF srt_mset])
qed

end

interpretation stable: rcvd_sorter rcvd_sort
proof
  fix xs
  show "mset (rcvd_sort xs) = mset xs" by (simp add: rcvd_sort_def)
  have "sorted (map rcvd_key (rcvd_sort xs))" by (simp add: rcvd_sort_def)
  then show "sorted_wrt (\<lambda>x y. \<not> rcvd_less y x) (rcvd_sort xs)"
    by (simp add: sorted_map rcvd_less_key not_less)
qed

lemmas processUDP_results = stable.walk_results [folded processUDP_def]

lemma processUDP_length:
  "length sent \<le> 2 ^ 64 \<Longrightarrow> length (processUDP sent rcvd) = length sent"
  by (simp add: processUDP_results results_from_nth)

lemma processUDP_nth:
  "length sent \<le> 2 ^ 64 \<Longrightarrow> k < length sent \<Longrightarrow>
   processUDP sent rcvd ! k = result_for (of_nat k) (sent ! k) rcvd"
  by (simp add: processUDP_results results_from_nth)

lemma arrivals_Nil: "arrivals seq rcvd = [] \<longleftrightarrow> (\<forall>m \<in> set rcvd. r_Seq m \<noteq> seq)"
proof -
  have "arrivals seq rcvd = [] \<longleftrightarrow> length (arrivals seq rcvd) = 0" by simp
  then show ?thesis by (auto simp: arrivals_def filter_empty_conv)
qed

lemma result_for_simps:
  "Seq (result_for seq s rcvd) = seq"
  "TsSent (result_for seq s rcvd) = s_TsSent s"
  "Len (result_for seq s rcvd) = s_Len s"
  "Lost (result_for seq s rcvd) \<longleftrightarrow> (\<forall>m \<in> set rcvd. r_Seq m \<noteq> seq)"
  by (simp_all add: result_for_def lost_result_def rcvd_result_def
      split: list.split flip: arrivals_Nil)

section \<open>Properties\<close>

text \<open>C9. Whatever order \<open>sort.Slice\<close> leaves equal elements in (it is not stable), the merge walk
  of \<open>processUDP\<close> over the sorted packets computes the reference: row \<open>k\<close> holds exactly the
  arrival times of the received copies of packet \<open>k\<close>.\<close>

theorem processUDP_correct:
  assumes "length sent \<le> 2 ^ 64" and "mset sorted_rcvd = mset rcvd"
    and "sorted_wrt (\<lambda>x y. \<not> rcvd_less y x) sorted_rcvd"
  shows "processUDP_loop 0 sent sorted_rcvd = results_from 0 sent rcvd \<and>
     processUDP sent rcvd = results_from 0 sent rcvd"
proof -
  have "sorted (map rcvd_key sorted_rcvd)"
    using assms(3) by (simp add: sorted_map rcvd_less_key not_less)
  then have "processUDP_loop 0 sent sorted_rcvd = results_from 0 sent sorted_rcvd"
    using assms(1) by (intro processUDP_loop_results) auto
  then show ?thesis
    using results_from_mset [OF assms(2)] processUDP_results [OF assms(1)] by simp
qed

definition example_sent :: "msg_sent list" where
  "example_sent = [\<lparr>s_Seq = 0, s_TsSent = 10, s_Len = 8\<rparr>, \<lparr>s_Seq = 1, s_TsSent = 20, s_Len = 8\<rparr>,
     \<lparr>s_Seq = 2, s_TsSent = 30, s_Len = 9\<rparr>]"

definition example_rcvd :: "msg_rcvd list" where
  "example_rcvd = [\<lparr>r_Seq = 2, r_TsRcvd = 75, r_Len = 9\<rparr>, \<lparr>r_Seq = 0, r_TsRcvd = 50, r_Len = 8\<rparr>,
     \<lparr>r_Seq = 2, r_TsRcvd = 70, r_Len = 9\<rparr>]"

definition example_sorted :: "msg_rcvd list" where
  "example_sorted = [\<lparr>r_Seq = 0, r_TsRcvd = 50, r_Len = 8\<rparr>, \<lparr>r_Seq = 2, r_TsRcvd = 70, r_Len = 9\<rparr>,
     \<lparr>r_Seq = 2, r_TsRcvd = 75, r_Len = 9\<rparr>]"

theorem processUDP_correct_witness:
  "mset example_sorted = mset example_rcvd \<and>
   processUDP_loop 0 example_sent example_sorted = results_from 0 example_sent example_rcvd \<and>
   processUDP example_sent example_rcvd = results_from 0 example_sent example_rcvd"
proof -
  have perm: "mset example_sorted = mset example_rcvd"
    by (simp add: example_sorted_def example_rcvd_def)
  have srt: "sorted_wrt (\<lambda>x y. \<not> rcvd_less y x) example_sorted"
    by (simp add: example_sorted_def rcvd_less_def)
  have len: "length example_sent \<le> 2 ^ 64" by (simp add: example_sent_def)
  show ?thesis using perm processUDP_correct [OF len perm srt] by simp
qed

text \<open>The row of packet \<open>k\<close>: its number, send time and length are those of the \<open>k\<close>-th sent
  record; it is lost exactly when no copy arrived; otherwise its arrival is the earliest copy's,
  the delay is the difference of the two times, and the remaining copies are listed as
  duplicates in order of arrival.\<close>

theorem processUDP_row:
  assumes "length sent \<le> 2 ^ 64" and "k < length sent"
  shows "let row = processUDP sent rcvd ! k;
             copies = {# r_TsRcvd m. m \<in># filter_mset (\<lambda>m. r_Seq m = of_nat k) (mset rcvd) #}
         in length (processUDP sent rcvd) = length sent \<and>
            Seq row = of_nat k \<and> TsSent row = s_TsSent (sent ! k) \<and> Len row = s_Len (sent ! k) \<and>
            (if copies = {#} then Lost row \<and> TsRcvdDups row = []
             else \<not> Lost row \<and> mset (TsRcvd row # TsRcvdDups row) = copies \<and>
                  sorted (TsRcvd row # TsRcvdDups row) \<and>
                  Owd row = time_Sub (TsRcvd row) (TsSent row))"
proof -
  let ?c = "{# r_TsRcvd m. m \<in># filter_mset (\<lambda>m. r_Seq m = of_nat k) (mset rcvd) #}"
  have row: "processUDP sent rcvd ! k = result_for (of_nat k) (sent ! k) rcvd"
    using assms by (rule processUDP_nth)
  have arr: "mset (arrivals (of_nat k) rcvd) = ?c" "sorted (arrivals (of_nat k) rcvd)"
    by (simp_all add: arrivals_def)
  show ?thesis
  proof (cases "arrivals (of_nat k) rcvd")
    case Nil
    with arr have "?c = {#}" by simp
    with Nil show ?thesis
      using assms(1) by (simp add: row result_for_def lost_result_def processUDP_length Let_def)
  next
    case (Cons t ts)
    with arr have "?c = mset (t # ts)" "sorted (t # ts)" by simp_all
    with Cons show ?thesis
      using assms(1) by (simp add: row result_for_def rcvd_result_def processUDP_length Let_def)
  qed
qed

theorem processUDP_row_witness:
  "length example_sent \<le> 2 ^ 64 \<and> (2::nat) < length example_sent \<and>
   length (processUDP example_sent example_rcvd) = length example_sent \<and>
   Seq (processUDP example_sent example_rcvd ! 2) = 2"
proof -
  have len: "length example_sent \<le> 2 ^ 64" "(2::nat) < length example_sent"
    by (simp_all add: example_sent_def)
  show ?thesis using len processUDP_row [OF len, of example_rcvd] by (simp add: Let_def)
qed

end
