(* ===== verification/Result_Rows.thy ===== *)
theory Result_Rows
  imports Udp_Results
begin

text \<open>
  The CSV tables of \<open>pkg/results.go\<close>: one row per UDP or ICMP packet, one row per TCP sample.
  The formats \<open>Time.Format(time.RFC3339Nano)\<close> (which depends on the time's location) and
  \<open>FormatFloat\<close> outside the exact range are arguments, and so are the \<open>String\<close> methods of
  the third-party \<open>tcpinfo\<close> package.
\<close>

section \<open>Durations in milliseconds\<close>

text \<open>
  \<open>fmtDurationMs\<close> divides the nanoseconds by \<open>1e6\<close> in \<open>float64\<close> and prints the shortest
  decimal that reads back as that number. Below \<open>10 ^ 15\<close> nanoseconds (more than eleven days)
  the quotient has at most 15 significant decimal digits, so that decimal is the exact quotient
  without trailing zeros. Beyond that the argument \<open>ff\<close> stands for \<open>FormatFloat\<close>.
\<close>

definition trim_zeros :: "string \<Rightarrow> string" where
  "trim_zeros s = rev (dropWhile (\<lambda>c. c = CHR ''0'') (rev s))"

definition exact_ms :: "nat \<Rightarrow> string" where
  "exact_ms n =
     nat_dec (n div 1000000) @
     (if n mod 1000000 = 0 then [] else ''.'' @ trim_zeros (zero_pad 6 (n mod 1000000)))"

definition fmtDurationMs :: "(gduration \<Rightarrow> string) \<Rightarrow> gduration \<Rightarrow> string" where
  "fmtDurationMs ff d =
     (if \<bar>d\<bar> < 10 ^ 15 then (if d < 0 then ''-'' else []) @ exact_ms (nat \<bar>d\<bar>) else ff d)"

section \<open>UDP rows\<close>

fun bool_String :: "bool \<Rightarrow> string" where
  "bool_String True = ''true''"
| "bool_String False = ''false''"

definition udp_header :: "nat \<Rightarrow> string list" where
  "udp_header maxDups =
     [''seq'', ''ts_sent'', ''ts_rcvd'', ''owd_ms'', ''size'', ''lost'', ''dup_count''] @
     map (\<lambda>n. ''ts_rcvd_'' @ nat_dec n) [1..<Suc maxDups]"

definition max_dups :: "msg_result list \<Rightarrow> nat" where
  "max_dups results =
     foldl (\<lambda>m r. if m < length (TsRcvdDups r) then length (TsRcvdDups r) else m) 0 results"

definition udp_row ::
  "(gtime \<Rightarrow> string) \<Rightarrow> (gduration \<Rightarrow> string) \<Rightarrow> nat \<Rightarrow> msg_result \<Rightarrow> string list" where
  "udp_row fmt ff maxDups r =
     [nat_dec (unat (Seq r)),
      fmt (TsSent r),
      if IsZero (TsRcvd r) then [] else fmt (TsRcvd r),
      if Lost r then [] else fmtDurationMs ff (Owd r),
      nat_dec (unat (Len r)),
      bool_String (Lost r),
      nat_dec (length (TsRcvdDups r))] @
     map (\<lambda>n. if n < length (TsRcvdDups r) \<and> \<not> IsZero (TsRcvdDups r ! n)
              then fmt (TsRcvdDups r ! n) else []) [0..<maxDups]"

definition generateUDPResultRows ::
  "(gtime \<Rightarrow> string) \<Rightarrow> (gduration \<Rightarrow> string) \<Rightarrow> msg_result list \<Rightarrow> string list list" where
  "generateUDPResultRows fmt ff results =
     (let maxDups = max_dups results
      in udp_header maxDups # map (udp_row fmt ff maxDups) results)"

lemma max_dups_foldl:
  "foldl (\<lambda>m r. if m < length (TsRcvdDups r) then length (TsRcvdDups r) else m) k results =
   fold max (map (length \<circ> TsRcvdDups) results) k"
  by (induction results arbitrary: k) (auto simp: max_def)

lemma max_dups_ge: "r \<in> set results \<Longrightarrow> length (TsRcvdDups r) \<le> max_dups results"
proof -
  have "fold max ns k = Max (set (k # ns))" for ns :: "nat list" and k
    by (metis Max.set_eq_fold fold_simps(2) list.set(2))
  then have "max_dups results = Max (set (0 # map (length \<circ> TsRcvdDups) results))"
    by (simp add: max_dups_def max_dups_foldl)
  then show "length (TsRcvdDups r) \<le> max_dups results" if "r \<in> set results"
    using that by simp
qed

lemma length_udp_header [simp]: "length (udp_header n) = 7 + n"
  by (simp add: udp_header_def)

lemma length_udp_row [simp]: "length (udp_row fmt ff n r) = 7 + n"
  by (simp add: udp_row_def)

lemma udp_row_dups:
  assumes "length (TsRcvdDups r) \<le> n" and "\<forall>t \<in> set (TsRcvdDups r). t \<noteq> 0"
  shows "drop 7 (udp_row fmt ff n r) =
     map fmt (TsRcvdDups r) @ replicate (n - length (TsRcvdDups r)) []"
proof -
  let ?d = "TsRcvdDups r"
  have "[0..<n] = [0..<length ?d] @ [length ?d..<n]"
    by (metis assms(1) le_add_diff_inverse upt_add_eq_append zero_le)
  moreover have "map (\<lambda>k. if k < length ?d \<and> \<not> IsZero (?d ! k) then fmt (?d ! k) else [])
      [0..<length ?d] = map fmt ?d"
    by (rule nth_equalityI) (use assms(2) in \<open>auto simp: IsZero_def\<close>)
  moreover have "map (\<lambda>k. if k < length ?d \<and> \<not> IsZero (?d ! k) then fmt (?d ! k) else [])
      [length ?d..<n] = replicate (n - length ?d) []"
    by (rule nth_equalityI) auto
  ultimately show ?thesis by (simp add: udp_row_def)
qed

section \<open>TCP rows\<close>

text \<open>The fields of \<open>tcpinfo.Info\<close> that the table shows. \<open>FlowControl\<close>,
  \<open>CongestionControl\<close> and \<open>Sys\<close> are pointers; following a nil pointer panics.\<close>

record flow_control =
  ReceiverWindow :: u64

record congestion_control =
  SenderSSThreshold :: u64
  ReceiverSSThreshold :: u64
  SenderWindowBytes :: u64
  SenderWindowSegs :: u64

record 'ca sys_info =
  PathMTU :: u64
  CAState :: 'ca
  Retransmissions :: u64
  Backoffs :: u64
  WindowOrKeepAliveProbes :: u64
  UnackedSegs :: u64
  SackedSegs :: u64
  LostSegs :: u64
  RetransSegs :: u64
  ForwardAckSegs :: u64
  ReorderedSegs :: u64
  ReceiverRTT :: gduration
  TotalRetransSegs :: u64
  PacingRate :: u64
  ThruBytesAcked :: u64
  ThruBytesReceived :: u64
  SegsOut :: u64
  SegsIn :: u64
  NotSentBytes :: u64
  MinRTT :: gduration
  DataSegsOut :: u64
  DataSegsIn :: u64

record bbr_info =
  bbr_MaxBW :: u64
  bbr_MinRTT :: gduration
  bbr_PacingGain :: u64
  bbr_CongWindowGain :: u64

record ('st, 'ca) tcp_info =
  State :: 'st
  SenderMSS :: u64
  ReceiverMSS :: u64
  RTT :: gduration
  RTTVar :: gduration
  RTO :: gduration
  ATO :: gduration
  LastDataSent :: gduration
  LastDataReceived :: gduration
  LastAckReceived :: gduration
  FlowControl :: "flow_control option"
  CongestionControl :: "congestion_control option"
  Sys :: "'ca sys_info option"

record ('st, 'ca) tcp_metric =
  Time :: gtime
  Info :: "('st, 'ca) tcp_info"
  BBRInfo :: "bbr_info option"

definition tcp_header :: "string list" where
  "tcp_header =
     [''Time''] @
     [''State'', ''SenderMSS'', ''ReceiverMSS'', ''RTT'', ''RTTVar'', ''RTO'', ''ATO'',
      ''LastDataSent'', ''LastDataReceived'', ''LastAckReceived''] @
     [''ReceiverWindow''] @
     [''SenderSSThreshold'', ''ReceiverSSThreshold'', ''SenderWindowBytes'',
      ''SenderWindowSegs''] @
     [''PathMTU'', ''CAState'', ''Retransmissions'', ''Backoffs'', ''WindowOrKeepAliveProbes'',
      ''UnackedSegs'', ''SackedSegs'', ''LostSegs'', ''RetransSegs'', ''ForwardAckSegs'',
      ''ReorderedSegs'', ''ReceiverRTT'', ''TotalRetransSegs'', ''PacingRate'',
      ''ThruBytesAcked'', ''ThruBytesReceived'', ''SegsOut'', ''SegsIn'', ''NotSentBytes'',
      ''MinRTT'', ''DataSegsOut'', ''DataSegsIn''] @
     [''BBRMaxBW'', ''BBRMinRTT'', ''BBRPacingGain'', ''BBRCongWindowGain'']"

definition udec :: "u64 \<Rightarrow> string" where
  "udec w = nat_dec (unat w)"

definition bbr_cells :: "(gduration \<Rightarrow> string) \<Rightarrow> bbr_info option \<Rightarrow> string list" where
  "bbr_cells ff b =
     (case b of
        None \<Rightarrow> [[], [], [], []]
      | Some b \<Rightarrow> [udec (bbr_MaxBW b), fmtDurationMs ff (bbr_MinRTT b), udec (bbr_PacingGain b),
                   udec (bbr_CongWindowGain b)])"

definition sys_cells :: "(gduration \<Rightarrow> string) \<Rightarrow> ('ca \<Rightarrow> string) \<Rightarrow> 'ca sys_info \<Rightarrow> string list"
where
  "sys_cells ff caStr s =
     [udec (PathMTU s), caStr (CAState s), udec (Retransmissions s), udec (Backoffs s),
      udec (WindowOrKeepAliveProbes s), udec (UnackedSegs s), udec (SackedSegs s),
      udec (LostSegs s), udec (RetransSegs s), udec (ForwardAckSegs s), udec (ReorderedSegs s),
      fmtDurationMs ff (ReceiverRTT s), udec (TotalRetransSegs s), udec (PacingRate s),
      udec (ThruBytesAcked s), udec (ThruBytesReceived s), udec (SegsOut s), udec (SegsIn s),
      udec (NotSentBytes s), fmtDurationMs ff (MinRTT s), udec (DataSegsOut s),
      udec (DataSegsIn s)]"

definition tcp_row ::
  "(gtime \<Rightarrow> string) \<Rightarrow> (gduration \<Rightarrow> string) \<Rightarrow> ('st \<Rightarrow> string) \<Rightarrow> ('ca \<Rightarrow> string) \<Rightarrow>
   ('st, 'ca) tcp_metric \<Rightarrow> string list panics" where
  "tcp_row fmt ff stStr caStr r =
     (let i = Info r in
      case FlowControl i of None \<Rightarrow> Panics ''nil pointer dereference''
      | Some fc \<Rightarrow>
        (case CongestionControl i of None \<Rightarrow> Panics ''nil pointer dereference''
         | Some cc \<Rightarrow>
           (case Sys i of None \<Rightarrow> Panics ''nil pointer dereference''
            | Some s \<Rightarrow> Returns
               ([fmt (Time r), stStr (State i), udec (SenderMSS i), udec (ReceiverMSS i),
                 fmtDurationMs ff (RTT i), fmtDurationMs ff (RTTVar i),
                 fmtDurationMs ff (RTO i), fmtDurationMs ff (ATO i),
                 fmtDurationMs ff (LastDataSent i), fmtDurationMs ff (LastDataReceived i),
                 fmtDurationMs ff (LastAckReceived i),
                 udec (ReceiverWindow fc),
                 udec (SenderSSThreshold cc), udec (ReceiverSSThreshold cc),
                 udec (SenderWindowBytes cc), udec (SenderWindowSegs cc)] @
                sys_cells ff caStr s @ bbr_cells ff (BBRInfo r)))))"

text \<open>The loop over the samples; \<open>j\<close> is the index, and the first data row is compared with
  the header.\<close>

fun tcp_rows_loop ::
  "(('st, 'ca) tcp_metric \<Rightarrow> string list panics) \<Rightarrow> nat \<Rightarrow> ('st, 'ca) tcp_metric list \<Rightarrow>
   string list list panics" where
  "tcp_rows_loop row j [] = Returns []"
| "tcp_rows_loop row j (r # rs) =
     (case row r of
        Panics e \<Rightarrow> Panics e
      | Returns cells \<Rightarrow>
          if j = 0 \<and> length tcp_header \<noteq> length cells
          then Panics ''Header and data row lengths don't match''
          else (case tcp_rows_loop row (Suc j) rs of
                  Panics e \<Rightarrow> Panics e
                | Returns rows \<Rightarrow> Returns (cells # rows)))"

definition generateTCPResultRows ::
  "(gtime \<Rightarrow> string) \<Rightarrow> (gduration \<Rightarrow> string) \<Rightarrow> ('st \<Rightarrow> string) \<Rightarrow> ('ca \<Rightarrow> string) \<Rightarrow>
   ('st, 'ca) tcp_metric list \<Rightarrow> string list list panics" where
  "generateTCPResultRows fmt ff stStr caStr results =
     (case tcp_rows_loop (tcp_row fmt ff stStr caStr) 0 results of
        Panics e \<Rightarrow> Panics e
      | Returns rows \<Rightarrow> Returns (tcp_header # rows))"

definition metric_complete :: "('st, 'ca) tcp_metric \<Rightarrow> bool" where
  "metric_complete r \<longleftrightarrow>
     FlowControl (Info r) \<noteq> None \<and> CongestionControl (Info r) \<noteq> None \<and> Sys (Info r) \<noteq> None"

lemma length_tcp_header [simp]: "length tcp_header = 42"
  by (simp add: tcp_header_def)

lemma tcp_row_complete:
  "(\<exists>cells. tcp_row fmt ff stStr caStr r = Returns cells) \<longleftrightarrow> metric_complete r"
  by (auto simp: tcp_row_def metric_complete_def Let_def split: option.splits)

lemma tcp_row_width: "tcp_row fmt ff stStr caStr r = Returns cells \<Longrightarrow> length cells = 42"
  by (auto simp: tcp_row_def sys_cells_def bbr_cells_def Let_def split: option.splits)

lemma tcp_rows_loop_returns:
  assumes "\<forall>r \<in> set rs. metric_complete r"
  shows "\<exists>rows. tcp_rows_loop (tcp_row fmt ff stStr caStr) j rs = Returns rows \<and>
     length rows = length rs \<and> (\<forall>cells \<in> set rows. length cells = 42)"
  using assms
proof (induction rs arbitrary: j)
  case (Cons r rs)
  then obtain cells where "tcp_row fmt ff stStr caStr r = Returns cells" "length cells = 42"
    using tcp_row_complete [of fmt ff stStr caStr r] tcp_row_width by fastforce
  moreover obtain rows where "tcp_rows_loop (tcp_row fmt ff stStr caStr) (Suc j) rs = Returns rows"
    "length rows = length rs" "\<forall>cells \<in> set rows. length cells = 42"
    using Cons by fastforce
  ultimately show ?case by simp
qed simp

lemma tcp_rows_loop_complete:
  "tcp_rows_loop (tcp_row fmt ff stStr caStr) j rs = Returns rows \<Longrightarrow> list_all metric_complete rs"
  by (induction rs arbitrary: j rows)
    (auto split: panics.splits if_splits simp flip: tcp_row_complete [of fmt ff stStr caStr])

lemma tcp_table_panics_iff:
  "(\<exists>m. generateTCPResultRows fmt ff stStr caStr results = Panics m) \<longleftrightarrow> \<not> list_all metric_complete results"
proof (cases "tcp_rows_loop (tcp_row fmt ff stStr caStr) 0 results")
  case (Returns rows)
  then show ?thesis using tcp_rows_loop_complete [OF Returns] by (simp add: generateTCPResultRows_def)
next
  case (Panics m)
  then show ?thesis
    using tcp_rows_loop_returns [of results fmt ff stStr caStr 0] by (auto simp: generateTCPResultRows_def list_all_iff)
qed

section \<open>Properties\<close>

text \<open>C31. The UDP table is rectangular and loses nothing: every row has as many cells as the
  header, the header has a column for every duplicate of every row, and a row's duplicate
  columns show its duplicates in order, padded with empty cells.\<close>

theorem udp_table_rectangular:
  assumes "\<forall>r \<in> set results. \<forall>t \<in> set (TsRcvdDups r). t \<noteq> 0"
  shows "case generateUDPResultRows fmt ff results of
     [] \<Rightarrow> False
   | header # rows \<Rightarrow>
       length rows = length results \<and>
       (\<forall>row \<in> set rows. length row = length header) \<and>
       (\<forall>i < length results. \<exists>pad. drop 7 (rows ! i) =
          map fmt (TsRcvdDups (results ! i)) @ replicate pad [] \<and>
          7 + length (TsRcvdDups (results ! i)) + pad = length header)"
proof -
  have "\<exists>pad. drop 7 (udp_row fmt ff (max_dups results) r) = map fmt (TsRcvdDups r) @ replicate pad [] \<and>
      length (TsRcvdDups r) + pad = max_dups results" if "r \<in> set results" for r
    using udp_row_dups [OF max_dups_ge [OF that]] max_dups_ge [OF that] assms that
    by (intro exI [of _ "max_dups results - length (TsRcvdDups r)"]) auto
  then show ?thesis
    by (auto simp: generateUDPResultRows_def Let_def)
qed

definition example_results :: "msg_result list" where
  "example_results = [\<lparr>Seq = 0, TsSent = 10, TsRcvd = 0, Owd = 0, Len = 8, Lost = True, TsRcvdDups = []\<rparr>,
     \<lparr>Seq = 1, TsSent = 10, TsRcvd = 25, Owd = 15, Len = 8, Lost = False, TsRcvdDups = [30, 31]\<rparr>]"

theorem udp_table_rectangular_witness:
  "list_all (\<lambda>r. list_all (\<lambda>t. t \<noteq> 0) (TsRcvdDups r)) example_results \<and>
   (case generateUDPResultRows (\<lambda>t. nat_dec (nat t)) (\<lambda>d. []) example_results of
     [] \<Rightarrow> False
   | header # rows \<Rightarrow> length rows = 2 \<and> list_all (\<lambda>row. length row = length header) rows)"
proof -
  have ne: "\<forall>r \<in> set example_results. \<forall>t \<in> set (TsRcvdDups r). t \<noteq> 0"
    and len: "length example_results = 2" by (simp_all add: example_results_def)
  show ?thesis
    using ne udp_table_rectangular [OF ne, of "\<lambda>t. nat_dec (nat t)" "\<lambda>d. []"]
    by (auto simp: len list_all_iff split: list.splits)
qed

text \<open>The TCP table: when every sample carries the pointers the table follows
  (\<open>FlowControl\<close>, \<open>CongestionControl\<close>, \<open>Sys\<close>), generating it does not panic, in particular
  the header and data rows agree in length, and every row has the header's 42 cells; when a sample
  misses one of them it panics.\<close>

theorem tcp_table_returns_iff:
  "(\<exists>rows. generateTCPResultRows fmt ff stStr caStr results = Returns (tcp_header # rows) \<and>
      length rows = length results \<and> list_all (\<lambda>row. length row = length tcp_header) rows) \<longleftrightarrow>
   list_all metric_complete results"
proof
  assume "list_all metric_complete results"
  then show "\<exists>rows. generateTCPResultRows fmt ff stStr caStr results = Returns (tcp_header # rows) \<and>
      length rows = length results \<and> list_all (\<lambda>row. length row = length tcp_header) rows"
    using tcp_rows_loop_returns [of results fmt ff stStr caStr 0]
    by (auto simp: list_all_iff generateTCPResultRows_def)
next
  assume "\<exists>rows. generateTCPResultRows fmt ff stStr caStr results = Returns (tcp_header # rows) \<and>
      length rows = length results \<and> list_all (\<lambda>row. length row = length tcp_header) rows"
  then show "list_all metric_complete results"
    by (auto simp: generateTCPResultRows_def split: panics.splits intro: tcp_rows_loop_complete)
qed

end
