(* ===== verification/Rate_Pacing.thy ===== *)
theory Rate_Pacing
  imports Wire_Format Udp_Results
begin

text \<open>
  The paced UDP sender of \<open>pkg/udp.go\<close>: the packet budget of a segment (\<open>numPacketsGoal\<close>,
  \<open>packetsDue\<close>, \<open>rateSegmentGoal\<close>), one catch-up round (\<open>sendRound\<close>), one segment
  (\<open>runSegment\<close>) and the sequence of segments (\<open>runSegments\<close>). The clock, the context, the
  ticker and the kernel's answers to \<open>SendMsgs\<close> are inputs of the model: one record per batch,
  per tick and per segment. The state keeps, beside the sender's own \<open>seq\<close> and \<open>msgs\<close>, the
  list of datagrams the kernel accepted, each with the time of the context check before its
  \<open>SendMsgs\<close> call.
\<close>

section \<open>Parameters\<close>

record rate_params =
  Pps :: u64
  Interval :: gduration
  Duration :: gduration
  PayloadSize :: u64

definition rate_GetDuration :: "rate_params \<Rightarrow> gduration" where
  "rate_GetDuration r = Duration r"

text \<open>\<open>RateParamsW.GetDuration\<close>: the sum of the positive durations, in 64 bits.\<close>

definition rateW_GetDuration :: "rate_params list \<Rightarrow> gduration" where
  "rateW_GetDuration rs = foldl (\<lambda>d r. int64 (d + max 0 (rate_GetDuration r))) 0 rs"

section \<open>The packet budget\<close>

definition numPacketsGoal :: "gduration \<Rightarrow> u64 \<Rightarrow> u64" where
  "numPacketsGoal elapsed pps =
     (if elapsed \<le> 0 then 0 else (of_int elapsed * pps) div 1000000000)"

definition packetsDue :: "gduration \<Rightarrow> u64 \<Rightarrow> u64 \<Rightarrow> u64 \<times> bool" where
  "packetsDue elapsed pps alreadySent =
     (let goal = numPacketsGoal elapsed pps in
      if alreadySent > goal then (0, True) else (goal - alreadySent, False))"

definition rateSegmentGoal :: "gtime \<Rightarrow> gtime \<Rightarrow> gtime \<Rightarrow> u64 \<Rightarrow> u64 \<Rightarrow> u64" where
  "rateSegmentGoal now start stop pps missed =
     (let goal = numPacketsGoal (min (time_Sub now start) (time_Sub stop start)) pps
      in goal - min goal missed)"

lemma numPacketsGoal_exact:
  assumes "elapsed < 2 ^ 63" and "elapsed * uint pps < 2 ^ 64"
  shows "uint (numPacketsGoal elapsed pps) = max 0 elapsed * uint pps div 10 ^ 9"
proof (cases "elapsed \<le> 0")
  case False
  then have e: "uint (of_int elapsed :: u64) = elapsed"
    using assms(1) by (simp add: uint_word_of_int_eq take_bit_int_eq_self)
  have "0 \<le> elapsed * uint pps" using False by simp
  then have "uint (of_int elapsed * pps) = elapsed * uint pps"
    using assms(2) by (simp add: uint_word_ariths e)
  then show ?thesis using False by (simp add: numPacketsGoal_def uint_div)
qed (simp add: numPacketsGoal_def)

lemma numPacketsGoal_mono:
  assumes "a \<le> b" and "b < 2 ^ 63" and "b * uint pps < 2 ^ 64"
  shows "uint (numPacketsGoal a pps) \<le> uint (numPacketsGoal b pps)"
proof -
  have "a * uint pps \<le> b * uint pps" using assms(1) by (simp add: mult_right_mono)
  then have "a * uint pps < 2 ^ 64" using assms(3) by linarith
  moreover have "max 0 a * uint pps \<le> max 0 b * uint pps"
    using assms(1) by (intro mult_right_mono) auto
  ultimately show ?thesis
    using assms by (simp add: numPacketsGoal_exact zdiv_mono1)
qed

lemma rateSegmentGoal_bound:
  assumes "0 \<le> stop - start" "stop - start < 2 ^ 63" "(stop - start) * uint pps < 2 ^ 64"
  shows "uint (rateSegmentGoal now start stop pps missed) \<le>
     max 0 ((stop - start) * uint pps div 10 ^ 9 - uint missed)"
proof -
  let ?e = "min (time_Sub now start) (time_Sub stop start)"
  let ?g = "numPacketsGoal ?e pps"
  have e: "time_Sub stop start = stop - start" using assms by (intro time_Sub_exact) simp
  have "uint ?g \<le> uint (numPacketsGoal (stop - start) pps)"
    using assms by (intro numPacketsGoal_mono) (auto simp: e)
  also have "\<dots> = (stop - start) * uint pps div 10 ^ 9"
    using assms by (simp add: numPacketsGoal_exact)
  finally have g: "uint ?g \<le> (stop - start) * uint pps div 10 ^ 9" .
  have "uint (?g - min ?g missed) = uint ?g - uint (min ?g missed)"
    by (rule uint_sub_lem [THEN iffD1]) (simp add: word_le_def [symmetric])
  also have "\<dots> \<le> max 0 (uint ?g - uint missed)"
    by (auto simp: min_def word_le_def)
  finally show ?thesis using g unfolding rateSegmentGoal_def Let_def by linarith
qed

section \<open>Contexts\<close>

text \<open>\<open>rateContextExpired(ctx, now)\<close>: the context's deadline, whether its \<open>Err\<close> is set at
  the moment of the check, and the time of the check.\<close>

definition rateContextExpired :: "gtime option \<Rightarrow> bool \<Rightarrow> gtime \<Rightarrow> bool" where
  "rateContextExpired deadline err now =
     (if err then True else (case deadline of None \<Rightarrow> False | Some d \<Rightarrow> \<not> now < d))"

section \<open>One round\<close>

record rate_sender =
  rs_seq :: u64
  rs_msgs :: "msg_sent list"
  rs_wire :: "(gtime \<times> u8 list) list"

definition new_rate_sender :: rate_sender where
  "new_rate_sender = \<lparr>rs_seq = 0, rs_msgs = [], rs_wire = []\<rparr>"

text \<open>What one pass of the loop in \<open>sendRound\<close> sees: the two context checks, the send
  timestamp, the random draw of each \<open>Encode\<close> call and the answer of \<open>SendMsgs\<close> for a
  number of messages (a count, or an error that is a timeout or not).\<close>

datatype send_result = Sent int | SendErr bool

record batch_env =
  be_err1 :: bool
  be_now1 :: gtime
  be_ts :: gtime
  be_draw :: "nat \<Rightarrow> nat"
  be_err2 :: bool
  be_now2 :: gtime
  be_send :: "nat \<Rightarrow> send_result"

text \<open>The documented behaviour of \<open>SendMsgs\<close>: a count without an error is between 0 and the
  number of messages.\<close>

definition SendMsgs_contract :: "(nat \<Rightarrow> batch_env) \<Rightarrow> bool" where
  "SendMsgs_contract env \<longleftrightarrow> (\<forall>k m n. be_send (env k) m = Sent n \<longrightarrow> 0 \<le> n \<and> n \<le> int m)"

datatype send_error = EncodeErr encode_error | SendMsgsErr

text \<open>\<open>RoundContract\<close> is a \<open>SendMsgs\<close> that claims more packets than it was given, which
  its contract excludes; the source would reslice beyond the records.\<close>

datatype round_result = RoundOk nat | RoundErr send_error nat | RoundPanic | RoundContract

text \<open>\<open>Msg.Encode\<close> into a packet buffer: random draw, sequence number, padding size.\<close>

type_synonym encoder = "nat \<Rightarrow> u64 \<Rightarrow> u64 \<Rightarrow> encode_error + u8 list"

text \<open>The encoder the senders use: buffers of 1500 bytes, of which the packet is \<open>buf[:n]\<close>;
  the draw picks an offset in the padding pool. The pool is never empty, so the padding loop
  ends (\<open>encode_packet_total\<close>).\<close>

definition encode_packet :: "u8 list \<Rightarrow> encoder" where
  "encode_packet pool draw seq padN =
     (case Encode pool (draw mod length pool) \<lparr>m_Seq = seq, m_PadN = padN\<rparr> (replicate 1500 0) of
        Some (Inr (n, buf)) \<Rightarrow> Inr (take n buf)
      | Some (Inl e) \<Rightarrow> Inl e
      | None \<Rightarrow> Inl (BufferTooSmall 0 padN))"

text \<open>\<open>r.msgs[:len(r.msgs)-n]\<close>.\<close>

definition drop_last :: "nat \<Rightarrow> 'a list \<Rightarrow> 'a list" where
  "drop_last n xs = take (length xs - n) xs"

text \<open>Filling \<open>r.tx\<close> and appending to \<open>r.msgs\<close>, packet by packet: the records appended
  and either the datagrams or the first encoding error.\<close>

fun fill_tx :: "encoder \<Rightarrow> (nat \<Rightarrow> nat) \<Rightarrow> gtime \<Rightarrow> u64 \<Rightarrow> u64 \<Rightarrow> nat list \<Rightarrow>
    msg_sent list \<times> (encode_error + u8 list list)" where
  "fill_tx enc draw tsSent payloadSize seq [] = ([], Inr [])"
| "fill_tx enc draw tsSent payloadSize seq (i # is) =
     (case enc (draw i) (seq + of_nat i) payloadSize of
        Inl e \<Rightarrow> ([], Inl e)
      | Inr p \<Rightarrow>
          (let (ms, r) = fill_tx enc draw tsSent payloadSize seq is in
           (\<lparr>s_Seq = seq + of_nat i, s_TsSent = tsSent, s_Len = 8 + payloadSize\<rparr> # ms,
            case r of Inl e \<Rightarrow> Inl e | Inr ps \<Rightarrow> Inr (p # ps))))"

function sendRound_loop :: "encoder \<Rightarrow> gtime option \<Rightarrow> u64 \<Rightarrow> (nat \<Rightarrow> batch_env) \<Rightarrow> nat \<Rightarrow>
    nat \<Rightarrow> nat \<Rightarrow> rate_sender \<Rightarrow> round_result \<times> rate_sender" where
  "sendRound_loop enc ddl payloadSize env k packetsLeft sent r =
     (if packetsLeft = 0 then (RoundOk sent, r)
      else if rateContextExpired ddl (be_err1 (env k)) (be_now1 (env k)) then (RoundOk sent, r)
      else
        let packetsRound = min packetsLeft 1024;
            (ms, tx) = fill_tx enc (be_draw (env k)) (be_ts (env k)) payloadSize (rs_seq r)
                         [0..<packetsRound];
            r1 = r\<lparr>rs_msgs := rs_msgs r @ ms\<rparr>;
            r_undo = r1\<lparr>rs_msgs := drop_last packetsRound (rs_msgs r1)\<rparr>
        in case tx of
          Inl e \<Rightarrow> (RoundErr (EncodeErr e) sent, r1)
        | Inr pkts \<Rightarrow>
            if rateContextExpired ddl (be_err2 (env k)) (be_now2 (env k))
            then (RoundOk sent, r_undo)
            else case be_send (env k) packetsRound of
              SendErr timeout \<Rightarrow>
                (if timeout then RoundOk sent else RoundErr SendMsgsErr sent, r_undo)
            | Sent n \<Rightarrow>
                if n < 0 then (RoundPanic, r1)
                else if int packetsRound < n then (RoundContract, r1)
                else
                  let r2 = r1\<lparr>rs_seq := rs_seq r1 + of_int n,
                              rs_wire := rs_wire r1 @ map (Pair (be_now2 (env k))) (take (nat n) pkts)\<rparr>
                  in if nat n \<noteq> packetsRound
                     then (RoundOk (sent + nat n),
                           r2\<lparr>rs_msgs := drop_last (packetsRound - nat n) (rs_msgs r2)\<rparr>)
                     else sendRound_loop enc ddl payloadSize env (Suc k)
                            (packetsLeft - nat n) (sent + nat n) r2)"
  by pat_completeness auto
termination
  by (relation "measure (\<lambda>(enc, ddl, p, env, k, left, sent, r). left)") auto

declare sendRound_loop.simps [simp del]

definition sendRound :: "encoder \<Rightarrow> gtime option \<Rightarrow> u64 \<Rightarrow> (nat \<Rightarrow> batch_env) \<Rightarrow> nat \<Rightarrow>
    rate_sender \<Rightarrow> round_result \<times> rate_sender" where
  "sendRound enc ddl payloadSize env packets r =
     sendRound_loop enc ddl payloadSize env 0 packets 0 r"

section \<open>One segment\<close>

text \<open>A wake-up of the \<open>select\<close> in \<open>runSegment\<close>: a tick (with the time and the state of the
  context read after it, and the round it may start) or the end of the segment's context.\<close>

datatype seg_event = Tick gtime bool "nat \<Rightarrow> batch_env" | CtxDone

datatype seg_result = SegReturned | SegErr send_error | SegDeadlineErr | SegPanic | SegContract
  | SegWaiting

fun seg_loop :: "encoder \<Rightarrow> rate_params \<Rightarrow> gtime \<Rightarrow> gtime \<Rightarrow> gtime option \<Rightarrow> u64 \<Rightarrow> nat \<Rightarrow>
    rate_sender \<Rightarrow> seg_event list \<Rightarrow> seg_result \<times> rate_sender" where
  "seg_loop enc params start stop ddl missed numPacketsSent r [] = (SegWaiting, r)"
| "seg_loop enc params start stop ddl missed numPacketsSent r (CtxDone # evs) = (SegReturned, r)"
| "seg_loop enc params start stop ddl missed numPacketsSent r (Tick now err env # evs) =
     (if rateContextExpired ddl err now then (SegReturned, r)
      else
        let goal = unat (rateSegmentGoal now start stop (Pps params) missed) in
        if goal \<le> numPacketsSent
        then seg_loop enc params start stop ddl missed numPacketsSent r evs
        else
          (case sendRound enc ddl (PayloadSize params) env (goal - numPacketsSent) r of
             (RoundOk n, r') \<Rightarrow>
               seg_loop enc params start stop ddl missed (numPacketsSent + n) r' evs
           | (RoundErr e n, r') \<Rightarrow> (SegErr e, r')
           | (RoundPanic, r') \<Rightarrow> (SegPanic, r')
           | (RoundContract, r') \<Rightarrow> (SegContract, r')))"

text \<open>The inputs of one segment: the entry time and context state, whether
  \<open>SetWriteDeadline\<close> fails, and the events.\<close>

record seg_env =
  sg_now :: gtime
  sg_err :: bool
  sg_deadline_fails :: bool
  sg_events :: "seg_event list"

definition runSegment :: "encoder \<Rightarrow> gtime option \<Rightarrow> rate_params \<Rightarrow> gtime \<Rightarrow> gtime \<Rightarrow> seg_env \<Rightarrow>
    rate_sender \<Rightarrow> seg_result \<times> rate_sender" where
  "runSegment enc outer params start stop env r =
     (if Duration params \<le> 0 \<or> \<not> sg_now env < stop \<or>
         rateContextExpired outer (sg_err env) (sg_now env)
      then (SegReturned, r)
      else
        let missed = numPacketsGoal (time_Sub (sg_now env) start) (Pps params);
            deadline = (case outer of None \<Rightarrow> stop | Some d \<Rightarrow> min d stop)
        in if sg_deadline_fails env then (SegDeadlineErr, r)
           else if Pps params = 0
           then (if CtxDone \<in> set (sg_events env) then SegReturned else SegWaiting, r)
           else seg_loop enc params start stop (Some deadline) missed 0 r (sg_events env))"

section \<open>All segments\<close>

record segs_env =
  ss_err :: bool
  ss_now :: gtime
  ss_now2 :: gtime
  ss_seg :: seg_env

fun runSegments_loop :: "encoder \<Rightarrow> gtime option \<Rightarrow> (nat \<Rightarrow> segs_env) \<Rightarrow> nat \<Rightarrow> gtime \<Rightarrow>
    rate_params list \<Rightarrow> rate_sender \<Rightarrow> seg_result \<times> rate_sender" where
  "runSegments_loop enc ctx env i boundary [] r = (SegReturned, r)"
| "runSegments_loop enc ctx env i boundary (params # rest) r =
     (if rateContextExpired ctx (ss_err (env i)) (ss_now (env i)) then (SegReturned, r)
      else if Duration params \<le> 0
      then runSegments_loop enc ctx env (Suc i) boundary rest r
      else
        let stop = boundary + Duration params in
        if \<not> ss_now2 (env i) < stop
        then runSegments_loop enc ctx env (Suc i) stop rest r
        else
          (case runSegment enc ctx params boundary stop (ss_seg (env i)) r of
             (SegReturned, r') \<Rightarrow> runSegments_loop enc ctx env (Suc i) stop rest r'
           | (res, r') \<Rightarrow> (res, r')))"

definition runSegments :: "encoder \<Rightarrow> gtime option \<Rightarrow> (nat \<Rightarrow> segs_env) \<Rightarrow> gtime \<Rightarrow>
    rate_params list \<Rightarrow> rate_sender \<Rightarrow> seg_result \<times> rate_sender" where
  "runSegments enc ctx env start params r = runSegments_loop enc ctx env 0 start params r"


section \<open>The encoder's interface\<close>

locale packet_encoder =
  fixes enc :: encoder and cap :: nat
  assumes enc_fits: "8 + unat p \<le> cap \<Longrightarrow> \<exists>bs. enc d s p = Inr bs"
    and enc_too_big: "cap < 8 + unat p \<Longrightarrow> \<exists>e. enc d s p = Inl e"
    and enc_seq: "enc d s p = Inr bs \<Longrightarrow> get_be 8 bs = Some s"
    and enc_length: "enc d s p = Inr bs \<Longrightarrow> length bs = 8 + unat p"

lemma encode_packet_total:
  assumes "pool \<noteq> []" and "8 + unat p \<le> 1500"
  shows "encode_packet pool d s p = Inr (put_be 8 s @
     map (\<lambda>i. pool ! ((d mod length pool + i) mod length pool)) [0..<unat p])"
proof -
  have "Encode pool (d mod length pool) \<lparr>m_Seq = s, m_PadN = p\<rparr> (replicate 1500 0) =
    Some (Inr (8 + unat p, put_be 8 s @
       map (\<lambda>i. pool ! ((d mod length pool + i) mod length pool)) [0..<unat p] @
       drop (8 + unat p) (replicate 1500 0)))"
    using Encode_fits [of "\<lparr>m_Seq = s, m_PadN = p\<rparr>" "replicate 1500 0" pool "d mod length pool"] assms
    by simp
  then show ?thesis
    by (simp add: encode_packet_def be64.length_enc)
qed

lemma encode_packet_too_big:
  assumes "pool \<noteq> []" and "1500 < 8 + unat p"
  shows "encode_packet pool d s p = Inl (BufferTooSmall 1500 p)"
  using assms by (simp add: encode_packet_def Encode_def)

lemma encode_packet_encoder:
  assumes "pool \<noteq> []"
  shows "packet_encoder (encode_packet pool) 1500"
proof
  fix d s p bs
  show "\<exists>bs. encode_packet pool d s p = Inr bs" if "8 + unat p \<le> 1500"
    using encode_packet_total [OF assms that] by blast
  show "\<exists>e. encode_packet pool d s p = Inl e" if "1500 < 8 + unat p"
    using encode_packet_too_big [OF assms that] by blast
  show "get_be 8 bs = Some s" if e: "encode_packet pool d s p = Inr bs"
    using e encode_packet_total [OF assms, of p d s] encode_packet_too_big [OF assms, of p d s]
    by (cases "8 + unat p \<le> 1500") (auto simp: be64.dec_enc_append)
  show "length bs = 8 + unat p" if e: "encode_packet pool d s p = Inr bs"
    using e encode_packet_total [OF assms, of p d s] encode_packet_too_big [OF assms, of p d s]
    by (cases "8 + unat p \<le> 1500") (auto simp: be64.length_enc)
qed

text \<open>What the sender's state promises: the records are numbered \<open>0, 1, 2, \<dots>\<close>, the next
  number is their count, and the datagrams accepted by the kernel carry exactly the recorded
  numbers and lengths.\<close>

definition sent_ok :: "rate_sender \<Rightarrow> bool" where
  "sent_ok r \<longleftrightarrow>
     map s_Seq (rs_msgs r) = map of_nat [0..<length (rs_msgs r)] \<and>
     rs_seq r = of_nat (length (rs_msgs r)) \<and>
     map (\<lambda>(t, bs). (get_be 8 bs, of_nat (length bs))) (rs_wire r) =
       map (\<lambda>m. (Some (s_Seq m), s_Len m)) (rs_msgs r)"

definition sends_before :: "gtime option \<Rightarrow> rate_sender \<Rightarrow> rate_sender \<Rightarrow> bool" where
  "sends_before ddl r r' \<longleftrightarrow>
     (\<exists>ws. rs_wire r' = rs_wire r @ ws \<and> (\<forall>d. ddl = Some d \<longrightarrow> list_all (\<lambda>w. fst w < d) ws))"

lemma sends_before_refl [intro, simp]: "rs_wire r' = rs_wire r \<Longrightarrow> sends_before ddl r r'"
  by (simp add: sends_before_def)

lemma sends_before_trans: "sends_before ddl r r' \<Longrightarrow> sends_before ddl r' r'' \<Longrightarrow> sends_before ddl r r''"
  by (auto simp: sends_before_def)

lemma sent_ok_new [simp]: "sent_ok new_rate_sender"
  by (simp add: sent_ok_def new_rate_sender_def)

lemma sent_ok_length: "sent_ok r \<Longrightarrow> length (rs_wire r) = length (rs_msgs r)"
  by (auto simp: sent_ok_def dest: map_eq_imp_length_eq)

definition round_ok :: "gtime option \<Rightarrow> nat \<Rightarrow> nat \<Rightarrow> rate_sender \<Rightarrow> round_result \<times> rate_sender \<Rightarrow> bool"
where
  "round_ok ddl packets sent r res \<longleftrightarrow>
     (case res of
        (RoundOk n, r') \<Rightarrow> sent_ok r' \<and> sends_before ddl r r' \<and> sent \<le> n \<and> n \<le> sent + packets \<and>
          length (rs_msgs r') = length (rs_msgs r) + (n - sent)
      | (RoundErr e n, r') \<Rightarrow> sent_ok r' \<and> sends_before ddl r r' \<and> sent \<le> n \<and> n \<le> sent + packets \<and>
          length (rs_msgs r') = length (rs_msgs r) + (n - sent)
      | _ \<Rightarrow> False)"

lemma sent_ok_extend:
  assumes ok: "sent_ok r" and ps: "list_all2 (\<lambda>i p. get_be 8 p = Some (rs_seq r + of_nat i) \<and>
      of_nat (length p) = len) [0..<n] ps" and ms: "map s_Seq ms = map (\<lambda>i. rs_seq r + of_nat i) [0..<n]"
      "\<forall>m \<in> set ms. s_Len m = len"
  shows "sent_ok (r\<lparr>rs_msgs := rs_msgs r @ ms, rs_seq := rs_seq r + of_nat n,
     rs_wire := rs_wire r @ map (Pair t) ps\<rparr>)"
proof -
  let ?L = "length (rs_msgs r)"
  have "length (map s_Seq ms) = n" unfolding ms(1) by simp
  moreover have "length [0..<n] = length ps" using ps by (rule list_all2_lengthD)
  ultimately have lens: "length ms = n" "length ps = n" by simp_all
  have seq: "rs_seq r = of_nat ?L" using ok by (simp add: sent_ok_def)
  have "map (\<lambda>i. rs_seq r + of_nat i) [0..<n] = map of_nat [?L..<?L + n]"
    by (simp add: map_upt_shift [of of_nat ?L n] seq)
  moreover have "[0..<?L + n] = [0..<?L] @ [?L..<?L + n]" by (rule upt_add_eq_append) simp
  moreover have "map (\<lambda>p. (get_be 8 p, of_nat (length p))) ps =
      map (\<lambda>m. (Some (s_Seq m), s_Len m)) ms"
  proof (rule nth_equalityI)
    fix i assume "i < length (map (\<lambda>p. (get_be 8 p :: u64 option, of_nat (length p) :: u64)) ps)"
    then have i: "i < n" by (simp add: lens)
    with ps have "get_be 8 (ps ! i) = Some (rs_seq r + of_nat i) \<and> of_nat (length (ps ! i)) = len"
      by (auto simp: list_all2_conv_all_nth)
    moreover have "s_Seq (ms ! i) = rs_seq r + of_nat i"
      using arg_cong [OF ms(1), of "\<lambda>xs. xs ! i"] i lens by simp
    moreover have "s_Len (ms ! i) = len" using ms(2) i lens by simp
    ultimately show "map (\<lambda>p. (get_be 8 p :: u64 option, of_nat (length p) :: u64)) ps ! i =
        map (\<lambda>m. (Some (s_Seq m), s_Len m)) ms ! i" using i lens by simp
  qed (simp add: lens)
  ultimately show ?thesis using ok lens ms(1)
    by (simp add: sent_ok_def comp_def)
qed


lemma drop_last_append: "length ys = n \<Longrightarrow> drop_last n (xs @ ys) = xs"
  by (simp add: drop_last_def)

lemma drop_last_part:
  "length ys = n \<Longrightarrow> k \<le> n \<Longrightarrow> drop_last (n - k) (xs @ ys) = xs @ take k ys"
  by (simp add: drop_last_def)

lemma list_all2_take_upt:
  assumes "list_all2 P [0..<n] ps" and "k \<le> n"
  shows "list_all2 P [0..<k] (take k ps)"
  using list_all2_takeI [OF assms(1), of k] assms(2) by simp

lemma sends_before_live:
  assumes "\<not> rateContextExpired ddl err t"
  shows "sends_before ddl r (r\<lparr>rs_msgs := ms, rs_seq := q, rs_wire := rs_wire r @ map (Pair t) ps\<rparr>)"
  using assms
  by (auto simp: sends_before_def rateContextExpired_def list_all_iff split: if_splits option.splits)

lemma round_ok_step:
  assumes "round_ok ddl (left - j) (sent + j) r' res" and "sends_before ddl r r'"
    and "length (rs_msgs r') = length (rs_msgs r) + j" and "j \<le> left"
  shows "round_ok ddl left sent r res"
  using assms
  by (auto simp: round_ok_def split: prod.splits round_result.splits intro: sends_before_trans)

context packet_encoder
begin

lemma fill_tx_fits:
  assumes "8 + unat p \<le> cap"
  shows "\<exists>ps. fill_tx enc draw ts p seq is =
      (map (\<lambda>i. \<lparr>s_Seq = seq + of_nat i, s_TsSent = ts, s_Len = 8 + p\<rparr>) is, Inr ps) \<and>
    list_all2 (\<lambda>i b. get_be 8 b = Some (seq + of_nat i) \<and> of_nat (length b) = 8 + p) is ps"
proof (induction "is")
  case (Cons i "is")
  then obtain ps where ps: "fill_tx enc draw ts p seq is =
      (map (\<lambda>i. \<lparr>s_Seq = seq + of_nat i, s_TsSent = ts, s_Len = 8 + p\<rparr>) is, Inr ps)"
    "list_all2 (\<lambda>i b. get_be 8 b = Some (seq + of_nat i) \<and> of_nat (length b) = 8 + p) is ps"
    by blast
  obtain b where b: "enc (draw i) (seq + of_nat i) p = Inr b" using enc_fits [OF assms] by blast
  have "get_be 8 b = Some (seq + of_nat i)" "of_nat (length b) = 8 + p"
    using enc_seq [OF b] enc_length [OF b] by simp_all
  with ps b show ?case by simp
qed simp

lemma fill_tx_too_big:
  assumes "cap < 8 + unat p"
  shows "\<exists>e. fill_tx enc draw ts p seq (i # is) = ([], Inl e)"
  using enc_too_big [OF assms, of "draw i" "seq + of_nat i"] by auto

lemma batch_ok:
  assumes "sent_ok r" and "8 + unat p \<le> cap"
    and f: "fill_tx enc draw ts p (rs_seq r) [0..<n] = (ms, Inr ps)" and "k \<le> n"
  shows "length ms = n"
    and "sent_ok (r\<lparr>rs_msgs := rs_msgs r @ take k ms, rs_seq := rs_seq r + of_nat k,
       rs_wire := rs_wire r @ map (Pair t) (take k ps)\<rparr>)"
proof -
  from fill_tx_fits [OF assms(2), of draw ts "rs_seq r" "[0..<n]"] f
  have ms: "ms = map (\<lambda>i. \<lparr>s_Seq = rs_seq r + of_nat i, s_TsSent = ts, s_Len = 8 + p\<rparr>) [0..<n]"
    and ps: "list_all2 (\<lambda>i b. get_be 8 b = Some (rs_seq r + of_nat i) \<and>
      of_nat (length b) = 8 + p) [0..<n] ps" by auto
  from ms show "length ms = n" by simp
  have "map s_Seq (take k ms) = map (\<lambda>i. rs_seq r + of_nat i) [0..<k]"
    using assms(4) by (simp add: ms take_map)
  moreover have "\<forall>m \<in> set (take k ms). s_Len m = 8 + p"
    by (auto simp: ms take_map)
  ultimately show "sent_ok (r\<lparr>rs_msgs := rs_msgs r @ take k ms, rs_seq := rs_seq r + of_nat k,
       rs_wire := rs_wire r @ map (Pair t) (take k ps)\<rparr>)"
    using assms(1) list_all2_take_upt [OF ps assms(4)] by (intro sent_ok_extend)
qed

end

text \<open>The state after \<open>j\<close> packets of a filled batch went out.\<close>

abbreviation after_send :: "rate_sender \<Rightarrow> gtime \<Rightarrow> msg_sent list \<Rightarrow> u8 list list \<Rightarrow> nat \<Rightarrow> rate_sender"
where
  "after_send r t ms ps j \<equiv> r\<lparr>rs_msgs := rs_msgs r @ take j ms, rs_seq := rs_seq r + of_nat j,
     rs_wire := rs_wire r @ map (Pair t) (take j ps)\<rparr>"

lemma sendRound_loop_filled:
  assumes go: "left \<noteq> 0" "\<not> rateContextExpired ddl (be_err1 (env k)) (be_now1 (env k))"
    and f: "fill_tx enc (be_draw (env k)) (be_ts (env k)) p (rs_seq r) [0..<min left 1024] = (ms, Inr ps)"
    and len: "length ms = min left 1024" and c: "SendMsgs_contract env"
  obtains (stopped) e where
      "sendRound_loop enc ddl p env k left sent r \<in> {(RoundOk sent, r), (RoundErr e sent, r)}"
    | (partly) j where "j < min left 1024"
      "\<not> rateContextExpired ddl (be_err2 (env k)) (be_now2 (env k))"
      "sendRound_loop enc ddl p env k left sent r =
       (RoundOk (sent + j), after_send r (be_now2 (env k)) ms ps j)"
    | (fully) j where "j = min left 1024"
      "\<not> rateContextExpired ddl (be_err2 (env k)) (be_now2 (env k))"
      "sendRound_loop enc ddl p env k left sent r =
       sendRound_loop enc ddl p env (Suc k) (left - j) (sent + j)
         (after_send r (be_now2 (env k)) ms ps j)"
proof -
  let ?n = "min left 1024"
  note unfold = sendRound_loop.simps [of enc ddl p env k left sent r]
  consider "rateContextExpired ddl (be_err2 (env k)) (be_now2 (env k))"
    | timeout where "be_send (env k) ?n = SendErr timeout"
      "\<not> rateContextExpired ddl (be_err2 (env k)) (be_now2 (env k))"
    | n where "be_send (env k) ?n = Sent n"
      "\<not> rateContextExpired ddl (be_err2 (env k)) (be_now2 (env k))"
    by (cases "be_send (env k) ?n") auto
  then show thesis
  proof cases
    case 1
    with go f len have "sendRound_loop enc ddl p env k left sent r = (RoundOk sent, r)"
      by (simp add: unfold drop_last_append)
    then show thesis by (intro stopped) simp
  next
    case 2
    with go f len show thesis by (intro stopped [of SendMsgsErr]) (simp add: unfold drop_last_append)
  next
    case (3 n)
    with c have "0 \<le> n \<and> n \<le> int ?n" unfolding SendMsgs_contract_def by blast
    then obtain j where j: "n = int j" "j \<le> ?n" by (metis of_nat_le_iff zero_le_imp_eq_int)
    show thesis
    proof (cases "j = ?n")
      case True
      then have "take j ms = ms" using len by simp
      with True 3 go f len j show thesis by (intro fully [of j]) (simp_all add: unfold Let_def)
    next
      case False
      then have "j < ?n" using j by linarith
      moreover have "sendRound_loop enc ddl p env k left sent r =
          (RoundOk (sent + j), after_send r (be_now2 (env k)) ms ps j)"
        using False 3 go f len j
        by (simp add: unfold drop_last_part Let_def min_less_iff_disj)
      ultimately show thesis using 3 by (intro partly)
    qed
  qed
qed

context packet_encoder
begin

lemma sendRound_loop_ok:
  assumes "sent_ok r" and "SendMsgs_contract env"
  shows "round_ok ddl left sent r (sendRound_loop enc ddl p env k left sent r)"
  using assms(1)
proof (induction left arbitrary: k sent r rule: less_induct)
  case (less left)
  let ?n = "min left 1024" and ?E = "env k"
  note unfold = sendRound_loop.simps [of enc ddl p env k left sent r]
  have stop: "round_ok ddl left sent r (RoundOk sent, r)" "round_ok ddl left sent r (RoundErr e sent, r)"
    for e using less.prems by (simp_all add: round_ok_def)
  consider "left = 0 \<or> rateContextExpired ddl (be_err1 ?E) (be_now1 ?E)"
    | (big) "left \<noteq> 0" "\<not> rateContextExpired ddl (be_err1 ?E) (be_now1 ?E)" "cap < 8 + unat p"
    | (go) "left \<noteq> 0" "\<not> rateContextExpired ddl (be_err1 ?E) (be_now1 ?E)" "8 + unat p \<le> cap"
    by fastforce
  then show ?case
  proof cases
    case 1
    then show ?thesis using stop by (auto simp: unfold)
  next
    case big
    then have "[0..<?n] = 0 # [1..<?n]" by (simp add: upt_conv_Cons)
    then obtain e where "fill_tx enc (be_draw ?E) (be_ts ?E) p (rs_seq r) [0..<?n] = ([], Inl e)"
      using fill_tx_too_big [OF big(3)] by metis
    then show ?thesis using big stop by (simp add: unfold)
  next
    case go
    obtain ms ps where f: "fill_tx enc (be_draw ?E) (be_ts ?E) p (rs_seq r) [0..<?n] = (ms, Inr ps)"
      using fill_tx_fits [OF go(3)] by blast
    note batch = batch_ok [OF less.prems go(3) f]
    have len: "length ms = ?n" by (rule batch(1) [OF order_refl])
    from go(1,2) f len assms(2) show ?thesis
    proof (cases rule: sendRound_loop_filled [where sent = sent])
      case (stopped e)
      then show ?thesis using stop by auto
    next
      case (partly j)
      with batch(2) [of j] len show ?thesis
        by (simp add: round_ok_def sends_before_live [OF partly(2)])
    next
      case (fully j)
      have "round_ok ddl (left - j) (sent + j) (after_send r (be_now2 ?E) ms ps j)
          (sendRound_loop enc ddl p env k left sent r)"
        unfolding fully(3) using go fully(1) batch(2) by (intro less.IH) auto
      then show ?thesis
        by (rule round_ok_step) (use fully len in \<open>auto intro: sends_before_live\<close>)
    qed
  qed
qed

lemma sendRound_ok:
  "sent_ok r \<Longrightarrow> SendMsgs_contract env \<Longrightarrow> round_ok ddl packets 0 r (sendRound enc ddl p env packets r)"
  by (simp add: sendRound_def sendRound_loop_ok)

end

section \<open>Segments\<close>

definition event_ok :: "seg_event \<Rightarrow> bool" where
  "event_ok ev \<longleftrightarrow> (case ev of Tick now err env \<Rightarrow> SendMsgs_contract env | CtxDone \<Rightarrow> True)"

text \<open>The packets a segment may send at most: \<open>\<lfloor>Duration \<cdot> Pps\<rfloor>\<close>, exactly.\<close>

definition segment_budget :: "rate_params \<Rightarrow> nat" where
  "segment_budget params = nat (max 0 (Duration params) * uint (Pps params) div 10 ^ 9)"

primrec total_budget :: "rate_params list \<Rightarrow> nat" where
  "total_budget [] = 0"
| "total_budget (p # ps) = segment_budget p + total_budget ps"

primrec total_duration :: "rate_params list \<Rightarrow> gduration" where
  "total_duration [] = 0"
| "total_duration (p # ps) = max 0 (Duration p) + total_duration ps"

lemma total_duration_nonneg [simp]: "0 \<le> total_duration ps"
  by (induction ps) auto

definition segment_fits :: "rate_params \<Rightarrow> bool" where
  "segment_fits params \<longleftrightarrow>
     Duration params < 2 ^ 63 \<and> Duration params * uint (Pps params) < 2 ^ 64"

definition seg_post :: "gtime option \<Rightarrow> nat \<Rightarrow> rate_sender \<Rightarrow> seg_result \<times> rate_sender \<Rightarrow> bool" where
  "seg_post ddl budget r out \<longleftrightarrow>
     (case out of (res, r') \<Rightarrow>
        res \<noteq> SegPanic \<and> res \<noteq> SegContract \<and> sent_ok r' \<and> sends_before ddl r r' \<and>
        length (rs_msgs r) \<le> length (rs_msgs r') \<and>
        length (rs_msgs r') \<le> length (rs_msgs r) + budget)"

lemma seg_post_stay: "sent_ok r \<Longrightarrow> res \<noteq> SegPanic \<Longrightarrow> res \<noteq> SegContract \<Longrightarrow> seg_post ddl budget r (res, r)"
  by (simp add: seg_post_def)

lemma seg_post_trans:
  assumes "seg_post ddl b1 r (res1, r1)" and "seg_post ddl b2 r1 out" and "b1 + b2 \<le> b"
  shows "seg_post ddl b r out"
  using assms by (auto simp: seg_post_def split: prod.splits intro: sends_before_trans)

lemma segment_goal_bound:
  assumes "segment_fits params" and "0 \<le> Duration params"
  shows "unat (rateSegmentGoal now start (start + Duration params) (Pps params) missed) \<le>
     segment_budget params - unat missed"
proof -
  let ?g = "rateSegmentGoal now start (start + Duration params) (Pps params) missed"
  let ?b = "Duration params * uint (Pps params) div 10 ^ 9"
  have "uint ?g \<le> max 0 (?b - uint missed)"
    using assms rateSegmentGoal_bound [of "start + Duration params" start "Pps params" now missed]
    by (simp add: segment_fits_def)
  moreover have "int (segment_budget params) = ?b"
    using assms(2) by (simp add: segment_budget_def pos_imp_zdiv_nonneg_iff)
  ultimately have "int (unat ?g) \<le> max 0 (int (segment_budget params) - int (unat missed))" by simp
  then show ?thesis by linarith
qed

lemma sends_before_weaken:
  "sends_before (Some d) r r' \<Longrightarrow> (\<forall>d'. ddl = Some d' \<longrightarrow> d \<le> d') \<Longrightarrow> sends_before ddl r r'"
  by (fastforce simp: sends_before_def list_all_iff)

text \<open>The deadline of a context derived from \<open>outer\<close> with the deadline \<open>t\<close>.\<close>

definition earlier :: "gtime option \<Rightarrow> gtime \<Rightarrow> gtime" where
  "earlier outer t = (case outer of None \<Rightarrow> t | Some d \<Rightarrow> min d t)"

lemma earlier_mono: "t \<le> u \<Longrightarrow> earlier outer t \<le> earlier outer u"
  by (auto simp: earlier_def split: option.splits)

lemma seg_post_budget: "seg_post ddl b r out \<Longrightarrow> b \<le> b' \<Longrightarrow> seg_post ddl b' r out"
  by (auto simp: seg_post_def split: prod.splits)

lemma seg_post_later: "seg_post (Some d) b r out \<Longrightarrow> d \<le> d' \<Longrightarrow> seg_post (Some d') b r out"
  by (auto simp: seg_post_def split: prod.splits intro: sends_before_weaken)

lemma seg_post_weaken:
  assumes "seg_post (Some (earlier ctx t)) b r out" and "t \<le> u" and "b \<le> c"
  shows "seg_post (Some (earlier ctx u)) c r out"
  using seg_post_budget [OF seg_post_later [OF assms(1) earlier_mono [OF assms(2)]] assms(3)] .

context packet_encoder
begin

lemma seg_loop_post:
  assumes "sent_ok r" and "list_all event_ok evs" and "n \<le> budget"
    and goal: "\<And>now. unat (rateSegmentGoal now start stop (Pps params) missed) \<le> budget"
  shows "seg_post ddl (budget - n) r (seg_loop enc params start stop ddl missed n r evs)"
  using assms(1-3)
proof (induction evs arbitrary: n r)
  case (Cons ev evs)
  show ?case
  proof (cases ev)
    case CtxDone
    then show ?thesis using Cons.prems by (simp add: seg_post_stay)
  next
    case (Tick now err env)
    let ?goal = "unat (rateSegmentGoal now start stop (Pps params) missed)"
    show ?thesis
    proof (cases "rateContextExpired ddl err now \<or> ?goal \<le> n")
      case True
      then show ?thesis using Cons Tick by (auto simp: seg_post_stay)
    next
      case False
      have env: "SendMsgs_contract env" using Cons.prems Tick by (simp add: event_ok_def)
      obtain res r' where round: "sendRound enc ddl (PayloadSize params) env (?goal - n) r = (res, r')"
        by fastforce
      have ok: "round_ok ddl (?goal - n) 0 r (res, r')"
        using sendRound_ok [OF Cons.prems(1) env] round by metis
      show ?thesis
      proof (cases res)
        case (RoundOk k)
        with ok have r': "sent_ok r'" "k \<le> ?goal - n" "seg_post ddl k r (SegWaiting, r')"
          by (simp_all add: round_ok_def seg_post_def)
        have "n + k \<le> budget" using r'(2) goal [of now] False by linarith
        then have "seg_post ddl (budget - (n + k)) r'
            (seg_loop enc params start stop ddl missed (n + k) r' evs)"
          using Cons.IH r' Cons.prems by simp
        then have "seg_post ddl (budget - n) r (seg_loop enc params start stop ddl missed (n + k) r' evs)"
          by (rule seg_post_trans [OF r'(3)]) (use \<open>n + k \<le> budget\<close> in simp)
        then show ?thesis using Tick False round RoundOk by simp
      next
        case (RoundErr e k)
        with ok goal [of now] have "seg_post ddl (budget - n) r (SegErr e, r')"
          by (auto simp: round_ok_def seg_post_def)
        then show ?thesis using Tick False round RoundErr by simp
      qed (use ok in \<open>simp_all add: round_ok_def\<close>)
    qed
  qed
qed (simp add: seg_post_stay)

lemma runSegment_post:
  assumes "sent_ok r" and "list_all event_ok (sg_events env)" and "segment_fits params"
    and "stop = start + Duration params"
  shows "seg_post (Some (earlier outer stop)) (segment_budget params) r
     (runSegment enc outer params start stop env r)"
proof (cases "Duration params \<le> 0 \<or> \<not> sg_now env < stop \<or>
    rateContextExpired outer (sg_err env) (sg_now env) \<or> sg_deadline_fails env \<or> Pps params = 0")
  case True
  then show ?thesis
    using assms(1) by (auto simp: runSegment_def Let_def seg_post_stay)
next
  case False
  let ?missed = "numPacketsGoal (time_Sub (sg_now env) start) (Pps params)"
  have "seg_post (Some (earlier outer stop)) (segment_budget params - unat ?missed - 0) r
      (seg_loop enc params start stop (Some (earlier outer stop)) ?missed 0 r (sg_events env))"
    using assms False segment_goal_bound by (intro seg_loop_post) auto
  then show ?thesis
    using False assms
    by (auto simp: runSegment_def Let_def earlier_def intro: seg_post_budget)
qed

lemma runSegments_loop_post:
  assumes "sent_ok r" and "list_all segment_fits params"
    and "\<And>i. list_all event_ok (sg_events (ss_seg (env i)))"
  shows "seg_post (Some (earlier ctx (boundary + total_duration params)))
     (total_budget params) r (runSegments_loop enc ctx env i boundary params r)"
  using assms(1,2)
proof (induction params arbitrary: i boundary r)
  case (Cons seg rest)
  let ?stop = "boundary + Duration seg" and ?durs = "total_duration rest"
  have pos: "0 \<le> ?durs" by simp
  have IH: "seg_post (Some (earlier ctx (boundary' + ?durs))) (total_budget rest) r'
      (runSegments_loop enc ctx env (Suc i) boundary' rest r')" if "sent_ok r'" for r' boundary'
    using Cons.IH [OF that] Cons.prems by simp
  have skip: "seg_post (Some (earlier ctx (boundary + total_duration (seg # rest))))
      (total_budget (seg # rest)) r' out"
    if "seg_post (Some (earlier ctx t)) b r' out" "t \<le> boundary + max 0 (Duration seg) + ?durs"
      "b \<le> total_budget (seg # rest)" for t b r' out
    using that(1) by (rule seg_post_weaken) (use that in simp_all)
  show ?case
  proof (cases "rateContextExpired ctx (ss_err (env i)) (ss_now (env i))")
    case True
    then show ?thesis using Cons.prems by (simp add: seg_post_stay)
  next
    case live: False
    show ?thesis
    proof (cases "Duration seg \<le> 0 \<or> \<not> ss_now2 (env i) < ?stop")
      case True
      define t where "t = (if Duration seg \<le> 0 then boundary else ?stop)"
      have "runSegments_loop enc ctx env i boundary (seg # rest) r =
          runSegments_loop enc ctx env (Suc i) t rest r"
        using True live by (auto simp: Let_def t_def)
      then show ?thesis using skip [OF IH [OF Cons.prems(1)], of t] by (simp add: t_def)
    next
      case False
      obtain res r' where run: "runSegment enc ctx seg boundary ?stop (ss_seg (env i)) r = (res, r')"
        by fastforce
      then have first: "seg_post (Some (earlier ctx ?stop)) (segment_budget seg) r (res, r')"
        using runSegment_post [OF Cons.prems(1) assms(3) [of i], of seg ?stop boundary ctx]
          Cons.prems(2) by simp
      show ?thesis
      proof (cases "res = SegReturned")
        case True
        have "sent_ok r'" using first by (simp add: seg_post_def)
        then have "seg_post (Some (earlier ctx (?stop + ?durs))) (total_budget (seg # rest))
            r (runSegments_loop enc ctx env (Suc i) ?stop rest r')"
          using first pos by (intro seg_post_trans [OF seg_post_later IH]) (auto intro: earlier_mono)
        then show ?thesis using live False run True by (simp add: add.assoc)
      next
        case err: False
        then have "runSegments_loop enc ctx env i boundary (seg # rest) r = (res, r')"
          using live False run by (cases res) simp_all
        moreover have "?stop \<le> boundary + max 0 (Duration seg) + ?durs" using pos by linarith
        ultimately show ?thesis using skip [OF first] by (simp del: runSegments_loop.simps)
      qed
    qed
  qed
qed (simp add: seg_post_stay)

end

interpretation pooled: packet_encoder "encode_packet (paddingPool draws)" 1500 for draws
  by (rule encode_packet_encoder) (metis length_paddingPool list.size(3) zero_neq_numeral)

section \<open>Properties\<close>

text \<open>One catch-up round of the paced sender, whatever the clock, the context and the kernel
  do within the contract of \<open>SendMsgs\<close>: it does not panic, it reports at most the packets asked
  for, it appends exactly one record per packet it reports, records and datagrams stay in
  one-to-one correspondence with consecutive sequence numbers (also after a partial send, a
  send error or an encoding error), and every datagram passed a context check before the
  context's deadline.\<close>

theorem sendRound_correct:
  assumes "sent_ok r" and "SendMsgs_contract env"
  shows "case sendRound (encode_packet (paddingPool draws)) ddl payloadSize env packets r of
     (RoundOk n, r') \<Rightarrow> n \<le> packets \<and> length (rs_msgs r') = length (rs_msgs r) + n \<and>
        sent_ok r' \<and> sends_before ddl r r'
   | (RoundErr e n, r') \<Rightarrow> n \<le> packets \<and> length (rs_msgs r') = length (rs_msgs r) + n \<and>
        sent_ok r' \<and> sends_before ddl r r'
   | _ \<Rightarrow> False"
  using pooled.sendRound_ok [OF assms, of ddl packets draws payloadSize]
  by (auto simp: round_ok_def split: prod.splits round_result.splits)

definition steady_env :: "nat \<Rightarrow> batch_env" where
  "steady_env k = \<lparr>be_err1 = False, be_now1 = 5, be_ts = 6, be_draw = \<lambda>i. 7 * i, be_err2 = False,
     be_now2 = 8, be_send = \<lambda>m. Sent (int (min m 3))\<rparr>"

lemma steady_contract: "SendMsgs_contract steady_env"
  by (simp add: SendMsgs_contract_def steady_env_def)

theorem sendRound_correct_witness:
  "SendMsgs_contract steady_env \<and>
   (case sendRound (encode_packet (paddingPool (\<lambda>k. of_nat k))) (Some 100) 4 steady_env 5 new_rate_sender of
     (RoundOk n, r') \<Rightarrow> n \<le> 5 \<and> length (rs_msgs r') = length (rs_msgs new_rate_sender) + n \<and>
        sent_ok r' \<and> sends_before (Some 100) new_rate_sender r'
   | (RoundErr e n, r') \<Rightarrow> n \<le> 5 \<and> length (rs_msgs r') = length (rs_msgs new_rate_sender) + n \<and>
        sent_ok r' \<and> sends_before (Some 100) new_rate_sender r'
   | _ \<Rightarrow> False)"
  by (rule conjI [OF steady_contract sendRound_correct [OF sent_ok_new steady_contract]])

text \<open>C5. A whole paced transmission over several segments: from a fresh sender, whatever ticks,
  stalls, cancellations and partial sends occur, the sender does not panic, never sends more than
  the sum of the segments' exact budgets \<open>\<lfloor>Duration \<cdot> Pps\<rfloor>\<close>, numbers its records
  consecutively from 0 with one datagram on the wire for each, and every datagram passed a check
  before both the context's deadline and the end of the last segment.\<close>

theorem runSegments_correct:
  assumes "list_all segment_fits params"
    and "\<forall>i. list_all event_ok (sg_events (ss_seg (env i)))"
  shows "case runSegments (encode_packet (paddingPool draws)) ctx env start params new_rate_sender of
     (res, r') \<Rightarrow> res \<noteq> SegPanic \<and> res \<noteq> SegContract \<and>
       map s_Seq (rs_msgs r') = map of_nat [0..<length (rs_msgs r')] \<and>
       map (\<lambda>(t, bs). (get_be 8 bs, of_nat (length bs))) (rs_wire r') =
         map (\<lambda>m. (Some (s_Seq m), s_Len m)) (rs_msgs r') \<and>
       length (rs_wire r') \<le> total_budget params \<and>
       list_all (\<lambda>w. fst w < earlier ctx (start + total_duration params)) (rs_wire r')"
proof -
  obtain res r' where run: "runSegments_loop (encode_packet (paddingPool draws)) ctx env 0 start params
      new_rate_sender = (res, r')" by fastforce
  have post: "seg_post (Some (earlier ctx (start + total_duration params))) (total_budget params)
      new_rate_sender (res, r')"
    unfolding run [symmetric] using assms by (intro pooled.runSegments_loop_post) simp_all
  then have ok: "sent_ok r'" by (simp add: seg_post_def)
  with post sent_ok_length [OF ok] show ?thesis
    unfolding runSegments_def run sent_ok_def
    by (auto simp: seg_post_def sends_before_def new_rate_sender_def)
qed

definition two_segments :: "rate_params list" where
  "two_segments = [\<lparr>Pps = 2000, Interval = 0, Duration = 3 * millisecond, PayloadSize = 2\<rparr>,
     \<lparr>Pps = 1000, Interval = 0, Duration = 5 * millisecond, PayloadSize = 0\<rparr>]"

definition steady_segs :: "nat \<Rightarrow> segs_env" where
  "steady_segs i = \<lparr>ss_err = False, ss_now = 1, ss_now2 = 2, ss_seg = \<lparr>sg_now = 3, sg_err = False,
     sg_deadline_fails = False,
     sg_events = [Tick (1 * millisecond) False steady_env, Tick (4 * millisecond) False steady_env,
       CtxDone]\<rparr>\<rparr>"

theorem runSegments_correct_witness:
  "list_all segment_fits two_segments \<and>
   (\<forall>i. list_all event_ok (sg_events (ss_seg (steady_segs i)))) \<and>
   (case runSegments (encode_packet (paddingPool (\<lambda>k. of_nat k))) None steady_segs 0 two_segments
       new_rate_sender of
     (res, r') \<Rightarrow> res \<noteq> SegPanic \<and> res \<noteq> SegContract \<and>
       map s_Seq (rs_msgs r') = map of_nat [0..<length (rs_msgs r')] \<and>
       map (\<lambda>(t, bs). (get_be 8 bs, of_nat (length bs))) (rs_wire r') =
         map (\<lambda>m. (Some (s_Seq m), s_Len m)) (rs_msgs r') \<and>
       length (rs_wire r') \<le> total_budget two_segments \<and>
       list_all (\<lambda>w. fst w < earlier None (0 + total_duration two_segments)) (rs_wire r'))"
proof -
  have fits: "list_all segment_fits two_segments"
    by (simp add: two_segments_def segment_fits_def)
  have evs: "\<forall>i. list_all event_ok (sg_events (ss_seg (steady_segs i)))"
    by (simp add: steady_segs_def event_ok_def steady_contract)
  show ?thesis
    by (intro conjI fits evs runSegments_correct [OF fits evs])
qed

end
