(* ===== verification/Param_Map.thy ===== *)
theory Param_Map
  imports Net_Modes
begin

text \<open>
  Procedure parameters: the command line parser \<open>parseParams\<close> (\<open>cmd/scalpel-exp/param_map.go\<close>)
  and the accessors of \<open>ParamMap\<close> (\<open>cmd/scalpel-exp/experiment/param_map.go\<close>). A value of Go's
  type \<open>any\<close> is a tagged union of the dynamic types the accessors tell apart;
  \<open>POther\<close> stands for every other dynamic type.
\<close>

section \<open>Values and maps\<close>

datatype pvalue =
    PUint u64 | PString string | PUints "u64 list" | PStrings "string list"
  | PTCPCCA tcpcca | PTCPCCAs "tcpcca list" | PNil | POther

type_synonym param_map = "string \<rightharpoonup> pvalue"

datatype param_error =
    NotPresent string
  | WrongType string
  | BadDirection parse_error
  | BadUint string string
  | BadTCPCCA string string

section \<open>Accessors\<close>

definition pm_Direction :: "param_map \<Rightarrow> param_error + direction" where
  "pm_Direction p =
     (case p ''direction'' of
        None \<Rightarrow> Inl (NotPresent ''direction'')
      | Some (PString s) \<Rightarrow> (case ParseDirection s of Inl e \<Rightarrow> Inl (BadDirection e) | Inr d \<Rightarrow> Inr d)
      | Some _ \<Rightarrow> Inl (WrongType ''direction''))"

definition pm_String :: "param_map \<Rightarrow> string \<Rightarrow> param_error + string" where
  "pm_String p key =
     (case p key of
        None \<Rightarrow> Inl (NotPresent key)
      | Some (PString s) \<Rightarrow> Inr s
      | Some _ \<Rightarrow> Inl (WrongType key))"

definition pm_Strings :: "param_map \<Rightarrow> string \<Rightarrow> param_error + string list" where
  "pm_Strings p key =
     (case p key of
        None \<Rightarrow> Inl (NotPresent key)
      | Some (PStrings v) \<Rightarrow> Inr v
      | Some (PString v) \<Rightarrow> Inr [v]
      | Some _ \<Rightarrow> Inl (WrongType key))"

text \<open>\<open>strconv.ParseUint(s, 10, 32)\<close> with the accessor's error.\<close>

definition parse_uint_elem :: "string \<Rightarrow> string \<Rightarrow> param_error + u64" where
  "parse_uint_elem key s =
     (case ParseUint32 s of None \<Rightarrow> Inl (BadUint key s) | Some n \<Rightarrow> Inr (of_nat n))"

definition pm_Uints :: "param_map \<Rightarrow> string \<Rightarrow> param_error + u64 list" where
  "pm_Uints p key =
     (case p key of
        Some (PUints l) \<Rightarrow> Inr l
      | _ \<Rightarrow> (case pm_Strings p key of
               Inl e \<Rightarrow> Inl e
             | Inr ss \<Rightarrow> sum_mapM (parse_uint_elem key) ss))"

definition pm_UintsOr :: "param_map \<Rightarrow> string \<Rightarrow> u64 list \<Rightarrow> param_error + u64 list" where
  "pm_UintsOr p key d = (if p key = None then Inr d else pm_Uints p key)"

definition pm_Uint :: "param_map \<Rightarrow> string \<Rightarrow> param_error + u64" where
  "pm_Uint p key =
     (case p key of
        None \<Rightarrow> Inl (NotPresent key)
      | Some (PUint v) \<Rightarrow> Inr v
      | Some (PString s) \<Rightarrow> parse_uint_elem key s
      | Some _ \<Rightarrow> Inl (WrongType key))"

definition pm_UintOr :: "param_map \<Rightarrow> string \<Rightarrow> u64 \<Rightarrow> param_error + u64" where
  "pm_UintOr p key d = (if p key = None then Inr d else pm_Uint p key)"

definition parse_cca_elem :: "string \<Rightarrow> string \<Rightarrow> param_error + tcpcca" where
  "parse_cca_elem key s =
     (case ParseTCPCCA s of Inl e \<Rightarrow> Inl (BadTCPCCA key s) | Inr c \<Rightarrow> Inr c)"

definition pm_TCPCCAs :: "param_map \<Rightarrow> string \<Rightarrow> param_error + tcpcca list" where
  "pm_TCPCCAs p key =
     (case p key of
        Some (PTCPCCAs l) \<Rightarrow> Inr l
      | _ \<Rightarrow> (case pm_Strings p key of
               Inl e \<Rightarrow> Inl e
             | Inr ss \<Rightarrow> sum_mapM (parse_cca_elem key) ss))"

definition pm_TCPCCAsOr :: "param_map \<Rightarrow> string \<Rightarrow> tcpcca list \<Rightarrow> param_error + tcpcca list" where
  "pm_TCPCCAsOr p key d = (if p key = None then Inr d else pm_TCPCCAs p key)"

section \<open>The command line\<close>

definition param_value :: "string \<Rightarrow> pvalue" where
  "param_value value =
     (let valueParts = split_on (CHR '','') value
      in if length valueParts = 1 then PString value else PStrings valueParts)"

datatype cli_error = InvalidPair string

fun parse_pairs :: "param_map \<Rightarrow> string list \<Rightarrow> cli_error + param_map" where
  "parse_pairs params [] = Inr params"
| "parse_pairs params (kv # kvs) =
     (case split_on (CHR ''='') kv of
        [key, value] \<Rightarrow> parse_pairs (params(key \<mapsto> param_value value)) kvs
      | _ \<Rightarrow> Inl (InvalidPair kv))"

definition parseParams :: "string \<Rightarrow> cli_error + param_map" where
  "parseParams paramStr =
     (if paramStr = [] then Inr Map.empty else parse_pairs Map.empty (split_on (CHR '';'') paramStr))"

subsection \<open>Printing a parameter list\<close>

text \<open>The text a user writes for a list of parameters: the specification the parser is checked
  against. A value is a string or a list of at least two strings; names and strings are free of
  the separators.\<close>

fun print_value :: "pvalue \<Rightarrow> string" where
  "print_value (PString s) = s"
| "print_value (PStrings ss) = join_with '','' ss"
| "print_value _ = []"

fun print_pair :: "string \<times> pvalue \<Rightarrow> string" where
  "print_pair (k, v) = join_with ''='' [k, print_value v]"

definition print_params :: "(string \<times> pvalue) list \<Rightarrow> string" where
  "print_params kvs = join_with '';'' (map print_pair kvs)"

definition plain :: "string \<Rightarrow> bool" where
  "plain s \<longleftrightarrow> CHR '';'' \<notin> set s \<and> CHR ''='' \<notin> set s \<and> CHR '','' \<notin> set s"

fun printable_value :: "pvalue \<Rightarrow> bool" where
  "printable_value (PString s) = plain s"
| "printable_value (PStrings ss) = (2 \<le> length ss \<and> list_all plain ss)"
| "printable_value _ = False"

definition printable :: "string \<times> pvalue \<Rightarrow> bool" where
  "printable kv \<longleftrightarrow> plain (fst kv) \<and> printable_value (snd kv)"

lemma set_join_with: "set (join_with sep ss) \<subseteq> set sep \<union> (\<Union>s \<in> set ss. set s)"
  by (induction sep ss rule: join_with.induct) auto

lemma print_value_chars:
  assumes "printable_value v"
  shows "CHR '';'' \<notin> set (print_value v)" and "CHR ''='' \<notin> set (print_value v)"
proof -
  have "c \<notin> set (print_value v)" if "c = CHR '';'' \<or> c = CHR ''=''" for c
  proof (cases v)
    case (PStrings ss)
    have "c \<notin> set '','' \<union> (\<Union>s \<in> set ss. set s)"
      using assms PStrings that by (auto simp: list_all_iff plain_def)
    then show ?thesis using set_join_with [of "'',''" ss] PStrings by auto
  qed (use assms that in \<open>auto simp: plain_def\<close>)
  then show "CHR '';'' \<notin> set (print_value v)" and "CHR ''='' \<notin> set (print_value v)" by auto
qed

lemma param_value_print: "printable_value v \<Longrightarrow> param_value (print_value v) = v"
proof (cases v)
  case (PString s)
  then show "printable_value v \<Longrightarrow> param_value (print_value v) = v"
    by (simp add: param_value_def plain_def split_on_no_sep)
next
  case (PStrings ss)
  assume "printable_value v"
  with PStrings have "split_on (CHR '','') (join_with '','' ss) = ss" "length ss \<noteq> 1"
    by (auto intro!: split_on_join simp: list_all_iff plain_def)
  then show ?thesis using PStrings by (simp add: param_value_def Let_def)
qed simp_all

lemma split_print_pair:
  "printable (k, v) \<Longrightarrow> split_on (CHR ''='') (print_pair (k, v)) = [k, print_value v]"
  using print_value_chars(2) [of v]
  by (simp add: printable_def plain_def split_on_append split_on_no_sep)

lemma print_pair_no_semi: "printable kv \<Longrightarrow> CHR '';'' \<notin> set (print_pair kv)"
  using print_value_chars(1) [of "snd kv"] by (cases kv) (auto simp: printable_def plain_def)

lemma parse_pairs_print:
  "list_all printable kvs \<Longrightarrow> parse_pairs m (map print_pair kvs) = Inr (m ++ map_of (rev kvs))"
proof (induction kvs arbitrary: m)
  case (Cons kv kvs)
  obtain k v where kv: "kv = (k, v)" by fastforce
  with Cons.prems have p: "printable (k, v)" "list_all printable kvs" by auto
  have "parse_pairs m (map print_pair (kv # kvs)) =
      parse_pairs (m(k \<mapsto> param_value (print_value v))) (map print_pair kvs)"
    unfolding kv list.map(2) parse_pairs.simps split_print_pair [OF p(1)] by simp
  also have "\<dots> = Inr (m(k \<mapsto> v) ++ map_of (rev kvs))"
    using p(1) Cons.IH [OF p(2)] by (simp only: param_value_print printable_def snd_conv)
  finally show ?case by (simp add: kv map_add_assoc [symmetric])
qed simp

lemma print_params_nonempty: "list_all printable kvs \<Longrightarrow> kvs \<noteq> [] \<Longrightarrow> print_params kvs \<noteq> []"
proof (cases kvs rule: list.exhaust)
  case (Cons kv rest)
  obtain k v where kv: "kv = (k, v)" by fastforce
  have "print_pair kv \<noteq> []" by (simp add: kv)
  then show ?thesis using Cons by (cases rest) (simp_all add: print_params_def)
qed simp

section \<open>Typed values\<close>

text \<open>The accessors on the normalised values that \<open>PrepareParams\<close> stores.\<close>

lemma pm_typed [simp]:
  "p key = Some (PUint v) \<Longrightarrow> pm_Uint p key = Inr v"
  "p key = Some (PUints l) \<Longrightarrow> pm_Uints p key = Inr l"
  "p key = Some (PTCPCCAs c) \<Longrightarrow> pm_TCPCCAs p key = Inr c"
  "p key = Some (PString s) \<Longrightarrow> pm_String p key = Inr s"
  "p key = Some (PStrings ss) \<Longrightarrow> pm_Strings p key = Inr ss"
  "p ''direction'' = Some (PString (direction_StringLower d)) \<Longrightarrow> pm_Direction p = Inr d"
  by (simp_all add: pm_Uint_def pm_Uints_def pm_TCPCCAs_def pm_String_def pm_Strings_def
      pm_Direction_def)

section \<open>Properties\<close>

text \<open>Parsing a parameter string: for every nonempty list of parameters whose names and values
  are free of the separators, parsing the text written for it gives exactly these parameters (a
  later entry replaces an earlier one of the same name), a value with commas as a list and
  one without as a string; the empty string gives no parameters.\<close>

theorem parseParams_print:
  assumes "list_all printable kvs"
  shows "parseParams (print_params kvs) = Inr (map_of (rev kvs))"
proof (cases "kvs = []")
  case True
  then show ?thesis by (simp add: parseParams_def print_params_def)
next
  case False
  have "split_on (CHR '';'') (print_params kvs) = map print_pair kvs"
    unfolding print_params_def using False assms
    by (intro split_on_join) (auto simp: list_all_iff print_pair_no_semi)
  then show ?thesis
    using print_params_nonempty [OF assms False] parse_pairs_print [OF assms, of Map.empty]
    by (simp add: parseParams_def)
qed

theorem parseParams_print_witness:
  "print_params [(''direction'', PString ''ul''), (''durations'', PStrings [''100'', ''200''])] =
     ''direction=ul;durations=100,200'' \<and>
   parseParams ''direction=ul;durations=100,200'' =
     Inr [''direction'' \<mapsto> PString ''ul'', ''durations'' \<mapsto> PStrings [''100'', ''200'']]"
proof -
  let ?kvs = "[(''direction'', PString ''ul''), (''durations'', PStrings [''100'', ''200''])]"
  have "list_all printable ?kvs" by (simp add: printable_def plain_def)
  then have "parseParams (print_params ?kvs) = Inr (map_of (rev ?kvs))" by (rule parseParams_print)
  moreover have "print_params ?kvs = ''direction=ul;durations=100,200''"
    by (simp add: print_params_def)
  moreover have "map_of (rev ?kvs) =
      [''direction'' \<mapsto> PString ''ul'', ''durations'' \<mapsto> PStrings [''100'', ''200'']]"
    by (simp add: fun_upd_twist)
  ultimately show ?thesis by simp
qed

end
