(* ===== verification/Procedure_Registry.thy ===== *)
theory Procedure_Registry
  imports Param_Map "HOL-Library.List_Lexorder" "HOL-Library.Char_ord"
begin

text \<open>
  The procedure registry (\<open>cmd/scalpel-exp/procedures/registry.go\<close>), the preparation of
  invocation parameters against the declared ones (\<open>procedures/params.go\<close>) and the choice of
  invocations per round (\<open>Client.prepareOverrides\<close> in \<open>cmd/scalpel-exp/client.go\<close>). The
  iteration order over a Go map is an argument: a list of its keys. The type of \<open>Run\<close> is a
  parameter, instantiated in theory \<open>Procedures\<close>.
\<close>

section \<open>Procedures\<close>

datatype proc_mode = PerDirection | OncePerRound | InvalidMode nat

record param_spec =
  sp_Name :: string
  sp_Default :: pvalue

text \<open>\<open>Run\<close> is \<open>None\<close> for a nil function; descriptions and schedule tests carry no
  behaviour.\<close>

record 'run procedure =
  p_Name :: string
  p_Mode :: proc_mode
  p_SupportsDirection :: bool
  p_Run :: "'run option"
  p_Params :: "param_spec list"

section \<open>Preparing parameters\<close>

datatype value_error =
    UntypedNil | UnsupportedType | NotAString | BadDirectionName parse_error
  | BadUintValue string | ScalarFromList | WrongValueType | BadCCAValue string

datatype prep_error =
    DefaultError string value_error
  | DirectionNotSupported
  | UnknownParameter string
  | OverrideError string value_error

definition supportsDirection :: "'run procedure \<Rightarrow> bool" where
  "supportsDirection p \<longleftrightarrow>
     p_Mode p = PerDirection \<or> (p_Mode p = OncePerRound \<and> p_SupportsDirection p)"

fun canonicalDirection :: "pvalue \<Rightarrow> value_error + string" where
  "canonicalDirection (PString s) =
     (case ParseDirection s of
        Inl e \<Rightarrow> Inl (BadDirectionName e)
      | Inr d \<Rightarrow> Inr (direction_StringLower d))"
| "canonicalDirection _ = Inl NotAString"

fun cloneDefault :: "pvalue \<Rightarrow> value_error + pvalue" where
  "cloneDefault (PUint v) = Inr (PUint v)"
| "cloneDefault (PString v) = Inr (PString v)"
| "cloneDefault (PUints v) = Inr (PUints v)"
| "cloneDefault (PStrings v) = Inr (PStrings v)"
| "cloneDefault (PTCPCCAs v) = Inr (PTCPCCAs v)"
| "cloneDefault PNil = Inl UntypedNil"
| "cloneDefault _ = Inl UnsupportedType"

definition parseUintValue :: "string \<Rightarrow> value_error + u64" where
  "parseUintValue s = (case ParseUint32 s of None \<Rightarrow> Inl (BadUintValue s) | Some n \<Rightarrow> Inr (of_nat n))"

fun overrideUint :: "pvalue \<Rightarrow> value_error + pvalue" where
  "overrideUint (PUint v) = Inr (PUint v)"
| "overrideUint (PString s) =
     (case parseUintValue s of Inl e \<Rightarrow> Inl e | Inr v \<Rightarrow> Inr (PUint v))"
| "overrideUint (PStrings _) = Inl ScalarFromList"
| "overrideUint _ = Inl WrongValueType"

fun overrideString :: "pvalue \<Rightarrow> value_error + pvalue" where
  "overrideString (PString s) = Inr (PString s)"
| "overrideString (PStrings _) = Inl ScalarFromList"
| "overrideString _ = Inl WrongValueType"

fun overrideUints :: "pvalue \<Rightarrow> value_error + pvalue" where
  "overrideUints (PUints v) = Inr (PUints v)"
| "overrideUints (PUint v) = Inr (PUints [v])"
| "overrideUints (PString s) =
     (case parseUintValue s of Inl e \<Rightarrow> Inl e | Inr v \<Rightarrow> Inr (PUints [v]))"
| "overrideUints (PStrings ss) =
     (case sum_mapM parseUintValue ss of Inl e \<Rightarrow> Inl e | Inr vs \<Rightarrow> Inr (PUints vs))"
| "overrideUints _ = Inl WrongValueType"

fun overrideStrings :: "pvalue \<Rightarrow> value_error + pvalue" where
  "overrideStrings (PStrings ss) = Inr (PStrings ss)"
| "overrideStrings (PString s) = Inr (PStrings [s])"
| "overrideStrings _ = Inl WrongValueType"

definition parse_cca_value :: "string \<Rightarrow> value_error + tcpcca" where
  "parse_cca_value s = (case ParseTCPCCA s of Inl e \<Rightarrow> Inl (BadCCAValue s) | Inr c \<Rightarrow> Inr c)"

fun overrideTCPCCAs :: "pvalue \<Rightarrow> value_error + pvalue" where
  "overrideTCPCCAs (PTCPCCAs v) = Inr (PTCPCCAs v)"
| "overrideTCPCCAs (PTCPCCA v) = Inr (PTCPCCAs [v])"
| "overrideTCPCCAs (PString s) =
     (case parse_cca_value s of Inl e \<Rightarrow> Inl e | Inr c \<Rightarrow> Inr (PTCPCCAs [c]))"
| "overrideTCPCCAs (PStrings ss) =
     (case sum_mapM parse_cca_value ss of Inl e \<Rightarrow> Inl e | Inr cs \<Rightarrow> Inr (PTCPCCAs cs))"
| "overrideTCPCCAs _ = Inl WrongValueType"

fun applyOverride :: "pvalue \<Rightarrow> pvalue \<Rightarrow> value_error + pvalue" where
  "applyOverride (PUint _) ov = overrideUint ov"
| "applyOverride (PString _) ov = overrideString ov"
| "applyOverride (PUints _) ov = overrideUints ov"
| "applyOverride (PStrings _) ov = overrideStrings ov"
| "applyOverride (PTCPCCAs _) ov = overrideTCPCCAs ov"
| "applyOverride _ ov = Inl UnsupportedType"

text \<open>The two loops of \<open>PrepareParams\<close>: over the declared parameters, filling \<open>prepared\<close> and
  \<open>specs\<close>, and over the overrides.\<close>

fun prepare_defaults :: "param_map \<Rightarrow> (string \<rightharpoonup> param_spec) \<Rightarrow> param_spec list \<Rightarrow>
    prep_error + param_map \<times> (string \<rightharpoonup> param_spec)" where
  "prepare_defaults prepared specs [] = Inr (prepared, specs)"
| "prepare_defaults prepared specs (spec # rest) =
     (case cloneDefault (sp_Default spec) of
        Inl e \<Rightarrow> Inl (DefaultError (sp_Name spec) e)
      | Inr d \<Rightarrow> prepare_defaults (prepared(sp_Name spec \<mapsto> d)) (specs(sp_Name spec \<mapsto> spec)) rest)"

definition override_value :: "'run procedure \<Rightarrow> (string \<rightharpoonup> param_spec) \<Rightarrow> string \<Rightarrow> pvalue \<Rightarrow>
    prep_error + pvalue" where
  "override_value p specs key ov =
     (if key = ''direction'' then
        (if \<not> supportsDirection p then Inl DirectionNotSupported
         else case canonicalDirection ov of
           Inl e \<Rightarrow> Inl (OverrideError ''direction'' e)
         | Inr d \<Rightarrow> Inr (PString d))
      else case specs key of
        None \<Rightarrow> Inl (UnknownParameter key)
      | Some spec \<Rightarrow>
          (case applyOverride (sp_Default spec) ov of
             Inl e \<Rightarrow> Inl (OverrideError key e)
           | Inr v \<Rightarrow> Inr v))"

fun apply_overrides :: "'run procedure \<Rightarrow> (string \<rightharpoonup> param_spec) \<Rightarrow> param_map \<Rightarrow> param_map \<Rightarrow>
    string list \<Rightarrow> prep_error + param_map" where
  "apply_overrides p specs overrides prepared [] = Inr prepared"
| "apply_overrides p specs overrides prepared (key # keys) =
     (case overrides key of
        None \<Rightarrow> apply_overrides p specs overrides prepared keys
      | Some ov \<Rightarrow>
          (case override_value p specs key ov of
             Inl e \<Rightarrow> Inl e
           | Inr v \<Rightarrow> apply_overrides p specs overrides (prepared(key \<mapsto> v)) keys))"

definition PrepareParams :: "'run procedure \<Rightarrow> param_map \<Rightarrow> string list \<Rightarrow> prep_error + param_map" where
  "PrepareParams p overrides order =
     (case prepare_defaults Map.empty Map.empty (p_Params p) of
        Inl e \<Rightarrow> Inl e
      | Inr (prepared, specs) \<Rightarrow> apply_overrides p specs overrides prepared order)"

section \<open>The registry\<close>

datatype register_error =
    EmptyName | BadMode string nat | NilRun string | DuplicateProcedure string
  | DuplicateParameter string string | ReservedDirection string
  | BadDefault string string value_error

fun check_specs :: "string \<Rightarrow> string set \<Rightarrow> param_spec list \<Rightarrow> register_error option" where
  "check_specs name seen [] = None"
| "check_specs name seen (spec # rest) =
     (if sp_Name spec \<in> seen then Some (DuplicateParameter name (sp_Name spec))
      else if sp_Name spec = ''direction'' then Some (ReservedDirection name)
      else case cloneDefault (sp_Default spec) of
        Inl e \<Rightarrow> Some (BadDefault name (sp_Name spec) e)
      | Inr _ \<Rightarrow> check_specs name (insert (sp_Name spec) seen) rest)"

type_synonym 'run registry = "string \<rightharpoonup> 'run procedure"

definition register :: "'run registry \<Rightarrow> 'run procedure \<Rightarrow> register_error + 'run registry" where
  "register reg p =
     (if p_Name p = [] then Inl EmptyName
      else case p_Mode p of
        InvalidMode n \<Rightarrow> Inl (BadMode (p_Name p) n)
      | _ \<Rightarrow>
        if p_Run p = None then Inl (NilRun (p_Name p))
        else if reg (p_Name p) \<noteq> None then Inl (DuplicateProcedure (p_Name p))
        else case check_specs (p_Name p) {} (p_Params p) of
          Some e \<Rightarrow> Inl e
        | None \<Rightarrow> Inr (reg(p_Name p \<mapsto> p)))"

text \<open>The \<open>init\<close> functions call \<open>Register\<close> one after the other; an error panics.\<close>

fun register_all :: "'run registry \<Rightarrow> 'run procedure list \<Rightarrow> 'run registry panics" where
  "register_all reg [] = Returns reg"
| "register_all reg (p # ps) =
     (case register reg p of
        Inl e \<Rightarrow> Panics ''procedure registration failed''
      | Inr reg' \<Rightarrow> register_all reg' ps)"

definition Lookup :: "'run registry \<Rightarrow> string \<Rightarrow> 'run procedure option" where
  "Lookup reg name = reg name"

text \<open>\<open>All\<close>: the procedures in the map's iteration order, then sorted by name.\<close>

definition All :: "'run registry \<Rightarrow> string list \<Rightarrow> 'run procedure list" where
  "All reg order = sort_key p_Name (map (\<lambda>k. the (reg k)) (filter (\<lambda>k. reg k \<noteq> None) order))"

section \<open>Invocations of a round\<close>

datatype client_error = UnknownProcedure string | InvocationError nat prep_error

fun check_invocations :: "'run procedure \<Rightarrow> (nat \<Rightarrow> string list) \<Rightarrow> nat \<Rightarrow> param_map list \<Rightarrow>
    (nat \<times> prep_error) option" where
  "check_invocations p ord i [] = None"
| "check_invocations p ord i (params # rest) =
     (case PrepareParams p params (ord i) of
        Inl e \<Rightarrow> Some (Suc i, e)
      | Inr _ \<Rightarrow> check_invocations p ord (Suc i) rest)"

definition invocations :: "'run procedure \<Rightarrow> param_map \<Rightarrow> param_map list" where
  "invocations proc params =
     (if p_Mode proc = PerDirection \<and> params ''direction'' = None
      then map (\<lambda>d. params(''direction'' \<mapsto> PString (direction_String d))) [DL, UL]
      else [params])"

definition prepareOverrides :: "'run registry \<Rightarrow> string \<Rightarrow> param_map \<Rightarrow> (nat \<Rightarrow> string list) \<Rightarrow>
    client_error + 'run procedure \<times> param_map list" where
  "prepareOverrides reg name params ord =
     (case Lookup reg name of
        None \<Rightarrow> Inl (UnknownProcedure name)
      | Some proc \<Rightarrow>
          (case check_invocations proc ord 0 (invocations proc params) of
             Some (i, e) \<Rightarrow> Inl (InvocationError i e)
           | None \<Rightarrow> Inr (proc, invocations proc params)))"

section \<open>Well-formed procedures\<close>

definition spec_names :: "'run procedure \<Rightarrow> string list" where
  "spec_names p = map sp_Name (p_Params p)"

definition proc_wf :: "'run procedure \<Rightarrow> bool" where
  "proc_wf p \<longleftrightarrow>
     p_Name p \<noteq> [] \<and> (p_Mode p = PerDirection \<or> p_Mode p = OncePerRound) \<and> p_Run p \<noteq> None \<and>
     distinct (spec_names p) \<and> ''direction'' \<notin> set (spec_names p) \<and>
     list_all (\<lambda>spec. cloneDefault (sp_Default spec) = Inr (sp_Default spec)) (p_Params p)"

definition specs_of :: "'run procedure \<Rightarrow> string \<rightharpoonup> param_spec" where
  "specs_of p = map_of (map (\<lambda>spec. (sp_Name spec, spec)) (p_Params p))"

definition defaults_of :: "'run procedure \<Rightarrow> param_map" where
  "defaults_of p = map_of (map (\<lambda>spec. (sp_Name spec, sp_Default spec)) (p_Params p))"

lemma cloneDefault_id: "cloneDefault v = Inr d \<Longrightarrow> d = v"
  by (cases v) auto

lemma check_specs_None:
  "check_specs name seen specs = None \<Longrightarrow>
   distinct (map sp_Name specs) \<and> set (map sp_Name specs) \<inter> seen = {} \<and>
   ''direction'' \<notin> set (map sp_Name specs) \<and>
   list_all (\<lambda>spec. cloneDefault (sp_Default spec) = Inr (sp_Default spec)) specs"
proof (induction name seen specs rule: check_specs.induct)
  case (2 name seen spec rest)
  then show ?case
    by (auto split: if_splits sum.splits dest: cloneDefault_id)
qed simp

lemma register_wf:
  assumes "register reg p = Inr reg'"
  shows "proc_wf p \<and> reg (p_Name p) = None \<and> reg' = reg(p_Name p \<mapsto> p)"
proof -
  from assms have "p_Name p \<noteq> []" "p_Mode p = PerDirection \<or> p_Mode p = OncePerRound"
    "p_Run p \<noteq> None" "reg (p_Name p) = None" "check_specs (p_Name p) {} (p_Params p) = None"
    "reg' = reg(p_Name p \<mapsto> p)"
    by (auto simp: register_def split: if_splits proc_mode.splits option.splits)
  then show ?thesis
    using check_specs_None [of "p_Name p" "{}" "p_Params p"]
    by (simp add: proc_wf_def spec_names_def)
qed

lemma check_specs_ok:
  assumes "distinct (map sp_Name specs)" "set (map sp_Name specs) \<inter> seen = {}"
    "''direction'' \<notin> set (map sp_Name specs)"
    "list_all (\<lambda>spec. cloneDefault (sp_Default spec) = Inr (sp_Default spec)) specs"
  shows "check_specs n seen specs = None"
  using assms by (induction specs arbitrary: seen) auto

lemma register_ok:
  assumes "proc_wf p" and "reg (p_Name p) = None"
  shows "register reg p = Inr (reg(p_Name p \<mapsto> p))"
proof -
  have "check_specs (p_Name p) {} (p_Params p) = None"
    using assms(1) by (intro check_specs_ok) (simp_all add: proc_wf_def spec_names_def)
  then show ?thesis using assms by (auto simp: register_def proc_wf_def)
qed

lemma register_all_ok:
  assumes "list_all proc_wf ps" and "distinct (map p_Name ps)" and "dom reg \<inter> set (map p_Name ps) = {}"
  shows "\<exists>reg'. register_all reg ps = Returns reg' \<and> dom reg' = dom reg \<union> set (map p_Name ps)"
  using assms
proof (induction ps arbitrary: reg)
  case (Cons p ps)
  have reg: "register reg p = Inr (reg(p_Name p \<mapsto> p))"
    using Cons.prems by (intro register_ok) auto
  have "\<exists>reg'. register_all (reg(p_Name p \<mapsto> p)) ps = Returns reg' \<and>
      dom reg' = dom (reg(p_Name p \<mapsto> p)) \<union> set (map p_Name ps)"
  proof (rule Cons.IH)
    have "dom (reg(p_Name p \<mapsto> p)) = insert (p_Name p) (dom reg)" by simp
    then show "dom (reg(p_Name p \<mapsto> p)) \<inter> set (map p_Name ps) = {}"
      using Cons.prems(2,3) by (simp only: list.map set_simps distinct.simps) blast
  qed (use Cons.prems in simp_all)
  then show ?case using reg by auto
qed simp

lemma register_all_wf:
  assumes "register_all reg ps = Returns reg'" and "\<forall>n p. reg n = Some p \<longrightarrow> p_Name p = n \<and> proc_wf p"
  shows "\<forall>n p. reg' n = Some p \<longrightarrow> p_Name p = n \<and> proc_wf p"
  using assms
proof (induction reg ps rule: register_all.induct)
  case (2 reg p ps)
  from 2(2) obtain reg1 where r: "register reg p = Inr reg1" "register_all reg1 ps = Returns reg'"
    by (cases "register reg p") auto
  then have "\<forall>n q. reg1 n = Some q \<longrightarrow> p_Name q = n \<and> proc_wf q"
    using register_wf [OF r(1)] 2(3) by (simp split: if_splits)
  then show ?case by (rule 2(1) [OF r])
qed simp

lemma prepare_defaults_Inr:
  "list_all (\<lambda>spec. cloneDefault (sp_Default spec) = Inr (sp_Default spec)) specs \<Longrightarrow>
   prepare_defaults m s specs =
     Inr (m ++ map_of (rev (map (\<lambda>spec. (sp_Name spec, sp_Default spec)) specs)),
          s ++ map_of (rev (map (\<lambda>spec. (sp_Name spec, spec)) specs)))"
  by (induction specs arbitrary: m s) (simp_all add: map_add_assoc [symmetric])

lemma map_of_rev_distinct:
  assumes "distinct (map fst xs)"
  shows "map_of (rev xs) = map_of xs"
proof
  fix k
  have "map_of (rev xs) k = Some y \<longleftrightarrow> map_of xs k = Some y" for y
    using assms by (simp add: map_of_eq_Some_iff rev_map [symmetric])
  then show "map_of (rev xs) k = map_of xs k"
    by (metis not_None_eq)
qed

text \<open>What a successful preparation must return, said without the loops: the override where there
  is one, the default elsewhere.\<close>

definition prepared_map :: "'run procedure \<Rightarrow> param_map \<Rightarrow> param_map" where
  "prepared_map p overrides key =
     (case overrides key of
        None \<Rightarrow> defaults_of p key
      | Some ov \<Rightarrow> (case override_value p (specs_of p) key ov of
                     Inr v \<Rightarrow> Some v | Inl e \<Rightarrow> defaults_of p key))"

definition overrides_ok :: "'run procedure \<Rightarrow> param_map \<Rightarrow> bool" where
  "overrides_ok p overrides \<longleftrightarrow>
     (\<forall>key ov. overrides key = Some ov \<longrightarrow> (\<exists>v. override_value p (specs_of p) key ov = Inr v))"

text \<open>The map after the overrides of the keys \<open>K\<close> were applied.\<close>

definition overridden :: "'run procedure \<Rightarrow> (string \<rightharpoonup> param_spec) \<Rightarrow> param_map \<Rightarrow> param_map \<Rightarrow>
    string set \<Rightarrow> param_map" where
  "overridden p specs overrides prepared K key =
     (case overrides key of
        None \<Rightarrow> prepared key
      | Some ov \<Rightarrow> (case override_value p specs key ov of
                     Inr v \<Rightarrow> if key \<in> K then Some v else prepared key
                   | Inl e \<Rightarrow> prepared key))"

lemma overridden_empty: "overridden p specs overrides prepared {} = prepared"
  by (rule ext) (simp add: overridden_def split: option.split sum.split)

lemma overridden_skip:
  "overrides k = None \<Longrightarrow>
   overridden p specs overrides prepared (insert k K) = overridden p specs overrides prepared K"
  by (rule ext) (auto simp: overridden_def split: option.split sum.split)

lemma overridden_insert:
  "overrides k = Some ov \<Longrightarrow> override_value p specs k ov = Inr v \<Longrightarrow>
   overridden p specs overrides prepared (insert k K) =
   overridden p specs overrides (prepared(k \<mapsto> v)) K"
  by (rule ext) (auto simp: overridden_def split: option.split sum.split)

lemma apply_overrides_Inr:
  "apply_overrides p specs overrides prepared keys = Inr m \<longleftrightarrow>
     (\<forall>key \<in> set keys. \<forall>ov. overrides key = Some ov \<longrightarrow> (\<exists>v. override_value p specs key ov = Inr v)) \<and>
     m = overridden p specs overrides prepared (set keys)"
proof (induction keys arbitrary: prepared)
  case Nil
  show ?case by (auto simp: overridden_empty)
next
  case (Cons k keys)
  show ?case
  proof (cases "overrides k")
    case None
    then show ?thesis by (simp add: Cons.IH overridden_skip)
  next
    case (Some ov)
    show ?thesis
    proof (cases "override_value p specs k ov")
      case (Inr v)
      with Some show ?thesis by (simp add: Cons.IH overridden_insert fun_upd_def)
    qed (simp add: Some)
  qed
qed

lemma PrepareParams_Inr:
  assumes "proc_wf p" and "set order = dom overrides"
  shows "PrepareParams p overrides order = Inr m \<longleftrightarrow>
     overrides_ok p overrides \<and> m = prepared_map p overrides"
proof -
  have "prepare_defaults Map.empty Map.empty (p_Params p) = Inr (defaults_of p, specs_of p)"
    using assms(1) prepare_defaults_Inr [of "p_Params p" Map.empty Map.empty]
    by (simp add: proc_wf_def spec_names_def defaults_of_def specs_of_def map_of_rev_distinct comp_def)
  moreover have "overridden p (specs_of p) overrides (defaults_of p) (dom overrides) =
      prepared_map p overrides"
    by (rule ext) (auto simp: overridden_def prepared_map_def split: option.split sum.split)
  moreover have "(\<forall>key \<in> dom overrides. \<forall>ov. overrides key = Some ov \<longrightarrow>
      (\<exists>v. override_value p (specs_of p) key ov = Inr v)) \<longleftrightarrow> overrides_ok p overrides"
    by (auto simp: overrides_ok_def)
  ultimately show ?thesis
    by (simp add: PrepareParams_def apply_overrides_Inr assms(2))
qed

subsection \<open>Types of the prepared values\<close>

datatype ptype = TUint | TString | TUints | TStrings | TTCPCCA | TTCPCCAs | TNil | TOther

fun value_type :: "pvalue \<Rightarrow> ptype" where
  "value_type (PUint _) = TUint"
| "value_type (PString _) = TString"
| "value_type (PUints _) = TUints"
| "value_type (PStrings _) = TStrings"
| "value_type (PTCPCCA _) = TTCPCCA"
| "value_type (PTCPCCAs _) = TTCPCCAs"
| "value_type PNil = TNil"
| "value_type POther = TOther"

lemma override_types:
  "overrideUint ov = Inr v \<Longrightarrow> value_type v = TUint"
  "overrideString ov = Inr v \<Longrightarrow> value_type v = TString"
  "overrideUints ov = Inr v \<Longrightarrow> value_type v = TUints"
  "overrideStrings ov = Inr v \<Longrightarrow> value_type v = TStrings"
  "overrideTCPCCAs ov = Inr v \<Longrightarrow> value_type v = TTCPCCAs"
  by (cases ov; auto split: sum.splits)+

lemma applyOverride_type: "applyOverride d ov = Inr v \<Longrightarrow> value_type v = value_type d"
  by (cases d) (auto dest: override_types)

lemma canonicalDirection_cases:
  "canonicalDirection v = Inr s \<Longrightarrow> \<exists>d. s = direction_StringLower d"
  by (cases v) (auto split: sum.splits)

lemma specs_of_Some: "proc_wf p \<Longrightarrow> specs_of p key = Some spec \<longleftrightarrow> spec \<in> set (p_Params p) \<and> sp_Name spec = key"
  by (auto simp: specs_of_def proc_wf_def spec_names_def map_of_eq_Some_iff comp_def)

lemma specs_of_None: "specs_of p key = None \<longleftrightarrow> key \<notin> set (spec_names p)"
  by (simp add: specs_of_def spec_names_def map_of_eq_None_iff image_image)

lemma defaults_of_specs: "defaults_of p key = map_option sp_Default (specs_of p key)"
proof -
  have "map_of (map (\<lambda>spec. (sp_Name spec, sp_Default spec)) specs) key =
      map_option sp_Default (map_of (map (\<lambda>spec. (sp_Name spec, spec)) specs) key)" for specs
    by (induction specs) auto
  then show ?thesis by (simp add: defaults_of_def specs_of_def)
qed

lemma proc_wf_nodir: "proc_wf p \<Longrightarrow> ''direction'' \<notin> set (spec_names p)"
  by (simp add: proc_wf_def)

lemma prepared_value_type:
  assumes "proc_wf p" and "overrides_ok p overrides" and "spec \<in> set (p_Params p)"
  shows "\<exists>v. prepared_map p overrides (sp_Name spec) = Some v \<and> value_type v = value_type (sp_Default spec)"
proof -
  have spec: "specs_of p (sp_Name spec) = Some spec" using assms(1,3) by (simp add: specs_of_Some)
  have nd: "sp_Name spec \<noteq> ''direction''"
    using proc_wf_nodir [OF assms(1)] assms(3) unfolding spec_names_def by (metis image_eqI list.set_map)
  show ?thesis
  proof (cases "overrides (sp_Name spec)")
    case None
    then show ?thesis using assms(1) spec by (simp add: prepared_map_def defaults_of_specs)
  next
    case (Some ov)
    with assms(2) obtain v where v: "override_value p (specs_of p) (sp_Name spec) ov = Inr v"
      by (auto simp: overrides_ok_def)
    then have "applyOverride (sp_Default spec) ov = Inr v"
      using nd spec by (simp add: override_value_def split: sum.splits)
    then show ?thesis using Some v by (simp add: prepared_map_def applyOverride_type)
  qed
qed

lemma prepared_direction:
  assumes "proc_wf p" and "overrides_ok p overrides"
  shows "case overrides ''direction'' of
     None \<Rightarrow> prepared_map p overrides ''direction'' = None
   | Some ov \<Rightarrow> supportsDirection p \<and>
       (\<exists>d. prepared_map p overrides ''direction'' = Some (PString (direction_StringLower d)))"
proof (cases "overrides ''direction''")
  case None
  have "specs_of p ''direction'' = None"
    using proc_wf_nodir [OF assms(1)] by (simp only: specs_of_None not_False_eq_True)
  then show ?thesis using None assms(1) by (simp add: prepared_map_def defaults_of_specs)
next
  case (Some ov)
  with assms(2) obtain v where v: "override_value p (specs_of p) ''direction'' ov = Inr v"
    by (auto simp: overrides_ok_def)
  then obtain s where "supportsDirection p" "canonicalDirection ov = Inr s" "v = PString s"
    by (auto simp: override_value_def split: if_splits sum.splits)
  then show ?thesis using Some v canonicalDirection_cases [of ov s] by (auto simp: prepared_map_def)
qed

lemma prepared_unknown:
  assumes "proc_wf p" and "overrides_ok p overrides" and "key \<noteq> ''direction''"
    and "key \<notin> set (spec_names p)"
  shows "prepared_map p overrides key = None \<and> overrides key = None"
proof -
  have none: "specs_of p key = None"
    using assms(4) by (simp add: specs_of_None)
  then have "override_value p (specs_of p) key ov \<noteq> Inr v" for ov v
    using assms(3) by (simp add: override_value_def)
  then have "overrides key = None"
    using assms(2) unfolding overrides_ok_def by (metis not_None_eq)
  then show ?thesis using none assms(1) by (simp add: prepared_map_def defaults_of_specs)
qed

section \<open>Properties\<close>

text \<open>C23. Preparing the parameters of a registered procedure: a successful preparation does not
  depend on the iteration order over the overrides; the prepared map holds exactly the declared
  parameters, each with the type of its default, plus the direction, in its canonical lower-case
  form, exactly when it was given (which requires that the procedure supports it).\<close>

theorem PrepareParams_typed:
  assumes "register reg p = Inr reg'" and "set order = dom overrides"
    and "PrepareParams p overrides order = Inr m"
  shows "(\<forall>order'. set order' = dom overrides \<longrightarrow> PrepareParams p overrides order' = Inr m) \<and>
     (\<forall>spec \<in> set (p_Params p). \<exists>v. m (sp_Name spec) = Some v \<and> value_type v = value_type (sp_Default spec)) \<and>
     dom m = set (spec_names p) \<union> (dom overrides \<inter> {''direction''}) \<and>
     dom overrides \<subseteq> dom m \<and>
     (''direction'' \<in> dom overrides \<longrightarrow> supportsDirection p \<and>
        (\<exists>d. m ''direction'' = Some (PString (direction_StringLower d))))"
proof -
  have wf: "proc_wf p" using register_wf [OF assms(1)] by simp
  have ok: "overrides_ok p overrides" and m: "m = prepared_map p overrides"
    using PrepareParams_Inr [OF wf assms(2)] assms(3) by auto
  have dir: "(''direction'' \<in> dom overrides \<longleftrightarrow> ''direction'' \<in> dom m) \<and>
      (''direction'' \<in> dom overrides \<longrightarrow> supportsDirection p \<and>
        (\<exists>d. m ''direction'' = Some (PString (direction_StringLower d))))"
    using prepared_direction [OF wf ok] by (auto simp: m split: option.splits)
  have declared: "key \<in> dom m" if "key \<in> set (spec_names p)" for key
    using that prepared_value_type [OF wf ok] by (auto simp: m spec_names_def)
  have nodir: "''direction'' \<notin> set (spec_names p)" using wf by (simp add: proc_wf_def)
  have others: "key \<in> set (spec_names p)" if "key \<in> dom m \<or> key \<in> dom overrides" "key \<noteq> ''direction''" for key
  proof (rule ccontr)
    assume "key \<notin> set (spec_names p)"
    then have "prepared_map p overrides key = None \<and> overrides key = None"
      by (rule prepared_unknown [OF wf ok that(2)])
    then show False using that(1) by (simp add: m dom_def)
  qed
  have doms: "dom m = set (spec_names p) \<union> (dom overrides \<inter> {''direction''})"
    using dir declared others by blast
  have sub: "dom overrides \<subseteq> dom m" using dir declared others by blast
  have orders: "\<forall>order'. set order' = dom overrides \<longrightarrow> PrepareParams p overrides order' = Inr m"
    using PrepareParams_Inr [OF wf] ok m by simp
  have types: "\<forall>spec \<in> set (p_Params p). \<exists>v. m (sp_Name spec) = Some v \<and>
      value_type v = value_type (sp_Default spec)"
    unfolding m by (rule ballI) (rule prepared_value_type [OF wf ok])
  show ?thesis by (intro conjI orders types doms sub) (rule conjunct2 [OF dir])
qed

definition example_procedure :: "unit procedure" where
  "example_procedure = \<lparr>p_Name = ''cdsf'', p_Mode = PerDirection, p_SupportsDirection = False,
     p_Run = Some (), p_Params = [\<lparr>sp_Name = ''ratesUL'', sp_Default = PUints [140]\<rparr>,
       \<lparr>sp_Name = ''step'', sp_Default = PUint 50\<rparr>]\<rparr>"

definition example_overrides :: param_map where
  "example_overrides = [''direction'' \<mapsto> PString ''UL'', ''step'' \<mapsto> PUint 25]"

definition example_prepared :: param_map where
  "example_prepared = [''ratesUL'' \<mapsto> PUints [140], ''step'' \<mapsto> PUint 25, ''direction'' \<mapsto> PString ''ul'']"

theorem PrepareParams_typed_witness:
  "register Map.empty example_procedure = Inr [''cdsf'' \<mapsto> example_procedure] \<and>
   PrepareParams example_procedure example_overrides [''direction'', ''step''] = Inr example_prepared \<and>
   PrepareParams example_procedure example_overrides [''step'', ''direction''] = Inr example_prepared"
proof -
  have r: "register Map.empty example_procedure = Inr [''cdsf'' \<mapsto> example_procedure]"
    by (simp add: register_def example_procedure_def)
  have dom: "set [''direction'', ''step''] = dom example_overrides"
    "set [''step'', ''direction''] = dom example_overrides"
    by (auto simp: example_overrides_def)
  have prep: "PrepareParams example_procedure example_overrides [''direction'', ''step''] =
      Inr example_prepared"
    by (simp add: PrepareParams_def example_procedure_def example_overrides_def override_value_def
        supportsDirection_def ParseDirection_def example_prepared_def fun_upd_twist)
  show ?thesis
    using r prep PrepareParams_typed [OF r dom(1) prep] dom(2) by blast
qed

text \<open>Registration: it succeeds exactly for procedures with a nonempty, unused name, a
  valid mode, a function and distinct, non-reserved parameters with supported defaults, and adds
  just that procedure; so after all registrations every procedure found under a name carries
  that name.\<close>

theorem register_correct:
  "register reg p = Inr reg' \<longleftrightarrow> proc_wf p \<and> Lookup reg (p_Name p) = None \<and> reg' = reg(p_Name p \<mapsto> p)"
proof
  assume "register reg p = Inr reg'"
  then show "proc_wf p \<and> Lookup reg (p_Name p) = None \<and> reg' = reg(p_Name p \<mapsto> p)"
    using register_wf by (auto simp: Lookup_def)
next
  assume "proc_wf p \<and> Lookup reg (p_Name p) = None \<and> reg' = reg(p_Name p \<mapsto> p)"
  then show "register reg p = Inr reg'" by (simp add: register_ok Lookup_def)
qed

end
