(* ===== verification/Schedule.thy ===== *)
theory Schedule
  imports Rate_Pacing Net_Modes
begin

text \<open>
  What an experiment schedules: the senders and their parameters (\<open>pkg/udp.go\<close>, \<open>tcp.go\<close>,
  \<open>quic.go\<close>, \<open>icmp.go\<close>), the clients a procedure hands to the executor (\<open>pkg/client.go\<close>),
  the reconfiguration instants (\<open>experiment/timing.go\<close>), the paired packet captures
  (\<open>Executor.Tcpdump\<close>) and the random order of the tests (\<open>math/rand\<close>).
\<close>

section \<open>Senders\<close>

record burst_params =
  b_Timeout :: gduration
  b_Num :: u64
  b_Pad :: u64

record periodic_params =
  pe_Interval :: gduration
  pe_Duration :: gduration
  pe_Pad :: u64

record tcp_params =
  t_Duration :: gduration
  t_Bytes :: u64
  t_CCA :: tcpcca

record quic_params =
  q_Duration :: gduration
  q_Bytes :: u64

text \<open>The two values of \<open>ipv4.ICMPType\<close> the sources name.\<close>

abbreviation (input) ICMPTypeEchoReply :: int where "ICMPTypeEchoReply \<equiv> 0"
abbreviation (input) ICMPTypeEcho :: int where "ICMPTypeEcho \<equiv> 8"

record icmp_params =
  i_Duration :: gduration
  i_Interval :: gduration
  i_ClientEchoID :: u16
  i_SenderEchoID :: u16
  i_ICMPType :: int
  i_punch :: bool

datatype sender =
    BurstSender burst_params | PeriodicSender periodic_params | RateSender "rate_params list"
  | TCPSender tcp_params | QUICSender quic_params | ICMPSender icmp_params

fun GetDuration :: "sender \<Rightarrow> gduration" where
  "GetDuration (BurstSender b) = b_Timeout b"
| "GetDuration (PeriodicSender p) = pe_Duration p"
| "GetDuration (RateSender rs) = rateW_GetDuration rs"
| "GetDuration (TCPSender t) = t_Duration t"
| "GetDuration (QUICSender q) = q_Duration q"
| "GetDuration (ICMPSender i) = i_Duration i"

fun SenderMode :: "sender \<Rightarrow> mode" where
  "SenderMode (BurstSender _) = SendBurst"
| "SenderMode (PeriodicSender _) = SendPeriodic"
| "SenderMode (RateSender _) = SendRate"
| "SenderMode (TCPSender _) = SendTCP"
| "SenderMode (QUICSender _) = SendQUIC"
| "SenderMode (ICMPSender _) = SendICMP"

fun ReceiverMode :: "sender \<Rightarrow> mode" where
  "ReceiverMode (BurstSender _) = ReceiveUDP"
| "ReceiverMode (PeriodicSender _) = ReceiveUDP"
| "ReceiverMode (RateSender _) = ReceiveUDP"
| "ReceiverMode (TCPSender _) = ReceiveTCP"
| "ReceiverMode (QUICSender _) = ReceiveQUIC"
| "ReceiverMode (ICMPSender _) = ReceiveICMP"

section \<open>Clients\<close>

record sender_client =
  sc_IP :: string
  sc_Out :: string
  sc_Direction :: direction
  sc_StartAt :: gtime
  sc_Sender :: sender

record tcpdump_params =
  td_Name :: string
  td_Timeout :: gduration
  td_Filter :: string

record command_client =
  cc_Params :: tcpdump_params
  cc_Local :: bool
  cc_StartAt :: gtime
  cc_LocalDir :: string

datatype client = SenderClient sender_client | CommandClient command_client

fun client_start :: "client \<Rightarrow> gtime" where
  "client_start (SenderClient c) = sc_StartAt c"
| "client_start (CommandClient c) = cc_StartAt c"

text \<open>\<open>ScheduledEnd\<close> of \<open>describe\<close>.\<close>

fun client_end :: "client \<Rightarrow> gtime" where
  "client_end (SenderClient c) = sc_StartAt c + GetDuration (sc_Sender c)"
| "client_end (CommandClient c) = cc_StartAt c + td_Timeout (cc_Params c)"

fun is_flow :: "client \<Rightarrow> bool" where
  "is_flow (SenderClient c) = True"
| "is_flow (CommandClient c) = False"

definition Tcpdump :: "string \<Rightarrow> gtime \<Rightarrow> gduration \<Rightarrow> client list" where
  "Tcpdump resultPath start duration =
     map (\<lambda>local. CommandClient
       \<lparr>cc_Params = \<lparr>td_Name = ''tcpdump_'' @ (if local then ''local'' else ''remote''),
                     td_Timeout = duration, td_Filter = []\<rparr>,
        cc_Local = local, cc_StartAt = start, cc_LocalDir = resultPath\<rparr>) [True, False]"

section \<open>Reconfiguration instants\<close>

text \<open>
  \<open>Time.Round(time.Second)\<close> rounds to the nearest second, half a second upwards. The broken-down
  time is that of a location whose offset from UTC is a whole number of minutes and does not
  change between the two instants; then \<open>time.Date\<close> of the fields of \<open>base\<close> with other seconds is
  \<open>base\<close> moved by the difference of the seconds.
\<close>

definition round_second :: "gtime \<Rightarrow> gtime" where
  "round_second t = (t + second div 2) div second * second"

definition time_Second :: "gtime \<Rightarrow> int" where
  "time_Second t = t div second mod 60"

definition next_ri_second :: "int \<Rightarrow> int" where
  "next_ri_second s =
     (if 12 > s then 12 else if 27 > s then 27 else if 42 > s then 42 else if 57 > s then 57
      else 57 + 15)"

definition NextRI :: "gtime \<Rightarrow> gtime" where
  "NextRI ts =
     (let base = round_second ts;
          riSec = next_ri_second (time_Second base);
          mins = riSec div 60;
          secs = riSec mod 60;
          nextRi = base + (secs - time_Second base) * second
      in nextRi + mins * minute)"

definition is_RI :: "gtime \<Rightarrow> bool" where
  "is_RI t \<longleftrightarrow> t mod second = 0 \<and> time_Second t \<in> {12, 27, 42, 57}"

lemma NextRI_base:
  "NextRI ts = round_second ts + (next_ri_second (time_Second (round_second ts)) -
     time_Second (round_second ts)) * second"
proof -
  have *: "r mod 60 * second + r div 60 * minute = r * second" for r
    using div_mult_mod_eq [of r 60] by linarith
  show ?thesis unfolding NextRI_def Let_def
    using * [of "next_ri_second (time_Second (round_second ts))"] by (simp add: algebra_simps)
qed

lemma next_ri_second_bounds:
  assumes "0 \<le> s" and "s < 60"
  shows "s < next_ri_second s" and "next_ri_second s \<le> s + 15"
    and "next_ri_second s mod 60 \<in> {12, 27, 42, 57}"
  using assms by (auto simp: next_ri_second_def)

lemma time_Second_bounds [simp]: "0 \<le> time_Second t" "time_Second t < 60"
  by (simp_all add: time_Second_def)

lemma round_second_close:
  "ts - second div 2 < round_second ts" "round_second ts \<le> ts + second div 2"
  "round_second ts mod second = 0"
  by (simp_all add: round_second_def minus_mod_eq_div_mult [symmetric])

lemma is_RI_round: "is_RI t \<Longrightarrow> round_second t = t"
proof -
  assume "is_RI t"
  then obtain k where "t = k * second" by (auto simp: is_RI_def)
  then show ?thesis by (simp add: round_second_def)
qed

lemma NextRI_of_RI [sched_simps]: "is_RI t \<Longrightarrow> NextRI t = t + 15 * second"
  by (auto simp: NextRI_base is_RI_round is_RI_def next_ri_second_def)

lemma NextRI_is_RI: "is_RI (NextRI ts)"
proof -
  let ?b = "round_second ts" and ?r = "next_ri_second (time_Second (round_second ts))"
  obtain k where k: "?b = k * second" using round_second_close(3) [of ts] by auto
  have nxt: "NextRI ts = (k + (?r - time_Second ?b)) * second"
    unfolding NextRI_base by (simp add: k algebra_simps)
  have "(k + (?r - k mod 60)) mod 60 = ?r mod 60"
    by (metis add_diff_eq add.commute diff_add_cancel mod_add_left_eq mod_diff_right_eq)
  moreover have "time_Second ?b = k mod 60" by (simp add: time_Second_def k)
  ultimately have "time_Second (NextRI ts) = ?r mod 60"
    unfolding nxt by (simp add: time_Second_def)
  then show ?thesis
    using next_ri_second_bounds(3) [of "time_Second ?b"] by (simp add: is_RI_def nxt)
qed

section \<open>Random numbers\<close>

text \<open>The random source is the sequence of its answers: the \<open>k\<close>-th call of \<open>Intn(n)\<close> answers
  \<open>g k mod n\<close>, so every sequence of answers in range is covered. \<open>Intn\<close> panics for \<open>n <= 0\<close>.\<close>

type_synonym rng = "nat \<Rightarrow> nat"

definition Intn :: "rng \<Rightarrow> nat \<Rightarrow> nat \<times> rng" where
  "Intn g n = (g 0 mod n, \<lambda>k. g (Suc k))"

fun perm_loop :: "rng \<Rightarrow> nat list \<Rightarrow> nat list \<Rightarrow> nat list \<times> rng" where
  "perm_loop g m [] = (m, g)"
| "perm_loop g m (i # is) =
     (let (j, g') = Intn g (Suc i); m' = m[i := m ! j] in perm_loop g' (m'[j := i]) is)"

text \<open>\<open>rand.Perm\<close>.\<close>

definition Perm :: "rng \<Rightarrow> nat \<Rightarrow> nat list \<times> rng" where
  "Perm g n = perm_loop g (replicate n 0) [0..<n]"

lemma perm_step_mset:
  assumes "j \<le> i" and "i < length m" and "mset (take i m) = mset [0..<i]"
  shows "mset (take (Suc i) ((m[i := m ! j])[j := i])) = mset [0..<Suc i]"
proof (cases "j = i")
  case True
  then show ?thesis using assms by (simp add: take_Suc_conv_app_nth)
next
  case False
  with assms have ji: "j < i" by simp
  then have "take (Suc i) ((m[i := m ! j])[j := i]) = (take i m)[j := i] @ [m ! j]"
    using assms by (simp add: take_Suc_conv_app_nth take_update_swap list_update_append)
  moreover have "mset ((take i m)[j := i]) = add_mset i (mset (take i m) - {#m ! j#})"
    using ji assms(2) by (simp add: mset_update)
  moreover have "m ! j \<in># mset (take i m)"
    using ji assms(2) by (metis in_set_conv_nth length_take min.absorb2 nth_take order.strict_implies_order set_mset_mset)
  ultimately show ?thesis using assms(3) by simp
qed

lemma perm_loop_mset:
  assumes "mset (take i m) = mset [0..<i]" and "length m = n" and "i \<le> n"
  shows "mset (fst (perm_loop g m [i..<n])) = mset [0..<n]"
  using assms
proof (induction "n - i" arbitrary: g m i)
  case 0
  then show ?case by simp
next
  case (Suc k)
  then have i: "i < n" "[i..<n] = i # [Suc i..<n]" by (simp_all add: upt_conv_Cons)
  let ?j = "g 0 mod Suc i" and ?g = "\<lambda>k. g (Suc k)"
  let ?m = "(m[i := m ! ?j])[?j := i]"
  have "?j \<le> i" using mod_less_divisor [of "Suc i" "g 0"] by simp
  then have "mset (take (Suc i) ?m) = mset [0..<Suc i]"
    using Suc.prems i(1) by (intro perm_step_mset) simp_all
  then have "mset (fst (perm_loop ?g ?m [Suc i..<n])) = mset [0..<n]"
    using Suc.hyps(2) Suc.prems i(1) by (intro Suc.hyps(1)) simp_all
  then show ?case unfolding i(2) by (simp add: Intn_def)
qed

lemma Perm_mset: "mset (fst (Perm g n)) = mset [0..<n]"
  unfolding Perm_def using perm_loop_mset [of 0 "replicate n 0" n g] by simp

lemma Perm_set [simp]: "set (fst (Perm g n)) = {0..<n}"
  using mset_eq_setD [OF Perm_mset] by simp

lemma Perm_distinct: "distinct (fst (Perm g n))"
  using mset_eq_imp_distinct_iff [OF Perm_mset] by simp

section \<open>Plans\<close>

text \<open>
  A procedure schedules clients through \<open>e.RunClient\<close> and \<open>e.Tcpdump\<close> and returns, fails or
  panics. Its model gives the outcome, the clients in the order they were scheduled, and the
  random source afterwards. \<open>NoReturn\<close> is a loop that is still running when its fuel is used up.
\<close>

datatype 'e outcome = Done | ProcErr 'e | ProcPanic string | NoReturn

definition flows_within :: "gtime \<Rightarrow> gtime \<Rightarrow> client list \<Rightarrow> bool" where
  "flows_within lo hi cs \<longleftrightarrow>
     list_all (\<lambda>c. is_flow c \<longrightarrow> lo \<le> client_start c \<and> client_end c \<le> hi) cs"

text \<open>Every capture of the list spans every flow of the list.\<close>

definition captures_cover :: "client list \<Rightarrow> bool" where
  "captures_cover cs \<longleftrightarrow>
     list_all (\<lambda>d. is_flow d \<or>
       list_all (\<lambda>c. is_flow c \<longrightarrow> client_start d \<le> client_start c \<and> client_end c \<le> client_end d) cs) cs"

lemma flows_within_append [simp]:
  "flows_within lo hi (xs @ ys) \<longleftrightarrow> flows_within lo hi xs \<and> flows_within lo hi ys"
  by (simp add: flows_within_def)

lemma flows_within_Nil [simp]: "flows_within lo hi []"
  by (simp add: flows_within_def)

lemma flows_within_Cons [simp]:
  "flows_within lo hi (c # cs) \<longleftrightarrow>
     (is_flow c \<longrightarrow> lo \<le> client_start c \<and> client_end c \<le> hi) \<and> flows_within lo hi cs"
  by (simp add: flows_within_def)

lemma flows_within_mono:
  "flows_within lo hi cs \<Longrightarrow> lo' \<le> lo \<Longrightarrow> hi \<le> hi' \<Longrightarrow> flows_within lo' hi' cs"
  by (force simp: flows_within_def list_all_iff)

lemma Tcpdump_flows [simp]: "flows_within lo hi (Tcpdump p s d)"
  by (simp add: Tcpdump_def)

lemma captures_cover_flows:
  "list_all is_flow cs \<Longrightarrow> captures_cover cs"
  by (auto simp: captures_cover_def list_all_iff)

lemma captures_cover_Tcpdump:
  assumes "list_all is_flow cs" and "flows_within start (start + d) cs"
  shows "captures_cover (cs @ Tcpdump p start d)"
  using assms by (auto simp: captures_cover_def Tcpdump_def flows_within_def list_all_iff)

section \<open>Properties\<close>

text \<open>\<open>NextRI\<close>: the instant is a whole second at :12, :27, :42 or :57, later than half a second
  after the given time and at most fifteen and a half seconds after it, so an experiment always has
  time to set up; from an instant of reconfiguration it is the next one, exactly 15 seconds
  later.\<close>

theorem NextRI_correct:
  "is_RI (NextRI ts) \<and> ts + second div 2 < NextRI ts \<and> NextRI ts \<le> ts + 15 * second + second div 2 \<and>
   NextRI (NextRI ts) = NextRI ts + 15 * second"
proof -
  let ?b = "round_second ts" and ?s = "time_Second (round_second ts)"
  have "?s + 1 \<le> next_ri_second ?s" "next_ri_second ?s \<le> ?s + 15"
    using next_ri_second_bounds [of ?s] by simp_all
  then have "second \<le> NextRI ts - ?b" and "NextRI ts - ?b \<le> 15 * second"
    by (simp_all add: NextRI_base)
  then show ?thesis
    using round_second_close(1,2) [of ts] NextRI_is_RI NextRI_of_RI [OF NextRI_is_RI] by simp
qed

end
