(* ===== verification/Procedures.thy ===== *)
theory Procedures
  imports Schedule Procedure_Registry "HOL-Library.Signed_Division"
begin

text \<open>
  The experiment procedures of \<open>cmd/scalpel-exp/procedures\<close>, each with its registration: which
  flows and captures it schedules, in which order, at which instants and under which file names.
  \<open>cartesian.Product\<close> is a package outside the repository: an argument (field \<open>pe_Product\<close>),
  given two lists it returns rows of two elements. The wall clock that \<open>tcpri\<close> reads is the field
  \<open>pe_Now\<close>.
\<close>

section \<open>Environment and helpers\<close>

record proc_env =
  pe_IP :: string
  pe_Now :: gtime
  pe_Product :: "u64 list \<Rightarrow> u64 list \<Rightarrow> (u64 \<times> u64) list"

datatype proc_error = ParamErr param_error | TooLong

type_synonym plan = "proc_error outcome \<times> client list \<times> rng"
type_synonym procedure_func = "proc_env \<Rightarrow> gtime \<Rightarrow> string \<Rightarrow> param_map \<Rightarrow> rng \<Rightarrow> plan"

definition product_ok :: "proc_env \<Rightarrow> bool" where
  "product_ok e \<longleftrightarrow> (\<forall>xs ys. set (pe_Product e xs ys) = set xs \<times> set ys)"

definition ratesFor :: "direction \<Rightarrow> param_map \<Rightarrow> param_error + u64 list" where
  "ratesFor d params = (if d = UL then pm_Uints params ''ratesUL'' else pm_Uints params ''ratesDL'')"

definition makeRange :: "nat \<Rightarrow> nat \<Rightarrow> u64 list" where
  "makeRange lo hi = map of_nat [lo..<hi]"

definition PPS :: "direction \<Rightarrow> u64" where
  "PPS d = (case d of UL \<Rightarrow> 200 * 1000000 div 8 div 1400 | DL \<Rightarrow> 500 * 1000000 div 8 div 1400)"

text \<open>\<open>rateMbps * 1e6 / 8 / 1400\<close> on \<open>uint\<close>.\<close>

definition mbps_pps :: "u64 \<Rightarrow> u64" where
  "mbps_pps r = r * 1000000 div 8 div 1400"

definition fixed_pps :: "direction \<Rightarrow> u64" where
  "fixed_pps d = (case d of UL \<Rightarrow> mbps_pps 70 | DL \<Rightarrow> mbps_pps 700)"

definition rate_seg :: "u64 \<Rightarrow> gduration \<Rightarrow> rate_params" where
  "rate_seg pps d = \<lparr>Pps = pps, Interval = millisecond, Duration = d, PayloadSize = 1400\<rparr>"

definition periodic_probe :: "gduration \<Rightarrow> sender" where
  "periodic_probe d = PeriodicSender \<lparr>pe_Interval = millisecond, pe_Duration = d, pe_Pad = 0\<rparr>"

definition icmp_probe :: "gduration \<Rightarrow> sender" where
  "icmp_probe d = ICMPSender \<lparr>i_Duration = d, i_Interval = millisecond, i_ClientEchoID = 0,
     i_SenderEchoID = 0, i_ICMPType = ICMPTypeEchoReply, i_punch = False\<rparr>"

definition flow :: "proc_env \<Rightarrow> string \<Rightarrow> string \<Rightarrow> direction \<Rightarrow> gtime \<Rightarrow> sender \<Rightarrow> client" where
  "flow e resultPath name d start s = SenderClient \<lparr>sc_IP = pe_IP e,
     sc_Out = filepath_Join resultPath name, sc_Direction = d, sc_StartAt = start, sc_Sender = s\<rparr>"

text \<open>\<open>%04d\<close>, \<open>%03d\<close> of an unsigned number.\<close>

abbreviation d4 :: "u64 \<Rightarrow> string" where "d4 n \<equiv> zero_pad 4 (unat n)"
abbreviation d3 :: "u64 \<Rightarrow> string" where "d3 n \<equiv> zero_pad 3 (unat n)"
abbreviation dirs :: "direction \<Rightarrow> string" where "dirs d \<equiv> direction_StringLower d"

definition deadline_of :: "gtime \<Rightarrow> gtime" where
  "deadline_of ts = NextRI ts - second"

section \<open>burst, multiburst\<close>

definition burst_tests :: "proc_env \<Rightarrow> string \<Rightarrow> direction \<Rightarrow> string list \<Rightarrow> u64 \<times> u64 \<Rightarrow> gtime \<Rightarrow> client list" where
  "burst_tests e path d runs arg start =
     (let (num, pad) = arg in
      map (\<lambda>run. flow e path
            (''burst_'' @ dirs d @ ''_'' @ d4 num @ ''_'' @ d4 pad @
             (if length runs = 1 then [] else ''_'' @ nat_dec run) @ ''.csv'')
            d start (BurstSender \<lparr>b_Timeout = 4000 * millisecond, b_Num = num, b_Pad = pad\<rparr>))
          [0..<length runs])"

primrec burst_loop :: "proc_env \<Rightarrow> string \<Rightarrow> direction \<Rightarrow> gtime \<Rightarrow> (u64 \<times> u64) list \<Rightarrow> string list \<Rightarrow>
    nat list \<Rightarrow> gtime \<Rightarrow> client list \<times> gtime" where
  "burst_loop e path d deadline args runs [] start = ([], start)"
| "burst_loop e path d deadline args runs (idx # rest) start =
     (let gap = 4000 * millisecond in
      if start + gap > deadline then ([], start)
      else
        let (cs, stop) = burst_loop e path d deadline args runs rest (start + gap)
        in (burst_tests e path d runs (args ! idx) start @ cs, stop))"

definition run_MultiBurst :: "string list \<Rightarrow> procedure_func" where
  "run_MultiBurst runs e ts path params g =
     (case pm_Direction params of
        Inl err \<Rightarrow> (ProcErr (ParamErr err), [], g)
      | Inr d \<Rightarrow>
          let start = ts + 1 * second;
              deadline = deadline_of ts;
              pad = [0, 700, 1400];
              nums = (if d = UL then [10000] else [3000]);
              args = pe_Product e nums pad;
              (order, g') = Perm g (length args);
              (cs, stop) = burst_loop e path d deadline args runs order start
          in if stop > deadline then (ProcPanic ''Too many tests'', cs, g')
             else (Done, cs @ Tcpdump path ts (15 * second), g'))"

definition Burst :: procedure_func where
  "Burst = run_MultiBurst [''a'']"

definition MultiBurst :: procedure_func where
  "MultiBurst = run_MultiBurst [''a'', ''b'']"

section \<open>cddf\<close>

text \<open>
  The loop draws cooldowns until a test would start after the deadline; a cooldown that was used
  before in this round is drawn again. The source draws without bound: \<open>fuel\<close> bounds the number
  of draws, and running out of it is \<open>None\<close>. The source's check \<open>start != nextStart\<close> compares two
  sums of the same three durations (\<open>start + duration + coolDown + duration\<close>), so its panic is not a
  branch here.
\<close>

primrec cddf_loop :: "nat \<Rightarrow> proc_env \<Rightarrow> string \<Rightarrow> direction \<Rightarrow> gtime \<Rightarrow> nat list \<Rightarrow> gtime \<Rightarrow> rng \<Rightarrow>
    (client list \<times> gtime \<times> rng) option" where
  "cddf_loop 0 e path d deadline coolDowns start g = None"
| "cddf_loop (Suc fuel) e path d deadline coolDowns start g =
     (let (r, g') = Intn g 400;
          coolDownMs = r div 10 * 10;
          coolDownDuration = int coolDownMs * millisecond;
          duration = 800 * millisecond;
          spacing = 2000 * millisecond
      in if coolDownMs \<in> set coolDowns then cddf_loop fuel e path d deadline coolDowns start g'
         else if start > deadline then Some ([], start, g')
         else
           let test = (\<lambda>t suffix. flow e path
                 (''rate_'' @ dirs d @ ''_'' @ zero_pad 4 coolDownMs @ suffix) d t
                 (RateSender [rate_seg (fixed_pps d) duration]));
               start1 = start + duration + coolDownDuration;
               start2 = start1 + duration + spacing
           in map_option (\<lambda>(cs, stop, g''). (test start ''_a.csv'' # test start1 ''_b.csv'' # cs, stop, g''))
                (cddf_loop fuel e path d deadline (coolDowns @ [coolDownMs]) start2 g'))"

definition CoolDownDifferentFlow :: "nat \<Rightarrow> procedure_func" where
  "CoolDownDifferentFlow fuel e ts path params g =
     (case pm_Direction params of
        Inl err \<Rightarrow> (ProcErr (ParamErr err), [], g)
      | Inr d \<Rightarrow>
          (case cddf_loop fuel e path d (deadline_of ts) [] (ts + 1 * second) g of
             None \<Rightarrow> (NoReturn, [], g)
           | Some (cs, stop, g') \<Rightarrow> (Done, cs @ Tcpdump path ts (time_Sub stop ts + second), g')))"

section \<open>cdsf\<close>

text \<open>\<open>rng.Intn(0)\<close> and the division by a zero \<open>step\<close> panic.\<close>

datatype 'a loop_result = LoopEnd 'a | LoopPanic string "client list" | LoopRunning

primrec cdsf_loop :: "nat \<Rightarrow> proc_env \<Rightarrow> string \<Rightarrow> direction \<Rightarrow> gtime \<Rightarrow> u64 \<Rightarrow> u64 \<Rightarrow> u64 \<Rightarrow> nat list \<Rightarrow>
    gtime \<Rightarrow> rng \<Rightarrow> client list \<Rightarrow> (client list \<times> gtime \<times> rng) loop_result" where
  "cdsf_loop 0 e path d deadline rate step maxBreak coolDowns start g acc = LoopRunning"
| "cdsf_loop (Suc fuel) e path d deadline rate step maxBreak coolDowns start g acc =
     (if sint maxBreak \<le> 0 then LoopPanic ''invalid argument to Intn'' acc
      else if step = 0 then LoopPanic ''integer divide by zero'' acc
      else
        let (r, g') = Intn g (unat maxBreak);
            coolDownMs = nat (int r sdiv sint step * sint step);
            coolDownDuration = int64 (int coolDownMs * millisecond);
            duration = 800 * millisecond;
            spacing = 2000 * millisecond
        in if coolDownMs \<in> set coolDowns
           then cdsf_loop fuel e path d deadline rate step maxBreak coolDowns start g' acc
           else
             let nextStart = start + 2 * duration + coolDownDuration in
             if nextStart > deadline then LoopEnd (acc, start, g')
             else
               let pps = mbps_pps rate;
                   c = flow e path
                     (''cdrate_'' @ dirs d @ ''_'' @ d3 rate @ ''_'' @ zero_pad 4 coolDownMs @ ''.csv'')
                     d nextStart
                     (RateSender [rate_seg pps duration, rate_seg 0 coolDownDuration, rate_seg pps duration])
               in cdsf_loop fuel e path d deadline rate step maxBreak (coolDowns @ [coolDownMs])
                    (nextStart + spacing) g' (acc @ [c]))"

definition CoolDownSameFlow :: "nat \<Rightarrow> procedure_func" where
  "CoolDownSameFlow fuel e ts path params g =
     (case pm_Direction params of
        Inl err \<Rightarrow> (ProcErr (ParamErr err), [], g)
      | Inr d \<Rightarrow>
        (case ratesFor d params of
           Inl err \<Rightarrow> (ProcErr (ParamErr err), [], g)
         | Inr rates \<Rightarrow>
           if rates = [] then (ProcPanic ''invalid argument to Intn'', [], g)
           else
             let (rateIdx, g1) = Intn g (length rates); rate = rates ! rateIdx in
             (case pm_Uint params ''step'' of
                Inl err \<Rightarrow> (ProcErr (ParamErr err), [], g1)
              | Inr step \<Rightarrow>
                (case pm_Uint params ''max'' of
                   Inl err \<Rightarrow> (ProcErr (ParamErr err), [], g1)
                 | Inr maxBreak \<Rightarrow>
                   (case cdsf_loop fuel e path d (deadline_of ts) rate step maxBreak [] (ts + 1 * second) g1 [] of
                      LoopRunning \<Rightarrow> (NoReturn, [], g1)
                    | LoopPanic m cs \<Rightarrow> (ProcPanic m, cs, g1)
                    | LoopEnd (cs, stop, g') \<Rightarrow>
                        (if stop > NextRI ts + second then ProcErr TooLong else Done,
                         cs @ Tcpdump path ts (time_Sub stop ts + second), g'))))))"

section \<open>durationtcp\<close>

text \<open>\<open>cca.String()\<close> panics on a value that is none of the constants.\<close>

definition durationtcp_tests :: "proc_env \<Rightarrow> string \<Rightarrow> direction \<Rightarrow> tcpcca \<Rightarrow> string \<Rightarrow> u64 \<Rightarrow> gtime \<Rightarrow>
    client list" where
  "durationtcp_tests e path d cca name durationMs start =
     (let duration = ms_duration durationMs;
          c = (\<lambda>kind s. flow e path (kind @ dirs d @ ''_'' @ name @ ''_'' @ d4 durationMs @ ''.csv'') d start s)
      in [c ''tcp_'' (TCPSender \<lparr>t_Duration = duration, t_Bytes = 0, t_CCA = cca\<rparr>),
          c ''owd-icmp_'' (icmp_probe duration),
          c ''owd-udp_'' (periodic_probe duration)])"

primrec durationtcp_loop :: "proc_env \<Rightarrow> string \<Rightarrow> direction \<Rightarrow> gtime \<Rightarrow> tcpcca list \<Rightarrow> (u64 \<times> u64) list \<Rightarrow>
    nat list \<Rightarrow> gtime \<Rightarrow> client list \<Rightarrow> (client list \<times> gtime) loop_result" where
  "durationtcp_loop e path d deadline ccas args [] start acc = LoopEnd (acc, start)"
| "durationtcp_loop e path d deadline ccas args (idx # rest) start acc =
     (let (durationMs, i) = args ! idx;
          duration = ms_duration durationMs;
          cca = ccas ! unat i;
          nextStart = start + duration + 2000 * millisecond
      in if nextStart > deadline then LoopEnd (acc, start)
         else case cca_String cca of
           Panics m \<Rightarrow> LoopPanic m acc
         | Returns name \<Rightarrow>
             durationtcp_loop e path d deadline ccas args rest nextStart
               (acc @ durationtcp_tests e path d cca name durationMs start))"

definition DurationTCP :: procedure_func where
  "DurationTCP e ts path params g =
     (case pm_Direction params of
        Inl err \<Rightarrow> (ProcErr (ParamErr err), [], g)
      | Inr d \<Rightarrow>
        (case pm_TCPCCAs params ''ccas'' of
           Inl err \<Rightarrow> (ProcErr (ParamErr err), [], g)
         | Inr ccas \<Rightarrow>
           (case pm_Uints params ''durations'' of
              Inl err \<Rightarrow> (ProcErr (ParamErr err), [], g)
            | Inr durationsMs \<Rightarrow>
                let deadline = deadline_of ts;
                    args = pe_Product e durationsMs (makeRange 0 (length ccas));
                    (order, g') = Perm g (length args)
                in (case durationtcp_loop e path d deadline ccas args order (ts + 1 * second) [] of
                      LoopRunning \<Rightarrow> (NoReturn, [], g')
                    | LoopPanic m cs \<Rightarrow> (ProcPanic m, cs, g')
                    | LoopEnd (cs, stop) \<Rightarrow>
                        if stop > deadline then (ProcPanic ''Too many tests'', cs, g')
                        else (Done, cs @ Tcpdump path ts (15 * second), g')))))"

section \<open>mouseeleph\<close>

text \<open>The only offset of the source's list is 0, so the branch for negative offsets is not
  taken; it is kept.\<close>

definition mouseeleph_tests :: "proc_env \<Rightarrow> string \<Rightarrow> direction \<Rightarrow> u64 \<Rightarrow> u64 \<Rightarrow> gduration \<Rightarrow> nat \<Rightarrow> gtime \<Rightarrow>
    client list \<times> gduration" where
  "mouseeleph_tests e path d elephMbps mouseMbps offset i start =
     (let duration = 4000 * millisecond;
          (startEleph, startMouse, durationMouse) =
            (if offset \<ge> 0 then (start, start + offset, duration)
             else (start + (- offset), start, 2 * duration))
      in ([flow e path (dirs d @ ''_'' @ nat_dec i @ ''_eleph_'' @ d3 elephMbps @ ''.csv'') d startEleph
             (RateSender [rate_seg (mbps_pps elephMbps) duration]),
           flow e path (dirs d @ ''_'' @ nat_dec i @ ''_mouse_'' @ d3 mouseMbps @ ''.csv'') d startMouse
             (RateSender [rate_seg (mbps_pps mouseMbps) durationMouse])],
          durationMouse))"

primrec mouseeleph_loop :: "proc_env \<Rightarrow> string \<Rightarrow> direction \<Rightarrow> gtime \<Rightarrow> u64 \<Rightarrow> u64 list \<Rightarrow> gduration \<Rightarrow>
    (nat \<times> nat) list \<Rightarrow> gtime \<Rightarrow> client list \<times> gtime" where
  "mouseeleph_loop e path d deadline elephMbps mice offset [] start = ([], start)"
| "mouseeleph_loop e path d deadline elephMbps mice offset (x # rest) start =
     (let (i, idx) = x;
          (cs, durationMouse) = mouseeleph_tests e path d elephMbps (mice ! idx) offset i start;
          spacing = 3000 * millisecond;
          start' = start + durationMouse + spacing
      in if start' + durationMouse > deadline then (cs, start')
         else let (cs', stop) = mouseeleph_loop e path d deadline elephMbps mice offset rest start'
              in (cs @ cs', stop))"

definition MouseElephantFlows :: procedure_func where
  "MouseElephantFlows e ts path params g =
     (case pm_Direction params of
        Inl err \<Rightarrow> (ProcErr (ParamErr err), [], g)
      | Inr d \<Rightarrow>
        (case (if d = UL then pm_Uints params ''miceUL'' else pm_Uints params ''miceDL'') of
           Inl err \<Rightarrow> (ProcErr (ParamErr err), [], g)
         | Inr mice \<Rightarrow>
             let elephMbps = (if d = UL then 140 else 250);
                 (order, g') = Perm g (length mice);
                 (cs, stop) = mouseeleph_loop e path d (deadline_of ts) elephMbps mice 0 (enumerate 0 order) (ts + 1 * second)
             in (Done, cs @ Tcpdump path ts (time_Sub stop ts + second), g')))"

section \<open>multidurrate\<close>

text \<open>The inner loop breaks out of the durations of one rate only; the outer loop goes on, each
  rate with its own permutation of the durations.\<close>

definition multidur_tests :: "proc_env \<Rightarrow> string \<Rightarrow> direction \<Rightarrow> u64 \<Rightarrow> u64 \<Rightarrow> gtime \<Rightarrow> client list" where
  "multidur_tests e path d rateMbps durationMs start =
     (let duration = ms_duration durationMs;
          c = (\<lambda>kind s. flow e path (kind @ dirs d @ ''_'' @ d3 rateMbps @ ''_'' @ d4 durationMs @ ''.csv'') d start s)
      in [c ''rate_'' (RateSender [rate_seg (mbps_pps rateMbps) duration]),
          c ''owd-icmp_'' (icmp_probe duration),
          c ''owd-udp_'' (periodic_probe duration)])"

primrec multidur_inner :: "proc_env \<Rightarrow> string \<Rightarrow> direction \<Rightarrow> gtime \<Rightarrow> u64 \<Rightarrow> u64 list \<Rightarrow> nat list \<Rightarrow> gtime \<Rightarrow>
    client list \<times> gtime" where
  "multidur_inner e path d deadline rateMbps durationsMs [] start = ([], start)"
| "multidur_inner e path d deadline rateMbps durationsMs (idx # rest) start =
     (let durationMs = durationsMs ! idx;
          duration = ms_duration durationMs;
          gap = 2000 * millisecond
      in if start + duration + gap > deadline then ([], start)
         else
           let (cs, stop) = multidur_inner e path d deadline rateMbps durationsMs rest (start + duration + gap)
           in (multidur_tests e path d rateMbps durationMs start @ cs, stop))"

primrec multidur_outer :: "proc_env \<Rightarrow> string \<Rightarrow> direction \<Rightarrow> gtime \<Rightarrow> u64 list \<Rightarrow> u64 list \<Rightarrow> nat list \<Rightarrow> gtime \<Rightarrow>
    rng \<Rightarrow> client list \<times> gtime \<times> rng" where
  "multidur_outer e path d deadline rates durationsMs [] start g = ([], start, g)"
| "multidur_outer e path d deadline rates durationsMs (rateIdx # rest) start g =
     (let (order, g1) = Perm g (length durationsMs);
          (cs, stop) = multidur_inner e path d deadline (rates ! rateIdx) durationsMs order start;
          (cs', stop', g2) = multidur_outer e path d deadline rates durationsMs rest stop g1
      in (cs @ cs', stop', g2))"

definition MultiDurationRate :: procedure_func where
  "MultiDurationRate e ts path params g =
     (case pm_Direction params of
        Inl err \<Rightarrow> (ProcErr (ParamErr err), [], g)
      | Inr d \<Rightarrow>
        (case pm_Uints params ''durations'' of
           Inl err \<Rightarrow> (ProcErr (ParamErr err), [], g)
         | Inr durationsMs \<Rightarrow>
           (case ratesFor d params of
              Inl err \<Rightarrow> (ProcErr (ParamErr err), [], g)
            | Inr rates \<Rightarrow>
                let deadline = deadline_of ts;
                    (order, g1) = Perm g (length rates);
                    (cs, stop, g') = multidur_outer e path d deadline rates durationsMs order (ts + 1 * second) g1
                in if stop > deadline then (ProcPanic ''Too many tests'', cs, g')
                   else (Done, cs @ Tcpdump path ts (15 * second), g'))))"

section \<open>multiflow\<close>

definition multiflow_offsets :: "gduration list" where
  "multiflow_offsets = map (\<lambda>k. int k * 100 * millisecond) [0..<8]"

text \<open>\<open>offset.Milliseconds()\<close> of the offsets is exact.\<close>

definition multiflow_tests :: "proc_env \<Rightarrow> string \<Rightarrow> direction \<Rightarrow> gduration \<Rightarrow> gtime \<Rightarrow> client list" where
  "multiflow_tests e path d offset start =
     (let duration = 800 * millisecond;
          name = (\<lambda>suffix. ''rate_'' @ dirs d @ ''_'' @ zero_pad 4 (nat (offset div millisecond)) @ suffix)
      in [flow e path (name ''_a.csv'') d start (RateSender [rate_seg (fixed_pps d) duration]),
          flow e path (name ''_b.csv'') d (start + offset)
            (RateSender [rate_seg (fixed_pps d) (duration + (duration - offset))])])"

primrec multiflow_loop :: "proc_env \<Rightarrow> string \<Rightarrow> direction \<Rightarrow> gtime \<Rightarrow> nat list \<Rightarrow> gtime \<Rightarrow> client list \<times> gtime"
where
  "multiflow_loop e path d deadline [] start = ([], start)"
| "multiflow_loop e path d deadline (idx # rest) start =
     (let offset = multiflow_offsets ! idx;
          duration = 800 * millisecond;
          spacing = 2000 * millisecond;
          cs = multiflow_tests e path d offset start;
          start' = start + offset + duration + spacing
      in if start' + 2 * duration + spacing > deadline then (cs, start')
         else let (cs', stop) = multiflow_loop e path d deadline rest start' in (cs @ cs', stop))"

definition MultiFlow :: procedure_func where
  "MultiFlow e ts path params g =
     (case pm_Direction params of
        Inl err \<Rightarrow> (ProcErr (ParamErr err), [], g)
      | Inr d \<Rightarrow>
          let (order, g') = Perm g (length multiflow_offsets);
              (cs, stop) = multiflow_loop e path d (deadline_of ts) order (ts + 1 * second)
          in (Done, cs @ Tcpdump path ts (time_Sub stop ts + second), g'))"

section \<open>owd, owdbidir\<close>

text \<open>Without a direction, both directions in one invocation (shared by \<open>owd\<close> and \<open>rate\<close>).\<close>

definition flow_directions :: "param_map \<Rightarrow> param_error + direction list" where
  "flow_directions params =
     (if params ''direction'' \<noteq> None
      then (case pm_Direction params of Inl err \<Rightarrow> Inl err | Inr d \<Rightarrow> Inr [d])
      else Inr [DL, UL])"

definition MeasOWD :: procedure_func where
  "MeasOWD e ts path params g =
     (case flow_directions params of
        Inl err \<Rightarrow> (ProcErr (ParamErr err), [], g)
      | Inr directions \<Rightarrow>
        (case pm_Uint params ''duration_ms'' of
           Inl err \<Rightarrow> (ProcErr (ParamErr err), [], g)
         | Inr durationMs \<Rightarrow>
             let start = ts + 5 * second;
                 duration = ms_duration durationMs;
                 cs = concat (map (\<lambda>d.
                   [flow e path (''owd-udp_'' @ dirs d @ ''.csv'') d start (periodic_probe duration),
                    flow e path (''owd-icmp_'' @ dirs d @ ''.csv'') d start (icmp_probe duration)]) directions)
             in (Done, cs @ Tcpdump path ts (5 * second + duration + 2 * second), g)))"

section \<open>packetdur\<close>

text \<open>\<open>1000 / durationMs\<close> is an integer division; a zero duration panics. The check after a
  test uses the duration of that test, not of the next one.\<close>

primrec packetdur_loop :: "proc_env \<Rightarrow> string \<Rightarrow> direction \<Rightarrow> gtime \<Rightarrow> (u64 \<times> u64) list \<Rightarrow> nat list \<Rightarrow> gtime \<Rightarrow>
    client list \<Rightarrow> (client list \<times> gtime) loop_result" where
  "packetdur_loop e path d deadline args [] start acc = LoopEnd (acc, start)"
| "packetdur_loop e path d deadline args (idx # rest) start acc =
     (let (durationMs, packets) = args ! idx; duration = ms_duration durationMs in
      if durationMs = 0 then LoopPanic ''integer divide by zero'' acc
      else
        let pps = packets * (1000 div durationMs);
            c = flow e path (''packets_'' @ dirs d @ ''_'' @ d4 packets @ ''_'' @ d4 durationMs @ ''.csv'') d start
                  (RateSender [rate_seg pps duration]);
            start' = start + duration + 2000 * millisecond
        in if start' + duration > deadline then LoopEnd (acc @ [c], start')
           else packetdur_loop e path d deadline args rest start' (acc @ [c]))"

definition PacketsDuration :: procedure_func where
  "PacketsDuration e ts path params g =
     (case pm_Direction params of
        Inl err \<Rightarrow> (ProcErr (ParamErr err), [], g)
      | Inr d \<Rightarrow>
        (case pm_Uints params ''durations'' of
           Inl err \<Rightarrow> (ProcErr (ParamErr err), [], g)
         | Inr durationsMs \<Rightarrow>
           (case pm_Uints params ''packets'' of
              Inl err \<Rightarrow> (ProcErr (ParamErr err), [], g)
            | Inr numPackets \<Rightarrow>
                let args = pe_Product e durationsMs numPackets;
                    (order, g') = Perm g (length args)
                in (case packetdur_loop e path d (deadline_of ts) args order (ts + 1 * second) [] of
                      LoopRunning \<Rightarrow> (NoReturn, [], g')
                    | LoopPanic m cs \<Rightarrow> (ProcPanic m, cs, g')
                    | LoopEnd (cs, stop) \<Rightarrow> (Done, cs @ Tcpdump path ts (15 * second), g')))))"

section \<open>progdurquic\<close>

definition progdurquic_test :: "proc_env \<Rightarrow> string \<Rightarrow> direction \<Rightarrow> u64 \<Rightarrow> gtime \<Rightarrow> client" where
  "progdurquic_test e path d durationMs start =
     flow e path (''quic_'' @ dirs d @ ''_'' @ d4 durationMs @ ''.csv'') d start
       (QUICSender \<lparr>q_Duration = ms_duration durationMs, q_Bytes = 2 ^ 32\<rparr>)"

primrec progdurquic_loop :: "proc_env \<Rightarrow> string \<Rightarrow> direction \<Rightarrow> gtime \<Rightarrow> u64 list \<Rightarrow> nat list \<Rightarrow> gtime \<Rightarrow>
    client list \<times> gtime" where
  "progdurquic_loop e path d deadline durationsMs [] start = ([], start)"
| "progdurquic_loop e path d deadline durationsMs (idx # rest) start =
     (let durationMs = durationsMs ! idx;
          duration = ms_duration durationMs;
          nextStart = start + duration + 1000 * millisecond
      in if nextStart > deadline then ([], start)
         else
           let (cs, stop) = progdurquic_loop e path d deadline durationsMs rest nextStart
           in (progdurquic_test e path d durationMs start # cs, stop))"

definition ProgressiveDurationQUIC :: procedure_func where
  "ProgressiveDurationQUIC e ts path params g =
     (case pm_Direction params of
        Inl err \<Rightarrow> (ProcErr (ParamErr err), [], g)
      | Inr d \<Rightarrow>
        (case pm_Uints params ''durations'' of
           Inl err \<Rightarrow> (ProcErr (ParamErr err), [], g)
         | Inr durationsMs \<Rightarrow>
             let deadline = deadline_of ts;
                 (order, g') = Perm g (length durationsMs);
                 (cs, stop) = progdurquic_loop e path d deadline durationsMs order (ts + 1 * second)
             in if stop > deadline then (ProcPanic ''Too many tests'', cs, g')
                else (Done, cs @ Tcpdump path ts (15 * second), g')))"

section \<open>prograte, rampupprobe\<close>

text \<open>The two procedures have the same body; only their registered defaults differ.\<close>

primrec prograte_loop :: "proc_env \<Rightarrow> string \<Rightarrow> direction \<Rightarrow> u64 list \<Rightarrow> nat list \<Rightarrow> gtime \<Rightarrow> client list \<times> gtime"
where
  "prograte_loop e path d durationsMs [] start = ([], start)"
| "prograte_loop e path d durationsMs (idx # rest) start =
     (let durationMs = durationsMs ! idx;
          duration = ms_duration durationMs;
          gap = (if durationMs < 1000 then 500 * millisecond else 1500 * millisecond);
          c = flow e path (''rate_'' @ dirs d @ ''_'' @ d4 durationMs @ ''.csv'') d start
                (RateSender [rate_seg (fixed_pps d) duration]);
          (cs, stop) = prograte_loop e path d durationsMs rest (start + duration + gap)
      in (c # cs, stop))"

definition ProgressiveRate :: procedure_func where
  "ProgressiveRate e ts path params g =
     (case pm_Direction params of
        Inl err \<Rightarrow> (ProcErr (ParamErr err), [], g)
      | Inr d \<Rightarrow>
        (case pm_Uints params ''durations'' of
           Inl err \<Rightarrow> (ProcErr (ParamErr err), [], g)
         | Inr durationsMs \<Rightarrow>
             let (order, g') = Perm g (length durationsMs);
                 (cs, stop) = prograte_loop e path d durationsMs order (ts + 1 * second)
             in if stop > deadline_of ts then (ProcPanic ''Too many tests'', cs, g')
                else (Done, cs @ Tcpdump path ts (15 * second), g')))"

definition RampUpProbe :: procedure_func where
  "RampUpProbe e ts path params g =
     (case pm_Direction params of
        Inl err \<Rightarrow> (ProcErr (ParamErr err), [], g)
      | Inr d \<Rightarrow>
        (case pm_Uints params ''durations'' of
           Inl err \<Rightarrow> (ProcErr (ParamErr err), [], g)
         | Inr durationsMs \<Rightarrow>
             let (order, g') = Perm g (length durationsMs);
                 (cs, stop) = prograte_loop e path d durationsMs order (ts + 1 * second)
             in if stop > deadline_of ts then (ProcPanic ''Too many tests'', cs, g')
                else (Done, cs @ Tcpdump path ts (15 * second), g')))"

section \<open>simplequic\<close>

definition QUIC :: procedure_func where
  "QUIC e ts path params g =
     (case pm_Direction params of
        Inl err \<Rightarrow> (ProcErr (ParamErr err), [], g)
      | Inr d \<Rightarrow>
          let start = ts + 1 * second;
              stop = start + 7 * second + 5 * second
          in (Done,
              [flow e path (''quic_'' @ dirs d @ ''_10M.csv'') d start
                 (QUICSender \<lparr>q_Duration = 5 * second, q_Bytes = 10000000\<rparr>),
               flow e path (''quic_'' @ dirs d @ ''_unlim.csv'') d (start + 7 * second)
                 (QUICSender \<lparr>q_Duration = 5 * second, q_Bytes = 2 ^ 32\<rparr>)] @
              Tcpdump path ts (time_Sub stop ts + second), g))"

section \<open>rate, ratebidir\<close>

definition MeasRate :: procedure_func where
  "MeasRate e ts path params g =
     (case flow_directions params of
        Inl err \<Rightarrow> (ProcErr (ParamErr err), [], g)
      | Inr directions \<Rightarrow>
        (case pm_Uint params ''duration_ms'' of
           Inl err \<Rightarrow> (ProcErr (ParamErr err), [], g)
         | Inr durationMs \<Rightarrow>
             let start = ts + 5 * second;
                 duration = ms_duration durationMs
             in (Done, concat (map (\<lambda>d.
                   [flow e path (''rate_'' @ dirs d @ ''.csv'') d start (RateSender [rate_seg (PPS d) duration]),
                    flow e path (''owd-icmp_'' @ dirs d @ ''.csv'') d start (icmp_probe duration),
                    flow e path (''owd-udp_'' @ dirs d @ ''.csv'') d start (periodic_probe duration)])
                   directions), g)))"

section \<open>rateri\<close>

definition RateRI :: procedure_func where
  "RateRI e ts path params g =
     (case pm_Direction params of
        Inl err \<Rightarrow> (ProcErr (ParamErr err), [], g)
      | Inr d \<Rightarrow>
        (case ratesFor d params of
           Inl err \<Rightarrow> (ProcErr (ParamErr err), [], g)
         | Inr rates \<Rightarrow>
           if rates = [] then (ProcPanic ''invalid argument to Intn'', [], g)
           else
             let duration = 3000 * millisecond;
                 start = ts - duration div 2;
                 (i, g') = Intn g (length rates);
                 rateMbps = rates ! i;
                 c = (\<lambda>kind s. flow e path (kind @ dirs d @ ''_'' @ d3 rateMbps @ ''_'' @ d4 3000 @ ''.csv'') d start s)
             in (Done,
                 [c ''rateri_'' (RateSender [rate_seg (mbps_pps rateMbps) duration]),
                  c ''owd-icmp_'' (icmp_probe duration),
                  c ''owd-udp_'' (periodic_probe duration)] @
                 Tcpdump path (start - second) (5 * second), g')))"

section \<open>switchflow\<close>

definition switchflow_tests :: "proc_env \<Rightarrow> string \<Rightarrow> direction \<Rightarrow> u64 \<Rightarrow> gtime \<Rightarrow> client list" where
  "switchflow_tests e path d rate start =
     (let duration = 800 * millisecond;
          c = (\<lambda>suffix t. flow e path (''rate_'' @ dirs d @ ''_'' @ d4 rate @ suffix) d t
                 (RateSender [rate_seg (mbps_pps rate) duration]))
      in [c ''_a.csv'' start, c ''_b.csv'' (start + duration)])"

primrec switchflow_loop :: "proc_env \<Rightarrow> string \<Rightarrow> direction \<Rightarrow> gtime \<Rightarrow> u64 list \<Rightarrow> nat list \<Rightarrow> gtime \<Rightarrow>
    client list \<times> gtime" where
  "switchflow_loop e path d deadline rates [] start = ([], start)"
| "switchflow_loop e path d deadline rates (idx # rest) start =
     (let duration = 800 * millisecond;
          spacing = 2000 * millisecond;
          cs = switchflow_tests e path d (rates ! idx) start;
          start' = start + duration + duration + spacing
      in if start' + 2 * duration + spacing > deadline then (cs, start')
         else let (cs', stop) = switchflow_loop e path d deadline rates rest start' in (cs @ cs', stop))"

definition SwitchFlow :: procedure_func where
  "SwitchFlow e ts path params g =
     (case pm_Direction params of
        Inl err \<Rightarrow> (ProcErr (ParamErr err), [], g)
      | Inr d \<Rightarrow>
          let rates = (if d = UL then [20, 40, 70] else [200, 250, 300, 700]);
              (order, g') = Perm g (length rates);
              (cs, stop) = switchflow_loop e path d (deadline_of ts) rates order (ts + 1 * second)
          in (Done, cs @ Tcpdump path ts (time_Sub stop ts + second), g'))"

section \<open>tcpri\<close>

definition DurationTCPRI :: procedure_func where
  "DurationTCPRI e ts path params g =
     (case pm_Direction params of
        Inl err \<Rightarrow> (ProcErr (ParamErr err), [], g)
      | Inr d \<Rightarrow>
        (case pm_TCPCCAs params ''ccas'' of
           Inl err \<Rightarrow> (ProcErr (ParamErr err), [], g)
         | Inr ccas \<Rightarrow>
             let duration = 12000 * millisecond;
                 start0 = ts - duration div 2;
                 start = (if time_Sub start0 (pe_Now e) < 2 * second then start0 + 15 * second else start0);
                 maxIdx = length ccas + 1;
                 (idx, g') = Intn g maxIdx;
                 suffix = (\<lambda>name. dirs d @ ''_'' @ name @ ''_'' @ d4 12000 @ ''.csv'');
                 rest = (\<lambda>suf.
                   [flow e path (''owd-icmp_'' @ suf) d start (icmp_probe duration),
                    flow e path (''owd-udp_'' @ suf) d start (periodic_probe duration)] @
                   Tcpdump path (start - second) (duration + 2 * second))
             in if idx = maxIdx - 1 then
                  let rateMbps = (if d = UL then 200 else 500); suf = suffix (d3 rateMbps) in
                  (Done, flow e path (''udp_'' @ suf) d start
                     (RateSender [rate_seg (mbps_pps rateMbps) duration]) # rest suf, g')
                else (case cca_String (ccas ! idx) of
                   Panics m \<Rightarrow> (ProcPanic m, [], g')
                 | Returns name \<Rightarrow>
                     (Done, flow e path (''tcp_'' @ suffix name) d start
                        (TCPSender \<lparr>t_Duration = duration, t_Bytes = 0, t_CCA = ccas ! idx\<rparr>) # rest (suffix name), g'))))"

section \<open>trace\<close>

definition TraceRi :: procedure_func where
  "TraceRi e ts path params g =
     (let owdStart = ts + 7 * second; rateStart = ts + 11 * second in
      (Done,
       [flow e path ''owd_ul.csv'' UL owdStart (periodic_probe (3 * second)),
        flow e path ''owd_dl.csv'' DL owdStart (periodic_probe (3 * second)),
        flow e path ''rate_ul.csv'' UL rateStart (RateSender [rate_seg (mbps_pps 70) (10 * second)]),
        flow e path ''rate_dl.csv'' DL rateStart (RateSender [rate_seg (mbps_pps 700) (10 * second)])] @
       Tcpdump path (owdStart - 500 * millisecond) (16 * second), g))"

section \<open>Registrations\<close>

definition uints :: "string \<Rightarrow> u64 list \<Rightarrow> param_spec" where
  "uints name d = \<lparr>sp_Name = name, sp_Default = PUints d\<rparr>"

definition uint_spec :: "string \<Rightarrow> u64 \<Rightarrow> param_spec" where
  "uint_spec name d = \<lparr>sp_Name = name, sp_Default = PUint d\<rparr>"

definition ccas_spec :: param_spec where
  "ccas_spec = \<lparr>sp_Name = ''ccas'', sp_Default = PTCPCCAs TCPCCAS\<rparr>"

definition owdParams :: "param_spec list" where
  "owdParams = [uint_spec ''duration_ms'' 60000]"

definition rateParams :: "param_spec list" where
  "rateParams = [uint_spec ''duration_ms'' 60000]"

definition per_direction :: "string \<Rightarrow> procedure_func \<Rightarrow> param_spec list \<Rightarrow> procedure_func procedure" where
  "per_direction name run specs = \<lparr>p_Name = name, p_Mode = PerDirection, p_SupportsDirection = False,
     p_Run = Some run, p_Params = specs\<rparr>"

definition once_per_round :: "string \<Rightarrow> bool \<Rightarrow> procedure_func \<Rightarrow> param_spec list \<Rightarrow> procedure_func procedure" where
  "once_per_round name sd run specs = \<lparr>p_Name = name, p_Mode = OncePerRound, p_SupportsDirection = sd,
     p_Run = Some run, p_Params = specs\<rparr>"

text \<open>The \<open>init\<close> function of each file; \<open>fuel\<close> bounds the draws of the two procedures that draw
  cooldowns. The package runs them in the order of the file names.\<close>

definition init_burst :: "procedure_func procedure list" where
  "init_burst =
     [per_direction ''burst'' Burst [], per_direction ''multiburst'' MultiBurst []]"

definition init_cddf :: "nat \<Rightarrow> procedure_func procedure list" where
  "init_cddf fuel =
     [per_direction ''cddf'' (CoolDownDifferentFlow fuel) []]"

definition init_cdsf :: "nat \<Rightarrow> procedure_func procedure list" where
  "init_cdsf fuel =
     [per_direction ''cdsf'' (CoolDownSameFlow fuel)
       [uints ''ratesUL'' [140], uints ''ratesDL'' [500], uint_spec ''step'' 50, uint_spec ''max'' 600]]"

definition init_durationtcp :: "procedure_func procedure list" where
  "init_durationtcp =
     [per_direction ''durationtcp'' DurationTCP [uints ''durations'' [4000], ccas_spec]]"

definition init_mouseeleph :: "procedure_func procedure list" where
  "init_mouseeleph =
     [per_direction ''mouseeleph'' MouseElephantFlows
       [uints ''miceUL'' [1, 5, 10, 20, 35, 70, 140], uints ''miceDL'' [1, 50, 100, 150, 250]]]"

definition init_multidurrate :: "procedure_func procedure list" where
  "init_multidurrate =
     [per_direction ''multidurrate'' MultiDurationRate
       [uints ''durations'' [1000, 4000], uints ''ratesUL'' [140], uints ''ratesDL'' [500]]]"

definition init_multiflow :: "procedure_func procedure list" where
  "init_multiflow =
     [per_direction ''multiflow'' MultiFlow []]"

definition init_owd :: "procedure_func procedure list" where
  "init_owd =
     [per_direction ''owd'' MeasOWD owdParams, once_per_round ''owdbidir'' True MeasOWD owdParams]"

definition init_packetdur :: "procedure_func procedure list" where
  "init_packetdur =
     [per_direction ''packetdur'' PacketsDuration
       [uints ''durations'' [10, 15, 20, 30, 35, 40, 50, 60, 70, 80, 100, 150, 200, 400],
        uints ''packets'' [1400]]]"

definition init_progdurquic :: "procedure_func procedure list" where
  "init_progdurquic =
     [per_direction ''progdurquic'' ProgressiveDurationQUIC [uints ''durations'' [100, 400, 1000, 5000]]]"

definition init_prograte :: "procedure_func procedure list" where
  "init_prograte =
     [per_direction ''prograte'' ProgressiveRate [uints ''durations'' [100, 200, 300, 350, 400, 450, 500]]]"

definition init_simplequic :: "procedure_func procedure list" where
  "init_simplequic =
     [per_direction ''simplequic'' QUIC []]"

definition init_rampupprobe :: "procedure_func procedure list" where
  "init_rampupprobe =
     [per_direction ''rampupprobe'' RampUpProbe [uints ''durations'' [400]]]"

definition init_rate :: "procedure_func procedure list" where
  "init_rate =
     [per_direction ''rate'' MeasRate rateParams, once_per_round ''ratebidir'' True MeasRate rateParams]"

definition init_rateri :: "procedure_func procedure list" where
  "init_rateri =
     [per_direction ''rateri'' RateRI [uints ''ratesUL'' [10, 70], uints ''ratesDL'' [50, 700]]]"

definition init_switchflow :: "procedure_func procedure list" where
  "init_switchflow =
     [per_direction ''switchflow'' SwitchFlow []]"

definition init_tcpri :: "procedure_func procedure list" where
  "init_tcpri =
     [per_direction ''tcpri'' DurationTCPRI [ccas_spec]]"

definition init_trace :: "procedure_func procedure list" where
  "init_trace =
     [once_per_round ''trace'' False TraceRi []]"

definition registrations :: "nat \<Rightarrow> procedure_func procedure list" where
  "registrations fuel =
     init_burst @ init_cddf fuel @ init_cdsf fuel @ init_durationtcp @ init_mouseeleph @
     init_multidurrate @ init_multiflow @ init_owd @ init_packetdur @ init_progdurquic @
     init_prograte @ init_simplequic @ init_rampupprobe @ init_rate @ init_rateri @
     init_switchflow @ init_tcpri @ init_trace"

definition the_registry :: "nat \<Rightarrow> procedure_func registry panics" where
  "the_registry fuel = register_all Map.empty (registrations fuel)"

lemmas init_defs = init_burst_def init_cddf_def init_cdsf_def init_durationtcp_def init_mouseeleph_def init_multidurrate_def init_multiflow_def init_owd_def init_packetdur_def
  init_progdurquic_def init_prograte_def init_simplequic_def init_rampupprobe_def init_rate_def init_rateri_def init_switchflow_def init_tcpri_def init_trace_def

lemma registrations_list:
  "registrations fuel =
     [per_direction ''burst'' Burst [], per_direction ''multiburst'' MultiBurst [],
      per_direction ''cddf'' (CoolDownDifferentFlow fuel) [],
      per_direction ''cdsf'' (CoolDownSameFlow fuel)
        [uints ''ratesUL'' [140], uints ''ratesDL'' [500], uint_spec ''step'' 50, uint_spec ''max'' 600],
      per_direction ''durationtcp'' DurationTCP [uints ''durations'' [4000], ccas_spec],
      per_direction ''mouseeleph'' MouseElephantFlows
        [uints ''miceUL'' [1, 5, 10, 20, 35, 70, 140], uints ''miceDL'' [1, 50, 100, 150, 250]],
      per_direction ''multidurrate'' MultiDurationRate
        [uints ''durations'' [1000, 4000], uints ''ratesUL'' [140], uints ''ratesDL'' [500]],
      per_direction ''multiflow'' MultiFlow [],
      per_direction ''owd'' MeasOWD owdParams, once_per_round ''owdbidir'' True MeasOWD owdParams,
      per_direction ''packetdur'' PacketsDuration
        [uints ''durations'' [10, 15, 20, 30, 35, 40, 50, 60, 70, 80, 100, 150, 200, 400],
         uints ''packets'' [1400]],
      per_direction ''progdurquic'' ProgressiveDurationQUIC [uints ''durations'' [100, 400, 1000, 5000]],
      per_direction ''prograte'' ProgressiveRate [uints ''durations'' [100, 200, 300, 350, 400, 450, 500]],
      per_direction ''simplequic'' QUIC [],
      per_direction ''rampupprobe'' RampUpProbe [uints ''durations'' [400]],
      per_direction ''rate'' MeasRate rateParams, once_per_round ''ratebidir'' True MeasRate rateParams,
      per_direction ''rateri'' RateRI [uints ''ratesUL'' [10, 70], uints ''ratesDL'' [50, 700]],
      per_direction ''switchflow'' SwitchFlow [],
      per_direction ''tcpri'' DurationTCPRI [ccas_spec],
      once_per_round ''trace'' False TraceRi []]"
  by (simp add: registrations_def init_defs)

end
