(* ===== verification/Schedule_Theorems.thy ===== *)
theory Schedule_Theorems
  imports Procedures
begin

text \<open>
  What the procedures of theory \<open>Procedures\<close> schedule: flows stay between the instant the
  procedure was started for and the next reconfiguration, and every packet capture spans every
  flow. Two interfaces carry the proofs: \<open>checked_tests\<close>, loops that check the deadline before a
  test, and \<open>trailing_tests\<close>, loops that check after a test whether another one fits.
\<close>

section \<open>Flows\<close>

lemma flow_simps [simp]:
  "is_flow (flow e path name d start s)"
  "client_start (flow e path name d start s) = start"
  "client_end (flow e path name d start s) = start + GetDuration s"
  by (simp_all add: flow_def)

lemma probe_duration [simp]:
  "GetDuration (periodic_probe d) = d" "GetDuration (icmp_probe d) = d"
  by (simp_all add: periodic_probe_def icmp_probe_def)

lemma rate_duration [simp]:
  "0 \<le> d \<Longrightarrow> d < 2 ^ 63 \<Longrightarrow> rateW_GetDuration [rate_seg pps d] = d"
  by (simp add: rateW_GetDuration_def rate_GetDuration_def rate_seg_def)

definition small :: "u64 \<Rightarrow> bool" where
  "small n \<longleftrightarrow> unat n < 2 ^ 32"

lemma small_duration: "small n \<Longrightarrow> 0 \<le> ms_duration n \<and> ms_duration n < 2 ^ 63"
proof -
  assume "small n"
  then have "int (unat n) < 2 ^ 32" by (simp add: small_def del: of_nat_unat)
  then have "uint n < 2 ^ 32" by simp
  then show ?thesis by (simp add: ms_duration_exact)
qed

lemma small_durations:
  assumes "list_all small ds" and "i < length ds"
  shows "0 \<le> ms_duration (ds ! i)" and "ms_duration (ds ! i) < 2 ^ 63"
  using small_duration [of "ds ! i"] assms by (simp_all add: list_all_length)

section \<open>Loops that check before a test\<close>

locale checked_tests =
  fixes loop :: "'i list \<Rightarrow> gtime \<Rightarrow> client list \<times> gtime"
    and emit :: "'i \<Rightarrow> gtime \<Rightarrow> client list"
    and nxt :: "'i \<Rightarrow> gtime \<Rightarrow> gtime"
    and deadline :: gtime
    and ok :: "'i \<Rightarrow> bool"
  assumes loop_Nil: "loop [] start = ([], start)"
    and loop_Cons: "loop (i # is) start =
      (if nxt i start > deadline then ([], start)
       else (emit i start @ fst (loop is (nxt i start)), snd (loop is (nxt i start))))"
    and emit_flows: "ok i \<Longrightarrow> list_all is_flow (emit i start)"
    and emit_within: "ok i \<Longrightarrow> flows_within start (nxt i start) (emit i start)"
    and nxt_ge: "ok i \<Longrightarrow> start \<le> nxt i start"
begin

lemma loop_within:
  assumes "list_all ok is" and "start \<le> deadline"
  shows "list_all is_flow (fst (loop is start)) \<and> flows_within start deadline (fst (loop is start)) \<and>
     start \<le> snd (loop is start) \<and> snd (loop is start) \<le> deadline"
  using assms
proof (induction "is" arbitrary: start)
  case (Cons i "is")
  show ?case
  proof (cases "nxt i start > deadline")
    case False
    have i: "ok i" and rest: "list_all ok is" using Cons.prems by auto
    from Cons.IH [OF rest, of "nxt i start"] False nxt_ge [OF i, of start]
    have "flows_within start deadline (fst (loop is (nxt i start)))"
      by (auto intro: flows_within_mono)
    moreover have "flows_within start deadline (emit i start)"
      by (rule flows_within_mono [OF emit_within [OF i]]) (use False in simp_all)
    ultimately show ?thesis
      using Cons.IH [OF rest, of "nxt i start"] False nxt_ge [OF i, of start] emit_flows [OF i]
      by (simp add: loop_Cons)
  qed (use Cons.prems in \<open>simp add: loop_Cons\<close>)
qed (simp add: loop_Nil)

end

section \<open>Loops that check after a test\<close>

locale trailing_tests =
  fixes loop :: "'i list \<Rightarrow> gtime \<Rightarrow> client list \<times> gtime"
    and emit :: "'i \<Rightarrow> gtime \<Rightarrow> client list"
    and nxt :: "'i \<Rightarrow> gtime \<Rightarrow> gtime"
    and deadline :: gtime and more width :: gduration
    and ok :: "'i \<Rightarrow> bool"
  assumes loop_Nil: "loop [] start = ([], start)"
    and loop_Cons: "loop (i # is) start =
      (if nxt i start + more > deadline then (emit i start, nxt i start)
       else (emit i start @ fst (loop is (nxt i start)), snd (loop is (nxt i start))))"
    and emit_flows: "ok i \<Longrightarrow> list_all is_flow (emit i start)"
    and emit_within: "ok i \<Longrightarrow> flows_within start (min (start + more) (nxt i start)) (emit i start)"
    and nxt_bounds: "ok i \<Longrightarrow> start \<le> nxt i start \<and> nxt i start \<le> start + width"
    and more_pos: "0 \<le> more" and width_pos: "0 \<le> width"
begin

lemma loop_within:
  assumes "list_all ok is" and "start + more \<le> deadline"
  shows "list_all is_flow (fst (loop is start)) \<and>
     flows_within start (min deadline (snd (loop is start))) (fst (loop is start)) \<and>
     start \<le> snd (loop is start) \<and> snd (loop is start) \<le> deadline + width"
  using assms
proof (induction "is" arbitrary: start)
  case Nil
  then show ?case using more_pos width_pos by (simp add: loop_Nil)
next
  case (Cons i "is")
  have i: "ok i" and rest: "list_all ok is" using Cons.prems by auto
  have w: "flows_within start (min deadline (nxt i start)) (emit i start)"
    by (rule flows_within_mono [OF emit_within [OF i]]) (use Cons.prems(2) in auto)
  show ?case
  proof (cases "nxt i start + more > deadline")
    case True
    then show ?thesis
      using w emit_flows [OF i] nxt_bounds [OF i, of start] Cons.prems(2) more_pos
      by (simp add: loop_Cons)
  next
    case False
    note IH = Cons.IH [OF rest, of "nxt i start"]
    have "flows_within start (min deadline (snd (loop is (nxt i start)))) (fst (loop is (nxt i start)))"
      using IH False nxt_bounds [OF i, of start] by (auto intro: flows_within_mono)
    moreover have "flows_within start (min deadline (snd (loop is (nxt i start)))) (emit i start)"
      by (rule flows_within_mono [OF w]) (use IH False in auto)
    ultimately show ?thesis
      using IH False nxt_bounds [OF i, of start] emit_flows [OF i] by (simp add: loop_Cons)
  qed
qed

end

section \<open>The loops as instances\<close>

lemma list_all_map_flow: "list_all is_flow (map (\<lambda>r. flow e path (nm r) d start (s r)) rs)"
  by (simp add: list_all_iff)

interpretation burst: checked_tests "burst_loop e path d deadline args runs"
    "\<lambda>i. burst_tests e path d runs (args ! i)" "\<lambda>i start. start + 4000 * millisecond" deadline "\<lambda>i. True"
  for e path d deadline args runs
  by unfold_locales
    (auto simp: burst_tests_def Let_def case_prod_beta list_all_iff flows_within_def)

lemma multidur_checked:
  assumes "list_all small durationsMs"
  shows "checked_tests (multidur_inner e path d deadline rateMbps durationsMs)
    (\<lambda>i. multidur_tests e path d rateMbps (durationsMs ! i))
    (\<lambda>i start. start + ms_duration (durationsMs ! i) + 2000 * millisecond) deadline
    (\<lambda>i. i < length durationsMs)"
  by unfold_locales
    (use small_durations [OF assms] in \<open>simp_all add: multidur_tests_def Let_def case_prod_beta\<close>)

lemma progdurquic_checked:
  assumes "list_all small durationsMs"
  shows "checked_tests (progdurquic_loop e path d deadline durationsMs)
    (\<lambda>i start. [progdurquic_test e path d (durationsMs ! i) start])
    (\<lambda>i start. start + ms_duration (durationsMs ! i) + 1000 * millisecond) deadline
    (\<lambda>i. i < length durationsMs)"
  by unfold_locales
    (use small_durations [OF assms] in \<open>simp_all add: progdurquic_test_def Let_def case_prod_beta\<close>)

interpretation mouseeleph: trailing_tests "mouseeleph_loop e path d deadline elephMbps mice 0"
    "\<lambda>x start. fst (mouseeleph_tests e path d elephMbps (mice ! snd x) 0 (fst x) start)"
    "\<lambda>x start. start + 7000 * millisecond" deadline "4000 * millisecond" "7000 * millisecond" "\<lambda>x. True"
  for e path d deadline elephMbps mice
  by unfold_locales (auto simp: mouseeleph_tests_def Let_def case_prod_beta ac_simps)

lemma multiflow_offset: "i < 8 \<Longrightarrow> 0 \<le> multiflow_offsets ! i \<and> multiflow_offsets ! i \<le> 700 * millisecond"
  by (auto simp: multiflow_offsets_def)

interpretation multiflow: trailing_tests "multiflow_loop e path d deadline"
    "\<lambda>i. multiflow_tests e path d (multiflow_offsets ! i)"
    "\<lambda>i start. start + multiflow_offsets ! i + 2800 * millisecond" deadline "3600 * millisecond"
    "3500 * millisecond" "\<lambda>i. i < 8"
  for e path d deadline
proof unfold_locales
  fix i start assume i: "i < (8::nat)"
  show "flows_within start (min (start + 3600 * millisecond) (start + multiflow_offsets ! i + 2800 * millisecond))
      (multiflow_tests e path d (multiflow_offsets ! i) start)"
    using multiflow_offset [OF i] by (simp add: multiflow_tests_def Let_def)
qed (use multiflow_offset in \<open>auto simp: multiflow_tests_def Let_def case_prod_beta ac_simps\<close>)

interpretation switchflow: trailing_tests "switchflow_loop e path d deadline rates"
    "\<lambda>i. switchflow_tests e path d (rates ! i)" "\<lambda>i start. start + 3600 * millisecond" deadline
    "3600 * millisecond" "3600 * millisecond" "\<lambda>i. True"
  for e path d deadline rates
  by unfold_locales (auto simp: switchflow_tests_def Let_def case_prod_beta ac_simps)

section \<open>Parameters within range\<close>

fun small_value :: "pvalue \<Rightarrow> bool" where
  "small_value (PUint n) = small n"
| "small_value (PUints ns) = list_all small ns"
| "small_value _ = True"

definition small_params :: "param_map \<Rightarrow> bool" where
  "small_params params \<longleftrightarrow> (\<forall>k v. params k = Some v \<longrightarrow> small_value v)"

lemma small_of_nat: "n < 2 ^ 32 \<Longrightarrow> small (of_nat n)"
  by (simp add: small_def unat_of_nat64)

lemma parse_uint_elem_small: "parse_uint_elem key s = Inr n \<Longrightarrow> small n"
  by (auto simp: parse_uint_elem_def split: option.splits dest!: ParseUint32_bound intro!: small_of_nat)

lemma sum_mapM_all: "sum_mapM f xs = Inr ys \<Longrightarrow> (\<And>x y. f x = Inr y \<Longrightarrow> P y) \<Longrightarrow> list_all P ys"
  by (auto simp: sum_mapM_Inr list_all2_conv_all_nth list_all_length)

lemma small_paramsD:
  assumes "small_params p"
  shows "p k = Some (PUint n) \<Longrightarrow> small n" and "p k = Some (PUints ns) \<Longrightarrow> list_all small ns"
  using assms unfolding small_params_def by (metis small_value.simps(1)) (metis assms small_params_def small_value.simps(2))

lemma pm_Uints_small: "small_params p \<Longrightarrow> pm_Uints p k = Inr ns \<Longrightarrow> list_all small ns"
  by (auto simp: pm_Uints_def split: option.splits pvalue.splits sum.splits
      dest: small_paramsD elim: sum_mapM_all [OF _ parse_uint_elem_small])

lemma pm_Uint_small: "small_params p \<Longrightarrow> pm_Uint p k = Inr n \<Longrightarrow> small n"
  by (auto simp: pm_Uint_def parse_uint_elem_small split: option.splits pvalue.splits dest: small_paramsD)

section \<open>One interval\<close>

lemma deadline_of_RI [sched_simps]: "is_RI ts \<Longrightarrow> deadline_of ts = ts + 14 * second"
  by (simp add: deadline_of_def NextRI_of_RI)

text \<open>The flows of a plan lie between the procedure's first second and the next
  reconfiguration, and its captures span them.\<close>

definition plan_fits :: "gtime \<Rightarrow> client list \<Rightarrow> bool" where
  "plan_fits ts cs \<longleftrightarrow> flows_within (ts + second) (ts + 15 * second) cs \<and> captures_cover cs"

lemma plan_fits_fixed_capture:
  assumes "list_all is_flow cs" and "flows_within (ts + second) (ts + 14 * second) cs"
  shows "plan_fits ts (cs @ Tcpdump path ts (15 * second))"
  unfolding plan_fits_def using assms
  by (auto intro!: captures_cover_Tcpdump intro: flows_within_mono)

lemma plan_fits_until:
  assumes "list_all is_flow cs" and "flows_within (ts + second) (min (ts + 15 * second) stop) cs"
    and "ts \<le> stop" and "stop \<le> ts + 30 * second"
  shows "plan_fits ts (cs @ Tcpdump path ts (time_Sub stop ts + second))"
proof -
  have "time_Sub stop ts = stop - ts" using assms(3,4) by simp
  then show ?thesis
    unfolding plan_fits_def using assms(1,2)
    by (auto intro!: captures_cover_Tcpdump intro: flows_within_mono)
qed

lemma perm_in_range: "list_all (\<lambda>i. i < n) (fst (Perm g n))"
  by (simp add: list_all_iff)

lemma run_MultiBurst_fits:
  assumes "is_RI ts" and "run_MultiBurst runs e ts path params g = (out, cs, g')"
  shows "(\<exists>err. out = ProcErr err) \<or> out = Done \<and> plan_fits ts cs"
proof (cases "pm_Direction params")
  case (Inr d)
  let ?args = "pe_Product e (if d = UL then [10000] else [3000]) [0, 700, 1400]"
  let ?order = "fst (Perm g (length ?args))"
  let ?loop = "burst_loop e path d (ts + 14 * second) ?args runs ?order (ts + second)"
  have "list_all is_flow (fst ?loop) \<and> flows_within (ts + second) (ts + 14 * second) (fst ?loop) \<and>
      ts + second \<le> snd ?loop \<and> snd ?loop \<le> ts + 14 * second"
    by (rule burst.loop_within) (simp_all add: list_all_iff)
  then have w: "list_all is_flow (fst ?loop)" "flows_within (ts + second) (ts + 14 * second) (fst ?loop)"
    "snd ?loop \<le> ts + 14 * second" by blast+
  have "(out, cs, g') = (Done, fst ?loop @ Tcpdump path ts (15 * second), snd (Perm g (length ?args)))"
    using assms Inr w(3) by (simp add: run_MultiBurst_def deadline_of_RI Let_def case_prod_beta)
  then show ?thesis using plan_fits_fixed_capture [OF w(1,2)] by simp
qed (use assms in \<open>auto simp: run_MultiBurst_def\<close>)

lemma multidur_outer_within:
  assumes "list_all small durationsMs" and "start \<le> deadline"
  shows "case multidur_outer e path d deadline rates durationsMs order start g of (cs, stop, g') \<Rightarrow>
     list_all is_flow cs \<and> flows_within start deadline cs \<and> start \<le> stop \<and> stop \<le> deadline"
  using assms(2)
proof (induction order arbitrary: start g)
  case (Cons i order)
  let ?p = "Perm g (length durationsMs)"
  let ?inner = "multidur_inner e path d deadline (rates ! i) durationsMs (fst ?p) start"
  have inner: "list_all is_flow (fst ?inner) \<and> flows_within start deadline (fst ?inner) \<and>
      start \<le> snd ?inner \<and> snd ?inner \<le> deadline"
    by (rule checked_tests.loop_within [OF multidur_checked [OF assms(1)] perm_in_range Cons.prems])
  with Cons.IH [of "snd ?inner" "snd ?p"] show ?case
    by (auto simp: Let_def case_prod_beta intro: flows_within_mono)
qed simp

lemma MultiDurationRate_fits:
  assumes "is_RI ts" and "small_params params" and "MultiDurationRate e ts path params g = (out, cs, g')"
  shows "(\<exists>err. out = ProcErr err) \<or> out = Done \<and> plan_fits ts cs"
proof -
  consider (err) "\<exists>err. out = ProcErr err"
    | (ok) d durs rates where "pm_Direction params = Inr d" "pm_Uints params ''durations'' = Inr durs"
      "ratesFor d params = Inr rates"
    using assms(3) by (auto simp: MultiDurationRate_def split: sum.splits)
  then show ?thesis
  proof cases
    case ok
    let ?p = "Perm g (length rates)"
    obtain cs0 stop g0 where run: "multidur_outer e path d (ts + 14 * second) rates durs (fst ?p) (ts + second)
        (snd ?p) = (cs0, stop, g0)" by (metis prod_cases3)
    have w: "list_all is_flow cs0" "flows_within (ts + second) (ts + 14 * second) cs0" "stop \<le> ts + 14 * second"
      using multidur_outer_within [OF pm_Uints_small [OF assms(2) ok(2)], of "ts + second" "ts + 14 * second"
          e path d rates "fst ?p" "snd ?p"] run by simp_all
    then show ?thesis
      using assms(1,3) ok run plan_fits_fixed_capture [OF w(1,2)]
      by (auto simp: MultiDurationRate_def deadline_of_RI Let_def case_prod_beta)
  qed simp
qed

lemma ProgressiveDurationQUIC_fits:
  assumes "is_RI ts" and "small_params params" and "ProgressiveDurationQUIC e ts path params g = (out, cs, g')"
  shows "(\<exists>err. out = ProcErr err) \<or> out = Done \<and> plan_fits ts cs"
proof -
  consider (err) "\<exists>err. out = ProcErr err"
    | (ok) d durs where "pm_Direction params = Inr d" "pm_Uints params ''durations'' = Inr durs"
    using assms(3) by (auto simp: ProgressiveDurationQUIC_def split: sum.splits)
  then show ?thesis
  proof cases
    case ok
    let ?loop = "progdurquic_loop e path d (ts + 14 * second) durs (fst (Perm g (length durs))) (ts + second)"
    have w: "list_all is_flow (fst ?loop) \<and> flows_within (ts + second) (ts + 14 * second) (fst ?loop) \<and>
        ts + second \<le> snd ?loop \<and> snd ?loop \<le> ts + 14 * second"
      by (rule checked_tests.loop_within [OF progdurquic_checked [OF pm_Uints_small [OF assms(2) ok(2)]]
            perm_in_range]) simp
    then show ?thesis
      using assms(1,3) ok plan_fits_fixed_capture [of "fst ?loop" ts path]
      by (auto simp: ProgressiveDurationQUIC_def deadline_of_RI Let_def case_prod_beta)
  qed simp
qed

lemma MultiFlow_fits:
  assumes "is_RI ts" and "MultiFlow e ts path params g = (out, cs, g')"
  shows "(\<exists>err. out = ProcErr err) \<or> out = Done \<and> plan_fits ts cs"
proof (cases "pm_Direction params")
  case (Inr d)
  let ?loop = "multiflow_loop e path d (ts + 14 * second) (fst (Perm g 8)) (ts + second)"
  have w: "list_all is_flow (fst ?loop) \<and>
      flows_within (ts + second) (min (ts + 14 * second) (snd ?loop)) (fst ?loop) \<and>
      ts + second \<le> snd ?loop \<and> snd ?loop \<le> ts + 14 * second + 3500 * millisecond"
    by (rule multiflow.loop_within [OF perm_in_range]) simp
  then have "plan_fits ts (fst ?loop @ Tcpdump path ts (time_Sub (snd ?loop) ts + second))"
    by (intro plan_fits_until) (auto intro: flows_within_mono)
  then show ?thesis
    using assms Inr by (auto simp: MultiFlow_def multiflow_offsets_def deadline_of_RI Let_def case_prod_beta)
qed (use assms in \<open>auto simp: MultiFlow_def\<close>)

lemma SwitchFlow_fits:
  assumes "is_RI ts" and "SwitchFlow e ts path params g = (out, cs, g')"
  shows "(\<exists>err. out = ProcErr err) \<or> out = Done \<and> plan_fits ts cs"
proof (cases "pm_Direction params")
  case (Inr d)
  let ?rates = "if d = UL then [20, 40, 70 :: u64] else [200, 250, 300, 700]"
  let ?loop = "switchflow_loop e path d (ts + 14 * second) ?rates (fst (Perm g (length ?rates))) (ts + second)"
  have w: "list_all is_flow (fst ?loop) \<and>
      flows_within (ts + second) (min (ts + 14 * second) (snd ?loop)) (fst ?loop) \<and>
      ts + second \<le> snd ?loop \<and> snd ?loop \<le> ts + 14 * second + 3600 * millisecond"
    by (rule switchflow.loop_within) (simp_all add: list_all_iff)
  then have "plan_fits ts (fst ?loop @ Tcpdump path ts (time_Sub (snd ?loop) ts + second))"
    by (intro plan_fits_until) (auto intro: flows_within_mono)
  then show ?thesis
    using assms Inr by (auto simp: SwitchFlow_def deadline_of_RI Let_def case_prod_beta)
qed (use assms in \<open>auto simp: SwitchFlow_def\<close>)

lemma MouseElephantFlows_fits:
  assumes "is_RI ts" and "MouseElephantFlows e ts path params g = (out, cs, g')"
  shows "(\<exists>err. out = ProcErr err) \<or> out = Done \<and> plan_fits ts cs"
proof -
  consider (err) "\<exists>err. out = ProcErr err"
    | (ok) d mice where "pm_Direction params = Inr d"
      "(if d = UL then pm_Uints params ''miceUL'' else pm_Uints params ''miceDL'') = Inr mice"
    using assms(2) by (auto simp: MouseElephantFlows_def split: sum.splits)
  then show ?thesis
  proof cases
    case ok
    let ?loop = "mouseeleph_loop e path d (ts + 14 * second) (if d = UL then 140 else 250) mice 0
      (enumerate 0 (fst (Perm g (length mice)))) (ts + second)"
    have w: "list_all is_flow (fst ?loop) \<and>
        flows_within (ts + second) (min (ts + 14 * second) (snd ?loop)) (fst ?loop) \<and>
        ts + second \<le> snd ?loop \<and> snd ?loop \<le> ts + 14 * second + 7000 * millisecond"
      by (rule mouseeleph.loop_within) (simp_all add: list_all_iff)
    then have "plan_fits ts (fst ?loop @ Tcpdump path ts (time_Sub (snd ?loop) ts + second))"
      by (intro plan_fits_until) (auto intro: flows_within_mono)
    then show ?thesis
      using assms ok by (auto simp: MouseElephantFlows_def deadline_of_RI Let_def case_prod_beta)
  qed simp
qed

subsection \<open>durationtcp\<close>

lemma durationtcp_loop_within:
  assumes "list_all is_flow acc" and "flows_within lo deadline acc" and "lo \<le> start" and "start \<le> deadline"
    and "\<forall>i \<in> set order. small (fst (args ! i))"
  shows "case durationtcp_loop e path d deadline ccas args order start acc of
     LoopEnd (cs, stop) \<Rightarrow> list_all is_flow cs \<and> flows_within lo deadline cs \<and> stop \<le> deadline
   | LoopPanic m cs \<Rightarrow> \<exists>i \<in> set order. ccas ! unat (snd (args ! i)) \<notin> set TCPCCAS
   | LoopRunning \<Rightarrow> False"
  using assms
proof (induction order arbitrary: start acc)
  case (Cons i order)
  let ?ms = "fst (args ! i)" and ?c = "ccas ! unat (snd (args ! i))"
  let ?next = "start + ms_duration ?ms + 2000 * millisecond"
  have ms: "0 \<le> ms_duration ?ms" "ms_duration ?ms < 2 ^ 63"
    using small_duration [of ?ms] Cons.prems(5) by simp_all
  show ?case
  proof (cases "?next > deadline")
    case True
    then show ?thesis using Cons.prems by (simp add: case_prod_beta Let_def)
  next
    case fits: False
    show ?thesis
    proof (cases "cca_String ?c")
      case (Panics m)
      then have "?c \<notin> set TCPCCAS" using cca_String_known [of ?c] by auto
      then show ?thesis using fits Panics by (auto simp: case_prod_beta Let_def)
    next
      case (Returns name)
      let ?tests = "durationtcp_tests e path d ?c name ?ms start"
      have "list_all is_flow ?tests" "flows_within lo deadline ?tests"
        using ms fits Cons.prems(3) by (simp_all add: durationtcp_tests_def Let_def)
      then have "case durationtcp_loop e path d deadline ccas args order ?next (acc @ ?tests) of
          LoopEnd (cs, stop) \<Rightarrow> list_all is_flow cs \<and> flows_within lo deadline cs \<and> stop \<le> deadline
        | LoopPanic m cs \<Rightarrow> \<exists>i \<in> set order. ccas ! unat (snd (args ! i)) \<notin> set TCPCCAS
        | LoopRunning \<Rightarrow> False"
        using Cons.prems fits ms by (intro Cons.IH) simp_all
      then show ?thesis
        using fits Returns by (auto simp: case_prod_beta Let_def split: loop_result.splits)
    qed
  qed
qed simp

lemma product_nth:
  assumes "product_ok e" and "i < length (pe_Product e xs ys)"
  shows "fst (pe_Product e xs ys ! i) \<in> set xs" and "snd (pe_Product e xs ys ! i) \<in> set ys"
proof -
  have "pe_Product e xs ys ! i \<in> set (pe_Product e xs ys)" using assms(2) by (rule nth_mem)
  also have "set (pe_Product e xs ys) = set xs \<times> set ys" using assms(1) unfolding product_ok_def by blast
  finally show "fst (pe_Product e xs ys ! i) \<in> set xs" and "snd (pe_Product e xs ys ! i) \<in> set ys"
    by (simp_all add: mem_Times_iff)
qed

lemma makeRange_index: "i \<in> set (makeRange 0 n) \<Longrightarrow> n < 2 ^ 64 \<Longrightarrow> unat i < n"
  by (auto simp: makeRange_def unat_of_nat64)

definition known_ccas :: "param_map \<Rightarrow> bool" where
  "known_ccas params \<longleftrightarrow>
     (case pm_TCPCCAs params ''ccas'' of
        Inl e \<Rightarrow> True
      | Inr ccas \<Rightarrow> length ccas < 2 ^ 64 \<and> list_all (\<lambda>c. c \<in> set TCPCCAS) ccas)"

lemma DurationTCP_fits:
  assumes "is_RI ts" and "small_params params" and "product_ok e"
    and "known_ccas params"
    and "DurationTCP e ts path params g = (out, cs, g')"
  shows "(\<exists>err. out = ProcErr err) \<or> out = Done \<and> plan_fits ts cs"
proof -
  consider (err) "\<exists>err. out = ProcErr err"
    | (ok) d ccas' durs where "pm_Direction params = Inr d" "pm_TCPCCAs params ''ccas'' = Inr ccas'"
      "pm_Uints params ''durations'' = Inr durs"
    using assms(5) by (auto simp: DurationTCP_def split: sum.splits)
  then show ?thesis
  proof cases
    case ok
    let ?args = "pe_Product e durs (makeRange 0 (length ccas'))"
    let ?order = "fst (Perm g (length ?args))"
    have idx: "i < length ?args" if "i \<in> set ?order" for i using that by simp
    have smalls: "\<forall>i \<in> set ?order. small (fst (?args ! i))"
      using product_nth(1) [OF assms(3) idx] pm_Uints_small [OF assms(2) ok(3)] by (simp add: list_all_iff)
    have ccas: "length ccas' < 2 ^ 64" "list_all (\<lambda>c. c \<in> set TCPCCAS) ccas'"
      using assms(4) ok(2) by (simp_all add: known_ccas_def)
    have known: "ccas' ! unat (snd (?args ! i)) \<in> set TCPCCAS" if "i \<in> set ?order" for i
    proof -
      have "snd (?args ! i) \<in> set (makeRange 0 (length ccas'))" 
        by (rule product_nth(2) [OF assms(3) idx [OF that]])
      then have "unat (snd (?args ! i)) < length ccas'" using ccas(1) by (rule makeRange_index)
      then show ?thesis using ccas(2) by (simp add: list_all_length)
    qed
    have "case durationtcp_loop e path d (ts + 14 * second) ccas' ?args ?order (ts + second) [] of
        LoopEnd (cs, stop) \<Rightarrow> list_all is_flow cs \<and> flows_within (ts + second) (ts + 14 * second) cs \<and>
          stop \<le> ts + 14 * second
      | LoopPanic m cs \<Rightarrow> \<exists>i \<in> set ?order. ccas' ! unat (snd (?args ! i)) \<notin> set TCPCCAS
      | LoopRunning \<Rightarrow> False"
      by (rule durationtcp_loop_within) (use smalls in simp_all)
    then show ?thesis
      using assms(1,5) ok known
      by (auto simp: DurationTCP_def deadline_of_RI Let_def case_prod_beta
          intro: plan_fits_fixed_capture [simplified] split: loop_result.splits prod.splits)
  qed simp
qed

subsection \<open>prograte and rampupprobe\<close>

definition prograte_cost :: "u64 \<Rightarrow> gduration" where
  "prograte_cost ms = ms_duration ms + (if ms < 1000 then 500 * millisecond else 1500 * millisecond)"

lemma prograte_loop_within:
  assumes "list_all small durs" and "list_all (\<lambda>i. i < length durs) order"
  shows "case prograte_loop e path d durs order start of (cs, stop) \<Rightarrow>
     list_all is_flow cs \<and> flows_within start stop cs \<and> start \<le> stop \<and>
     stop = start + sum_list (map (\<lambda>i. prograte_cost (durs ! i)) order)"
  using assms(2)
proof (induction order arbitrary: start)
  case (Cons i order)
  let ?next = "start + prograte_cost (durs ! i)"
  have ms: "0 \<le> ms_duration (durs ! i)" "ms_duration (durs ! i) < 2 ^ 63"
    using small_durations [OF assms(1)] Cons.prems by simp_all
  obtain cs stop where rest: "prograte_loop e path d durs order ?next = (cs, stop)" by fastforce
  have "list_all (\<lambda>i. i < length durs) order" using Cons.prems by simp
  note IH = Cons.IH [OF this, of ?next, unfolded rest prod.case]
  have le: "start + ms_duration (durs ! i) \<le> ?next" "start \<le> ?next"
    using ms by (simp_all add: prograte_cost_def)
  have "prograte_loop e path d durs (i # order) start =
      (flow e path (''rate_'' @ dirs d @ ''_'' @ d4 (durs ! i) @ ''.csv'') d start
         (RateSender [rate_seg (fixed_pps d) (ms_duration (durs ! i))]) # cs, stop)"
    using rest by (simp add: Let_def prograte_cost_def add.assoc)
  moreover have "flows_within start stop cs" using IH le by (auto intro: flows_within_mono)
  ultimately show ?case using IH le ms by simp
qed simp

lemma sum_perm_nth:
  fixes f :: "'a \<Rightarrow> int"
  shows "sum_list (map (\<lambda>i. f (xs ! i)) (fst (Perm g (length xs)))) = sum_list (map f xs)"
proof -
  have "mset (map (\<lambda>i. f (xs ! i)) (fst (Perm g (length xs)))) = mset (map (\<lambda>i. f (xs ! i)) [0..<length xs])"
    using Perm_mset [of g "length xs"] by (metis mset_map)
  moreover have "map (\<lambda>i. f (xs ! i)) [0..<length xs] = map f xs" by (simp add: map_nth flip: map_map [unfolded comp_def])
  ultimately show ?thesis by (metis sum_mset_sum_list)
qed

lemma prograte_outcome:
  assumes "is_RI ts" and "small_params params"
    and "pm_Direction params = Inr d" and "pm_Uints params ''durations'' = Inr durs"
    and "run = ProgressiveRate \<or> run = RampUpProbe" and "run e ts path params g = (out, cs, g')"
  shows "if sum_list (map prograte_cost durs) \<le> 13 * second then out = Done \<and> plan_fits ts cs
     else out = ProcPanic ''Too many tests''"
proof -
  obtain cs0 stop where loop: "prograte_loop e path d durs (fst (Perm g (length durs))) (ts + second) = (cs0, stop)"
    by fastforce
  note w0 = prograte_loop_within [OF pm_Uints_small [OF assms(2,4)] perm_in_range [of "length durs" g],
      where e = e and path = path and d = d and start = "ts + second", unfolded loop prod.case sum_perm_nth]
  have w: "list_all is_flow cs0" "flows_within (ts + second) stop cs0"
    "stop = ts + second + sum_list (map prograte_cost durs)" using w0 by blast+
  have run: "(out, cs, g') = (if stop > ts + 14 * second then (ProcPanic ''Too many tests'', cs0, snd (Perm g (length durs)))
      else (Done, cs0 @ Tcpdump path ts (15 * second), snd (Perm g (length durs))))"
    using assms loop by (auto simp: ProgressiveRate_def RampUpProbe_def deadline_of_RI Let_def case_prod_beta)
  show ?thesis
  proof (cases "stop > ts + 14 * second")
    case False
    then have "plan_fits ts (cs0 @ Tcpdump path ts (15 * second))"
      using w by (intro plan_fits_fixed_capture) (auto intro: flows_within_mono)
    then show ?thesis using run False w(3) by simp
  qed (use run w(3) in simp)
qed

subsection \<open>cddf\<close>

text \<open>After \<open>j\<close> tests, each with a cooldown below 400 ms, the next one starts in a window that
  leaves room for exactly four tests.\<close>

definition cddf_window :: "gtime \<Rightarrow> nat \<Rightarrow> gtime \<Rightarrow> bool" where
  "cddf_window ts j start \<longleftrightarrow> j \<le> 4 \<and> ts + second + int j * 3600 * millisecond \<le> start \<and>
     start \<le> ts + second + int j * 3990 * millisecond"

lemma cooldown_bound: "r mod 400 div 10 * 10 \<le> (390 :: nat)"
proof -
  have "r mod 400 \<le> 399" using mod_less_divisor [of 400 r] by simp
  then have "r mod 400 div 10 \<le> 399 div 10" by (rule div_le_mono)
  then show ?thesis by simp
qed

lemma cddf_loop_within:
  assumes "cddf_loop fuel e path d (ts + 14 * second) cds start g = Some (cs, stop, g')"
    and "cddf_window ts j start"
  shows "list_all is_flow cs \<and> flows_within (ts + second) (ts + 15 * second) cs \<and>
     length cs = 2 * (4 - j) \<and> cddf_window ts 4 stop"
  using assms
proof (induction fuel arbitrary: cds start g cs j)
  case (Suc fuel)
  let ?c = "g 0 mod 400 div 10 * 10" and ?g = "\<lambda>k. g (Suc k)"
  let ?mid = "start + 800 * millisecond + int ?c * millisecond"
  have c: "int ?c \<le> 390" using cooldown_bound [of "g 0"] by linarith
  show ?case
  proof (cases "?c \<in> set cds")
    case True
    then have "cddf_loop fuel e path d (ts + 14 * second) cds start ?g = Some (cs, stop, g')"
      using Suc.prems(1) by (simp add: Intn_def Let_def)
    then show ?thesis using Suc.prems(2) by (rule Suc.IH)
  next
    case new: False
    show ?thesis
    proof (cases "start > ts + 14 * second")
      case True
      then have "j = 4" using Suc.prems(2) by (simp add: cddf_window_def)
      moreover have "cs = []" "stop = start" using True new Suc.prems(1) by (simp_all add: Intn_def Let_def)
      ultimately show ?thesis using Suc.prems(2) by simp
    next
      case False
      then have j: "j \<le> 3" using Suc.prems(2) by (simp add: cddf_window_def)
      obtain t1 t2 cs' where rest: "cddf_loop fuel e path d (ts + 14 * second) (cds @ [?c])
          (?mid + 800 * millisecond + 2000 * millisecond) ?g = Some (cs', stop, g')"
        and cs: "cs = flow e path t1 d start (RateSender [rate_seg (fixed_pps d) (800 * millisecond)]) #
          flow e path t2 d ?mid (RateSender [rate_seg (fixed_pps d) (800 * millisecond)]) # cs'"
        using Suc.prems(1) new False by (auto simp: Intn_def Let_def)
      have win: "cddf_window ts (Suc j) (?mid + 800 * millisecond + 2000 * millisecond)"
        using Suc.prems(2) j c by (simp add: cddf_window_def algebra_simps)
      have "ts + second \<le> start" "?mid + 800 * millisecond \<le> ts + 15 * second"
        using Suc.prems(2) j c by (simp_all add: cddf_window_def)
      moreover have "length cs = 2 + length cs'" "2 * (4 - j) = 2 + 2 * (4 - Suc j)"
        using cs j by simp_all
      ultimately show ?thesis using Suc.IH [OF rest win] cs by simp
    qed
  qed
qed simp

lemma CoolDownDifferentFlow_fits:
  assumes "is_RI ts" and "CoolDownDifferentFlow fuel e ts path params g = (out, cs, g')"
  shows "(\<exists>err. out = ProcErr err) \<or> out = NoReturn \<or> out = Done \<and> plan_fits ts cs \<and> length cs = 10"
proof (cases "pm_Direction params")
  case (Inr d)
  show ?thesis
  proof (cases "cddf_loop fuel e path d (ts + 14 * second) [] (ts + second) g")
    case None
    then show ?thesis using assms Inr by (simp add: CoolDownDifferentFlow_def deadline_of_RI)
  next
    case (Some res)
    then obtain cs0 stop g0 where run: "cddf_loop fuel e path d (ts + 14 * second) [] (ts + second) g =
        Some (cs0, stop, g0)" by (cases res) auto
    have "cddf_window ts 0 (ts + second)" by (simp add: cddf_window_def)
    note w = cddf_loop_within [OF run this]
    then have "ts + 15 * second \<le> stop" "stop \<le> ts + 30 * second" by (simp_all add: cddf_window_def)
    then have "plan_fits ts (cs0 @ Tcpdump path ts (time_Sub stop ts + second))"
      using w by (intro plan_fits_until) (simp_all add: min_def)
    then show ?thesis
      using assms Inr run w by (auto simp: CoolDownDifferentFlow_def deadline_of_RI Tcpdump_def)
  qed
qed (use assms in \<open>auto simp: CoolDownDifferentFlow_def\<close>)

text \<open>The loop ends once the draws have produced enough different cooldowns.\<close>

definition cooldowns_drawn :: "(nat \<Rightarrow> nat) \<Rightarrow> rng \<Rightarrow> nat \<Rightarrow> nat set" where
  "cooldowns_drawn q g n = (\<lambda>k. q (g k)) ` {..<n}"

abbreviation cddf_cooldown :: "nat \<Rightarrow> nat" where
  "cddf_cooldown r \<equiv> r mod 400 div 10 * 10"

lemma cooldowns_drawn_Suc: "cooldowns_drawn q g (Suc n) = insert (q (g 0)) (cooldowns_drawn q (\<lambda>k. g (Suc k)) n)"
  by (simp add: cooldowns_drawn_def lessThan_Suc_eq_insert_0 image_image)

lemma finite_cooldowns_drawn [simp]: "finite (cooldowns_drawn q g n)"
  by (simp add: cooldowns_drawn_def)

text \<open>The cooldowns left to draw after one draw that was used before, and after one that was not.\<close>

lemma cooldowns_left_old:
  "q (g 0) \<in> set cds \<Longrightarrow>
   cooldowns_drawn q g (Suc n) - set cds = cooldowns_drawn q (\<lambda>k. g (Suc k)) n - set cds"
  by (auto simp: cooldowns_drawn_Suc)

lemma cooldowns_left_new:
  "card (cooldowns_drawn q g (Suc n) - set cds) \<le>
   Suc (card (cooldowns_drawn q (\<lambda>k. g (Suc k)) n - set (cds @ [q (g 0)])))"
proof -
  let ?left = "cooldowns_drawn q (\<lambda>k. g (Suc k)) n - set (cds @ [q (g 0)])"
  have "cooldowns_drawn q g (Suc n) - set cds \<subseteq> insert (q (g 0)) ?left" by (auto simp: cooldowns_drawn_Suc)
  then have "card (cooldowns_drawn q g (Suc n) - set cds) \<le> card (insert (q (g 0)) ?left)"
    by (intro card_mono) simp_all
  also have "\<dots> \<le> Suc (card ?left)" by (rule card_insert_le_m1) simp_all
  finally show ?thesis .
qed

lemma cddf_loop_returns:
  assumes "cddf_window ts j start" and "5 \<le> j + card (cooldowns_drawn cddf_cooldown g fuel - set cds)"
  shows "\<exists>res. cddf_loop fuel e path d (ts + 14 * second) cds start g = Some res"
  using assms
proof (induction fuel arbitrary: cds start g j)
  case 0
  then show ?case by (simp add: cddf_window_def cooldowns_drawn_def)
next
  case (Suc fuel)
  let ?c = "g 0 mod 400 div 10 * 10" and ?g = "\<lambda>k. g (Suc k)"
  have c: "int ?c \<le> 390" using cooldown_bound [of "g 0"] by linarith
  let ?next = "start + 800 * millisecond + int ?c * millisecond + 800 * millisecond + 2000 * millisecond"
  show ?case
  proof (cases "?c \<in> set cds")
    case True
    then have "5 \<le> j + card (cooldowns_drawn cddf_cooldown ?g fuel - set cds)"
      using Suc.prems(2) cooldowns_left_old [of cddf_cooldown g cds fuel] by simp
    then have "\<exists>res. cddf_loop fuel e path d (ts + 14 * second) cds start ?g = Some res"
      using Suc.prems(1) by (intro Suc.IH)
    then show ?thesis using True by (simp add: Intn_def Let_def)
  next
    case new: False
    show ?thesis
    proof (cases "start > ts + 14 * second")
      case True
      then show ?thesis using new by (simp add: Intn_def Let_def)
    next
      case False
      then have j: "j \<le> 3" using Suc.prems(1) by (simp add: cddf_window_def)
      have win: "cddf_window ts (Suc j) ?next"
        using Suc.prems(1) j c by (simp add: cddf_window_def algebra_simps)
      have "5 \<le> Suc j + card (cooldowns_drawn cddf_cooldown ?g fuel - set (cds @ [?c]))"
        using Suc.prems(2) cooldowns_left_new [of cddf_cooldown g fuel cds] by linarith
      then have "\<exists>res. cddf_loop fuel e path d (ts + 14 * second) (cds @ [?c]) ?next ?g = Some res"
        using win by (intro Suc.IH)
      then show ?thesis using new False by (auto simp: Intn_def Let_def)
    qed
  qed
qed

subsection \<open>packetdur\<close>

lemma packetdur_loop_within:
  assumes "list_all is_flow acc" and "flows_within lo (deadline + second) acc" and "lo \<le> start"
    and "start \<le> deadline" and "\<forall>i \<in> set order. small (fst (args ! i)) \<and> fst (args ! i) \<noteq> 0 \<and>
      ms_duration (fst (args ! i)) \<le> second"
  shows "\<exists>cs stop. packetdur_loop e path d deadline args order start acc = LoopEnd (cs, stop) \<and>
     list_all is_flow cs \<and> flows_within lo (deadline + second) cs"
  using assms
proof (induction order arbitrary: start acc)
  case (Cons i order)
  let ?ms = "fst (args ! i)" and ?packets = "snd (args ! i)"
  let ?c = "flow e path (''packets_'' @ dirs d @ ''_'' @ d4 ?packets @ ''_'' @ d4 ?ms @ ''.csv'') d start
      (RateSender [rate_seg (?packets * (1000 div ?ms)) (ms_duration ?ms)])"
  let ?next = "start + ms_duration ?ms + 2000 * millisecond"
  have ms: "0 \<le> ms_duration ?ms" "ms_duration ?ms < 2 ^ 63" "?ms \<noteq> 0" "ms_duration ?ms \<le> second"
    using Cons.prems(5) small_duration [of ?ms] by simp_all
  have acc: "list_all is_flow (acc @ [?c])" "flows_within lo (deadline + second) (acc @ [?c])"
    using Cons.prems ms by simp_all
  show ?case
  proof (cases "?next + ms_duration ?ms > deadline")
    case True
    then show ?thesis using ms acc by (simp add: case_prod_beta Let_def)
  next
    case False
    then have "\<exists>cs stop. packetdur_loop e path d deadline args order ?next (acc @ [?c]) = LoopEnd (cs, stop) \<and>
        list_all is_flow cs \<and> flows_within lo (deadline + second) cs"
      using Cons.prems ms acc by (intro Cons.IH) simp_all
    then show ?thesis using ms False by (simp add: case_prod_beta Let_def)
  qed
qed simp

lemma PacketsDuration_fits:
  assumes "is_RI ts" and "small_params params" and "product_ok e"
    and "pm_Uints params ''durations'' = Inr durs" and "list_all (\<lambda>ms. ms \<noteq> 0 \<and> ms_duration ms \<le> second) durs"
    and "PacketsDuration e ts path params g = (out, cs, g')"
  shows "(\<exists>err. out = ProcErr err) \<or> out = Done \<and> plan_fits ts cs"
proof -
  consider (err) "\<exists>err. out = ProcErr err"
    | (ok) d nums where "pm_Direction params = Inr d" "pm_Uints params ''packets'' = Inr nums"
    using assms(4,6) by (auto simp: PacketsDuration_def split: sum.splits)
  then show ?thesis
  proof cases
    case ok
    let ?args = "pe_Product e durs nums"
    let ?order = "fst (Perm g (length ?args))"
    have "\<forall>i \<in> set ?order. small (fst (?args ! i)) \<and> fst (?args ! i) \<noteq> 0 \<and>
        ms_duration (fst (?args ! i)) \<le> second"
      using product_nth(1) [OF assms(3)] assms(5) pm_Uints_small [OF assms(2,4)] by (simp add: list_all_iff)
    then obtain cs0 stop where run: "packetdur_loop e path d (ts + 14 * second) ?args ?order (ts + second) [] =
        LoopEnd (cs0, stop)" "list_all is_flow cs0" "flows_within (ts + second) (ts + 14 * second + second) cs0"
      using packetdur_loop_within [of "[]" "ts + second" "ts + 14 * second" "ts + second" ?order ?args e path d]
      by auto
    have "flows_within ts (ts + 15 * second) cs0" "flows_within (ts + second) (ts + 15 * second) cs0"
      using run(3) by (auto intro: flows_within_mono)
    then have "plan_fits ts (cs0 @ Tcpdump path ts (15 * second))"
      using run(2) by (auto simp: plan_fits_def intro!: captures_cover_Tcpdump [simplified])
    then show ?thesis
      using assms(1,4,6) ok run(1) by (auto simp: PacketsDuration_def deadline_of_RI Let_def case_prod_beta)
  qed simp
qed

subsection \<open>Schedules at fixed offsets\<close>

lemma QUIC_fits:
  assumes "is_RI ts" and "QUIC e ts path params g = (out, cs, g')"
  shows "(\<exists>err. out = ProcErr err) \<or> out = Done \<and> plan_fits ts cs"
  using assms
  by (auto simp: QUIC_def Let_def plan_fits_def captures_cover_def Tcpdump_def split: sum.splits)

lemma MeasOWD_covers:
  assumes "MeasOWD e ts path params g = (Done, cs, g')"
  shows "captures_cover cs"
proof -
  obtain ds ms where ok: "flow_directions params = Inr ds" "pm_Uint params ''duration_ms'' = Inr ms"
    using assms by (auto simp: MeasOWD_def split: sum.splits)
  let ?flows = "concat (map (\<lambda>d.
    [flow e path (''owd-udp_'' @ dirs d @ ''.csv'') d (ts + 5 * second) (periodic_probe (ms_duration ms)),
     flow e path (''owd-icmp_'' @ dirs d @ ''.csv'') d (ts + 5 * second) (icmp_probe (ms_duration ms))]) ds)"
  have "list_all is_flow ?flows" "flows_within ts (ts + (5 * second + ms_duration ms + 2 * second)) ?flows"
    by (auto simp: list_all_iff flows_within_def)
  then have "captures_cover (?flows @ Tcpdump path ts (5 * second + ms_duration ms + 2 * second))"
    by (rule captures_cover_Tcpdump)
  moreover have "cs = ?flows @ Tcpdump path ts (5 * second + ms_duration ms + 2 * second)"
    using assms ok by (simp add: MeasOWD_def Let_def)
  ultimately show ?thesis by simp
qed

lemma MeasRate_covers:
  assumes "MeasRate e ts path params g = (Done, cs, g')"
  shows "captures_cover cs"
  using assms by (auto simp: MeasRate_def Let_def list_all_iff intro!: captures_cover_flows split: sum.splits)

lemma RateRI_covers:
  assumes "RateRI e ts path params g = (Done, cs, g')"
  shows "captures_cover cs"
  using assms
  by (auto simp: RateRI_def Let_def Intn_def captures_cover_def Tcpdump_def split: sum.splits if_splits)

lemma DurationTCPRI_covers:
  assumes "DurationTCPRI e ts path params g = (Done, cs, g')"
  shows "captures_cover cs"
  using assms
  by (auto simp: DurationTCPRI_def Let_def Intn_def captures_cover_def Tcpdump_def
      split: sum.splits if_splits panics.splits)

lemma TraceRi_covers:
  assumes "TraceRi e ts path params g = (Done, cs, g')"
  shows "captures_cover cs"
  using assms by (auto simp: TraceRi_def Let_def captures_cover_def Tcpdump_def)

subsection \<open>cdsf\<close>

lemma sint_small: "small n \<Longrightarrow> sint n = int (unat n)"
proof -
  assume "small n"
  then have "int (unat n) < 2 ^ 32" by (simp add: small_def del: of_nat_unat)
  then have "uint n < 2 ^ 63" by simp
  then show ?thesis by (simp add: sint_uint int64_nonneg_id flip: int64_def)
qed

lemma sdiv_nat: "0 < s \<Longrightarrow> nat (int r sdiv int s * int s) = r div s * s"
proof -
  assume "0 < s"
  then have "int r sdiv int s = int (r div s)"
    by (cases "r = 0") (simp_all add: signed_divide_int_def zdiv_int)
  then show ?thesis by (metis nat_int of_nat_mult)
qed

lemma cdsf_cooldown:
  assumes "small step" and "step \<noteq> 0"
  shows "nat (int r sdiv sint step * sint step) = r div unat step * unat step"
  using assms by (simp add: sint_small unat_gt_0 sdiv_nat del: of_nat_unat)

lemma cdsf_flow_duration:
  "0 \<le> c \<Longrightarrow> c < 2 ^ 62 \<Longrightarrow>
   rateW_GetDuration [rate_seg p (800 * millisecond), rate_seg 0 c, rate_seg p (800 * millisecond)] =
   1600 * millisecond + c"
  by (simp add: rateW_GetDuration_def rate_GetDuration_def rate_seg_def int64_nonneg_id)

lemma cooldown_ms: "c < 1400 \<Longrightarrow> int64 (int c * millisecond) = int c * millisecond"
  by (intro int64_nonneg_id) simp_all

lemma cdsf_flow_within:
  assumes "flows_within lo (start + second) acc" and "lo \<le> start" and "c < (1400 :: nat)"
  defines "t \<equiv> start + 1600 * millisecond + int c * millisecond"
  shows "flows_within lo (t + 2000 * millisecond + second) (acc @ [flow e path nm d t (RateSender
     [rate_seg p (800 * millisecond), rate_seg 0 (int c * millisecond), rate_seg p (800 * millisecond)])])"
proof -
  have "flows_within lo (t + 2000 * millisecond + second) acc"
    by (rule flows_within_mono [OF assms(1)]) (simp_all add: t_def)
  then show ?thesis
    using cdsf_flow_duration [of "int c * millisecond" p] assms(2,3) by (simp add: t_def)
qed

lemma cdsf_loop_within:
  assumes "small step" and "unat mx \<le> 1400"
    and "cdsf_loop fuel e path d deadline rate step mx cds start g acc = LoopEnd (cs, stop, g')"
    and "list_all is_flow acc" and "flows_within lo (start + second) acc" and "lo \<le> start"
    and "start \<le> deadline + 2 * second"
  shows "list_all is_flow cs \<and> flows_within lo (stop + second) cs \<and> lo \<le> stop \<and> stop \<le> deadline + 2 * second"
  using assms(3-7)
proof (induction fuel arbitrary: cds start g acc)
  case (Suc fuel)
  let ?c = "(g 0 mod unat mx) div unat step * unat step" and ?g = "\<lambda>k. g (Suc k)"
  have ne: "step \<noteq> 0" "0 < sint mx" using Suc.prems(1) by (auto split: if_splits)
  have cool: "nat (int r sdiv sint step * sint step) = r div unat step * unat step" for r
    by (rule cdsf_cooldown [OF assms(1) ne(1)])
  have "0 < unat mx" using ne(2) by (metis gr0I signed_0 unsigned_0 unat_eq_zero less_irrefl)
  then have "g 0 mod unat mx < 1400" using assms(2) mod_less_divisor [of "unat mx" "g 0"] by linarith
  moreover have "?c \<le> g 0 mod unat mx" by (rule div_times_less_eq_dividend)
  ultimately have cn: "?c < 1400" by linarith
  then have c: "int ?c < 1400" by linarith
  note ms = cooldown_ms [OF cn]
  let ?next = "start + 1600 * millisecond + int ?c * millisecond"
  show ?case
  proof (cases "?c \<in> set cds")
    case True
    then have "cdsf_loop fuel e path d deadline rate step mx cds start ?g acc = LoopEnd (cs, stop, g')"
      using Suc.prems(1) ne by (simp add: Intn_def Let_def cool)
    then show ?thesis using Suc.prems by (intro Suc.IH)
  next
    case new: False
    show ?thesis
    proof (cases "?next > deadline")
      case True
      then have "cs = acc \<and> stop = start" using Suc.prems(1) ne new ms by (simp add: Intn_def Let_def cool)
      then show ?thesis using Suc.prems by simp
    next
      case False
      let ?f = "\<lambda>nm. flow e path nm d ?next (RateSender [rate_seg (mbps_pps rate) (800 * millisecond),
          rate_seg 0 (int ?c * millisecond), rate_seg (mbps_pps rate) (800 * millisecond)])"
      obtain nm where rest: "cdsf_loop fuel e path d deadline rate step mx (cds @ [?c])
          (?next + 2000 * millisecond) ?g (acc @ [?f nm]) = LoopEnd (cs, stop, g')"
        using Suc.prems(1) ne new ms False by (auto simp: Intn_def Let_def cool)
      have "flows_within lo (?next + 2000 * millisecond + second) (acc @ [?f nm])"
        by (rule cdsf_flow_within [OF Suc.prems(3,4) cn])
      then show ?thesis
        using rest Suc.prems(2,4) False by (intro Suc.IH [OF rest]) simp_all
    qed
  qed
qed simp

lemma cdsf_returned:
  assumes "is_RI ts" and "small_params params" and "pm_Uint params ''max'' = Inr mx" and "unat mx \<le> 1400"
    and "CoolDownSameFlow fuel e ts path params g = (out, cs, g')"
  shows "out \<noteq> ProcErr TooLong \<and>
     (out = Done \<longrightarrow> flows_within (ts + second) (NextRI ts + 2 * second) cs \<and> captures_cover cs)"
proof (cases "out = Done \<or> out = ProcErr TooLong")
  case True
  then obtain d rates step cs0 stop where loop: "cdsf_loop fuel e path d (ts + 14 * second)
      (rates ! (g 0 mod length rates)) step mx [] (ts + second) (\<lambda>k. g (Suc k)) [] = LoopEnd (cs0, stop, g')"
    and step: "pm_Uint params ''step'' = Inr step"
    and res: "out = (if stop > NextRI ts + second then ProcErr TooLong else Done)"
      "cs = cs0 @ Tcpdump path ts (time_Sub stop ts + second)"
    using assms(1,3,5)
    by (auto simp: CoolDownSameFlow_def Intn_def Let_def deadline_of_RI
        split: sum.splits if_splits loop_result.splits prod.splits)
  have w: "list_all is_flow cs0 \<and> flows_within (ts + second) (stop + second) cs0 \<and>
      ts + second \<le> stop \<and> stop \<le> ts + 14 * second + 2 * second"
    by (rule cdsf_loop_within [OF pm_Uint_small [OF assms(2) step] assms(4) loop]) simp_all
  then have sub: "time_Sub stop ts = stop - ts" by simp
  have "captures_cover cs"
    unfolding res(2) using w by (intro captures_cover_Tcpdump) (auto simp: sub intro: flows_within_mono)
  moreover have "flows_within (ts + second) (NextRI ts + 2 * second) cs"
    unfolding res(2) using w assms(1) by (auto simp: NextRI_of_RI intro: flows_within_mono)
  moreover have "out = Done" using res(1) w assms(1) by (simp add: NextRI_of_RI)
  ultimately show ?thesis by simp
qed simp

text \<open>After \<open>j\<close> tests the start lies in a window that leaves room for a third test and none for a fifth.\<close>

definition cdsf_window :: "gtime \<Rightarrow> nat \<Rightarrow> gtime \<Rightarrow> bool" where
  "cdsf_window ts j start \<longleftrightarrow> j \<le> 4 \<and> ts + second + int j * (3600 * millisecond) \<le> start \<and>
     start \<le> ts + second + int j * (5 * second)"

abbreviation cdsf_drawn :: "u64 \<Rightarrow> u64 \<Rightarrow> nat \<Rightarrow> nat" where
  "cdsf_drawn step mx r \<equiv> r mod unat mx div unat step * unat step"

lemma cdsf_window_late:
  "cdsf_window ts j start \<Longrightarrow> c < 1400 \<Longrightarrow> start + 1600 * millisecond + int c * millisecond > ts + 14 * second \<Longrightarrow> 3 \<le> j"
  by (simp add: cdsf_window_def)

lemma cdsf_window_Suc:
  "cdsf_window ts j start \<Longrightarrow> c < 1400 \<Longrightarrow> \<not> start + 1600 * millisecond + int c * millisecond > ts + 14 * second \<Longrightarrow>
   cdsf_window ts (Suc j) (start + 1600 * millisecond + int c * millisecond + 2000 * millisecond)"
  by (auto simp: cdsf_window_def)

lemma cdsf_loop_returns:
  assumes "small step" and "step \<noteq> 0" and "small mx" and "0 < unat mx" and "unat mx \<le> 1400"
    and "cdsf_window ts (length acc) start"
    and "5 \<le> length acc + card (cooldowns_drawn (cdsf_drawn step mx) g fuel - set cds)"
  shows "\<exists>cs stop g'. cdsf_loop fuel e path d (ts + 14 * second) rate step mx cds start g acc = LoopEnd (cs, stop, g') \<and>
     length cs \<in> {3, 4}"
  using assms(6,7)
proof (induction fuel arbitrary: cds start g acc)
  case 0
  then show ?case by (simp add: cdsf_window_def cooldowns_drawn_def)
next
  case (Suc fuel)
  let ?c = "cdsf_drawn step mx (g 0)" and ?g = "\<lambda>k. g (Suc k)"
  have pos: "0 < sint mx" using assms(3,4) by (simp add: sint_small del: of_nat_unat)
  have "?c \<le> g 0 mod unat mx" by (rule div_times_less_eq_dividend)
  then have cn: "?c < 1400" using assms(5) mod_less_divisor [OF assms(4), of "g 0"] by linarith
  note ms = cooldown_ms [OF cn] and cool = cdsf_cooldown [OF assms(1,2)]
  let ?next = "start + 1600 * millisecond + int ?c * millisecond"
  consider (old) "?c \<in> set cds" | (late) "?c \<notin> set cds" "?next > ts + 14 * second"
    | (test) "?c \<notin> set cds" "\<not> ?next > ts + 14 * second" by blast
  then show ?case
  proof cases
    case old
    then have "5 \<le> length acc + card (cooldowns_drawn (cdsf_drawn step mx) ?g fuel - set cds)"
      using Suc.prems(2) cooldowns_left_old [of "cdsf_drawn step mx" g cds fuel] by simp
    from Suc.IH [OF Suc.prems(1) this] show ?thesis using old pos assms(2) by (simp add: Intn_def Let_def cool)
  next
    case late
    then have "3 \<le> length acc" using cdsf_window_late [OF Suc.prems(1) cn] by blast
    then show ?thesis
      using late pos assms(2) ms Suc.prems(1) by (auto simp: Intn_def Let_def cool cdsf_window_def)
  next
    case test
    have win: "cdsf_window ts (length (acc @ [f])) (?next + 2000 * millisecond)" for f
      using cdsf_window_Suc [OF Suc.prems(1) cn test(2)] by simp
    have "5 \<le> length (acc @ [f]) + card (cooldowns_drawn (cdsf_drawn step mx) ?g fuel - set (cds @ [?c]))" for f
      using Suc.prems(2) cooldowns_left_new [of "cdsf_drawn step mx" g fuel cds] by simp
    from Suc.IH [OF win this] show ?thesis using test pos assms(2) ms by (simp add: Intn_def Let_def cool)
  qed
qed

text \<open>When the largest cooldown is below one step, the only cooldown is 0: after the first test
  the loop draws it forever.\<close>

lemma cdsf_loop_stuck:
  assumes "small step" and "unat mx \<le> unat step" and "step \<noteq> 0" and "0 < sint mx" and "0 \<in> set cds"
  shows "cdsf_loop fuel e path d deadline rate step mx cds start g acc = LoopRunning"
proof (induction fuel arbitrary: g)
  case (Suc fuel)
  have "0 < unat mx" using assms(4) by (metis gr0I signed_0 unat_eq_zero less_irrefl)
  then have "g 0 mod unat mx div unat step = 0"
    using assms(2) mod_less_divisor [of "unat mx" "g 0"] by (intro div_less) linarith
  then show ?case
    using Suc assms by (simp add: Intn_def Let_def cdsf_cooldown)
qed simp

definition interval_procedures :: "procedure_func set" where
  "interval_procedures = {Burst, MultiBurst, MultiDurationRate, ProgressiveDurationQUIC, MultiFlow, SwitchFlow,
      MouseElephantFlows, QUIC, DurationTCP}"

lemma interval_plan_fits:
  assumes "run \<in> interval_procedures"
    and "is_RI ts" and "small_params params" and "known_ccas params" and "product_ok e"
    and "run e ts path params g = (out, cs, g')"
  shows "(\<exists>err. out = ProcErr err) \<or> out = Done \<and> plan_fits ts cs"
proof -
  consider "run = Burst \<or> run = MultiBurst" | "run = MultiDurationRate" | "run = ProgressiveDurationQUIC"
    | "run = MultiFlow" | "run = SwitchFlow" | "run = MouseElephantFlows" | "run = QUIC" | "run = DurationTCP"
    using assms(1) unfolding interval_procedures_def by blast
  then show ?thesis
  proof cases
    case 1
    with assms(6) show ?thesis
      unfolding Burst_def MultiBurst_def by (auto dest: run_MultiBurst_fits [OF assms(2)])
  qed (use assms(6) in \<open>auto dest: MultiDurationRate_fits [OF assms(2,3)]
      ProgressiveDurationQUIC_fits [OF assms(2,3)] MultiFlow_fits [OF assms(2)]
      SwitchFlow_fits [OF assms(2)] MouseElephantFlows_fits [OF assms(2)] QUIC_fits [OF assms(2)]
      DurationTCP_fits [OF assms(2,3,5,4)]\<close>)
qed

section \<open>Properties\<close>

definition example_env :: proc_env where
  "example_env = \<lparr>pe_IP = ''10.0.0.1'', pe_Now = 0, pe_Product = List.product\<rparr>"

definition example_params :: param_map where
  "example_params = [''direction'' \<mapsto> PString ''ul'', ''durations'' \<mapsto> PUints [1000, 4000],
     ''ratesUL'' \<mapsto> PUints [140], ''ratesDL'' \<mapsto> PUints [500], ''ccas'' \<mapsto> PTCPCCAs [CUBIC, BBR1],
     ''step'' \<mapsto> PUint 50, ''max'' \<mapsto> PUint 600]"

lemma example_env_product: "product_ok example_env"
  by (simp add: product_ok_def example_env_def)

lemma example_params_small: "small_params example_params"
  by (auto simp: small_params_def example_params_def small_def split: if_splits)

lemma example_params_ccas: "known_ccas example_params"
  by (simp add: known_ccas_def example_params_def TCPCCAS_def)

lemma example_RI: "is_RI (12 * second)"
  by (simp add: is_RI_def time_Second_def)

text \<open>C12. The procedures that fill one reconfiguration interval: started for a reconfiguration
  instant, with any random order and any accepted parameters (numbers of at most 32 bits, known
  congestion control algorithms), they never hit their "too many tests" panic; either a parameter is
  missing, or every flow they schedule starts at least one second after the instant and ends no
  later than the next one, and both packet captures span all of them.\<close>

theorem interval_schedules_fit:
  assumes "run \<in> interval_procedures"
    and "is_RI ts" and "small_params params" and "known_ccas params" and "product_ok e"
    and "run e ts path params g = (out, cs, g')"
  shows "(\<exists>err. out = ProcErr err) \<or>
     out = Done \<and> flows_within (ts + second) (NextRI ts) cs \<and> captures_cover cs"
  using interval_plan_fits [OF assms] assms(2) by (simp add: plan_fits_def NextRI_of_RI)

theorem interval_schedules_fit_witness:
  "is_RI (12 * second) \<and>
   (case DurationTCP example_env (12 * second) ''r'' example_params (\<lambda>k. k) of (out, cs, g') \<Rightarrow>
      (\<exists>err. out = ProcErr err) \<or>
      out = Done \<and> flows_within (12 * second + second) (NextRI (12 * second)) cs \<and> captures_cover cs)"
proof -
  obtain out cs g' where run: "DurationTCP example_env (12 * second) ''r'' example_params (\<lambda>k. k) = (out, cs, g')"
    by (metis prod_cases3)
  have mem: "DurationTCP \<in> interval_procedures" by (simp add: interval_procedures_def)
  show ?thesis
    using interval_schedules_fit [OF mem example_RI example_params_small example_params_ccas
        example_env_product run] example_RI run by simp
qed

text \<open>C33. \<open>cddf\<close>: once the random draws have produced five different cooldowns, the loop has ended;
  it has then scheduled exactly four tests of two flows each, all of them before the next
  reconfiguration and spanned by the captures, although the deadline is compared with the start of
  a test only.\<close>

theorem cddf_schedule:
  assumes "is_RI ts" and "pm_Direction params = Inr d" and "5 \<le> card (cooldowns_drawn cddf_cooldown g fuel)"
  shows "\<exists>cs g'. CoolDownDifferentFlow fuel e ts path params g = (Done, cs, g') \<and>
     length (filter is_flow cs) = 8 \<and> flows_within (ts + second) (NextRI ts) cs \<and> captures_cover cs"
proof -
  have win: "cddf_window ts 0 (ts + second)" by (simp add: cddf_window_def)
  obtain cs0 stop g' where run: "cddf_loop fuel e path d (ts + 14 * second) [] (ts + second) g = Some (cs0, stop, g')"
    using cddf_loop_returns [OF win, of g fuel "[]" e path d] assms(3) by auto
  let ?cs = "cs0 @ Tcpdump path ts (time_Sub stop ts + second)"
  have res: "CoolDownDifferentFlow fuel e ts path params g = (Done, ?cs, g')"
    using assms(1,2) run by (simp add: CoolDownDifferentFlow_def deadline_of_RI)
  have "list_all is_flow cs0 \<and> length cs0 = 8" using cddf_loop_within [OF run win] by simp
  then have "length (filter is_flow ?cs) = 8" by (simp add: list_all_iff Tcpdump_def)
  moreover have "plan_fits ts ?cs" using CoolDownDifferentFlow_fits [OF assms(1) res] by simp
  ultimately show ?thesis using res assms(1) by (auto simp: plan_fits_def NextRI_of_RI)
qed

theorem cddf_schedule_witness:
  "is_RI (12 * second) \<and> pm_Direction example_params = Inr UL \<and>
   (case CoolDownDifferentFlow 5 example_env (12 * second) ''r'' example_params (\<lambda>k. 10 * k) of
      (out, cs, g') \<Rightarrow> out = Done \<and> length (filter is_flow cs) = 8 \<and> captures_cover cs)"
proof -
  have dir: "pm_Direction example_params = Inr UL"
    by (simp add: pm_Direction_def example_params_def ParseDirection_def)
  have "cooldowns_drawn cddf_cooldown (\<lambda>k. 10 * k) 5 = {0, 10, 20, 30, 40}"
    by code_simp
  then have card: "5 \<le> card (cooldowns_drawn cddf_cooldown (\<lambda>k. 10 * k) 5)" by simp
  obtain cs g' where "CoolDownDifferentFlow 5 example_env (12 * second) ''r'' example_params (\<lambda>k. 10 * k) =
      (Done, cs, g')" "length (filter is_flow cs) = 8" "captures_cover cs"
    using cddf_schedule [OF example_RI dir card, of example_env "''r''"] by blast
  then show ?thesis using example_RI dir by simp
qed

text \<open>\<open>prograte\<close> and \<open>rampupprobe\<close>: whether the schedule is accepted does not depend on the
  random order: it is, exactly when the durations and gaps add up to at most 13 seconds, and then
  all flows end before the next reconfiguration and the captures span them; otherwise the procedure
  panics.\<close>

theorem prograte_accepts_iff:
  assumes "is_RI ts" and "small_params params" and "pm_Direction params = Inr d"
    and "pm_Uints params ''durations'' = Inr durs" and "run \<in> {ProgressiveRate, RampUpProbe}"
    and "run e ts path params g = (out, cs, g')"
  shows "(if sum_list (map prograte_cost durs) \<le> 13 * second
      then out = Done \<and> flows_within (ts + second) (NextRI ts) cs \<and> captures_cover cs
      else out = ProcPanic ''Too many tests'')"
proof -
  have "run = ProgressiveRate \<or> run = RampUpProbe" using assms(5) by simp
  from prograte_outcome [OF assms(1-4) this assms(6)] show ?thesis
    using assms(1) by (simp add: plan_fits_def NextRI_of_RI split: if_splits)
qed

theorem prograte_accepts_iff_witness:
  "(case ProgressiveRate example_env (12 * second) ''r'' example_params (\<lambda>k. k) of (out, cs, g') \<Rightarrow>
      out = Done \<and> flows_within (12 * second + second) (NextRI (12 * second)) cs \<and> captures_cover cs)"
proof -
  obtain out cs g' where run: "ProgressiveRate example_env (12 * second) ''r'' example_params (\<lambda>k. k) = (out, cs, g')"
    by (metis prod_cases3)
  have dir: "pm_Direction example_params = Inr UL"
    by (simp add: pm_Direction_def example_params_def ParseDirection_def)
  have durs: "pm_Uints example_params ''durations'' = Inr [1000, 4000]" by (simp add: example_params_def)
  have mem: "ProgressiveRate \<in> {ProgressiveRate, RampUpProbe}" by simp
  have "sum_list (map prograte_cost [1000, 4000]) \<le> 13 * second"
    by (simp add: prograte_cost_def ms_duration_exact)
  then show ?thesis
    using prograte_accepts_iff [OF example_RI example_params_small dir durs mem run] run by simp
qed

text \<open>\<open>cdsf\<close> starts a test at the instant at which it computed that the test would end: with the
  default parameters and suitable draws the last flow, which "still fits into the current RI",
  ends after the next reconfiguration.\<close>

theorem cdsf_overruns:
  "\<exists>g. case CoolDownSameFlow 10 example_env (12 * second) ''r'' example_params g of (out, cs, g') \<Rightarrow>
     out = Done \<and> list_ex (\<lambda>c. is_flow c \<and> client_end c > NextRI (12 * second)) cs"
proof (rule exI [of _ "\<lambda>k. if k = 0 then 0 else 50 * (k - 1)"])
  show "case CoolDownSameFlow 10 example_env (12 * second) ''r'' example_params
      (\<lambda>k. if k = 0 then 0 else 50 * (k - 1)) of (out, cs, g') \<Rightarrow>
     out = Done \<and> list_ex (\<lambda>c. is_flow c \<and> client_end c > NextRI (12 * second)) cs"
    by code_simp
qed

text \<open>C34. \<open>cdsf\<close> with a cooldown bound of at most 1.4 seconds: once the random draws have produced five different
  cooldowns, the loop has ended; it has scheduled three or four tests, whatever the draws were, the captures
  span all flows, which end within two seconds of the next reconfiguration, and the final "takes
  longer than one RI" error does not occur.\<close>

theorem cdsf_schedule:
  assumes "is_RI ts" and "small_params params" and "pm_Direction params = Inr d"
    and "ratesFor d params = Inr rates" and "rates \<noteq> []" and "pm_Uint params ''step'' = Inr step" and "step \<noteq> 0"
    and "pm_Uint params ''max'' = Inr mx" and "0 < unat mx" and "unat mx \<le> 1400"
    and "5 \<le> card (cooldowns_drawn (cdsf_drawn step mx) (\<lambda>k. g (Suc k)) fuel)"
  shows "\<exists>cs g'. CoolDownSameFlow fuel e ts path params g = (Done, cs, g') \<and>
     length (filter is_flow cs) \<in> {3, 4} \<and> flows_within (ts + second) (NextRI ts + 2 * second) cs \<and> captures_cover cs"
proof -
  note small = pm_Uint_small [OF assms(2,6)] pm_Uint_small [OF assms(2,8)]
  have "cdsf_window ts (length ([] :: client list)) (ts + second)" by (simp add: cdsf_window_def)
  from cdsf_loop_returns [OF small(1) assms(7) small(2) assms(9,10) this, of "\<lambda>k. g (Suc k)" fuel "[]" e path d
      "rates ! (g 0 mod length rates)"] assms(11)
  obtain cs0 stop g' where run: "cdsf_loop fuel e path d (ts + 14 * second) (rates ! (g 0 mod length rates)) step mx []
      (ts + second) (\<lambda>k. g (Suc k)) [] = LoopEnd (cs0, stop, g')" and len: "length cs0 \<in> {3, 4}" by auto
  let ?cs = "cs0 @ Tcpdump path ts (time_Sub stop ts + second)"
  have res: "CoolDownSameFlow fuel e ts path params g =
      (if stop > NextRI ts + second then ProcErr TooLong else Done, ?cs, g')"
    using run assms by (simp add: CoolDownSameFlow_def Intn_def Let_def deadline_of_RI)
  have "list_all is_flow cs0" using cdsf_loop_within [OF small(1) assms(10) run, of "ts + second"] by simp
  then have "length (filter is_flow ?cs) \<in> {3, 4}" using len by (simp add: list_all_iff Tcpdump_def)
  with cdsf_returned [OF assms(1,2,8,10) res] res show ?thesis by (auto split: if_splits)
qed

theorem cdsf_schedule_witness:
  "case CoolDownSameFlow 5 example_env (12 * second) ''r'' example_params (\<lambda>k. 50 * k) of (out, cs, g') \<Rightarrow>
     out = Done \<and> length (filter is_flow cs) \<in> {3, 4} \<and> captures_cover cs"
proof -
  have dir: "pm_Direction example_params = Inr UL"
    by (simp add: pm_Direction_def example_params_def ParseDirection_def)
  have rates: "ratesFor UL example_params = Inr [140]" and st: "pm_Uint example_params ''step'' = Inr 50"
    and mx: "pm_Uint example_params ''max'' = Inr 600"
    by (simp_all add: ratesFor_def example_params_def)
  have "cooldowns_drawn (cdsf_drawn 50 600) (\<lambda>k. 50 * Suc k) 5 = {50, 100, 150, 200, 250}" by code_simp
  then have card: "5 \<le> card (cooldowns_drawn (cdsf_drawn 50 600) (\<lambda>k. 50 * Suc k) 5)" by simp
  obtain cs g' where "CoolDownSameFlow 5 example_env (12 * second) ''r'' example_params (\<lambda>k. 50 * k) = (Done, cs, g')"
    "length (filter is_flow cs) \<in> {3, 4}" "captures_cover cs"
    using cdsf_schedule [OF example_RI example_params_small dir rates _ st _ mx _ _ card, of example_env "''r''"] by auto
  then show ?thesis by simp
qed

text \<open>\<open>cdsf\<close> does not return at all when its cooldown bound is not larger than the step: after
  the first test the only possible cooldown, 0, is drawn and rejected forever, whatever the
  random source answers.\<close>

theorem cdsf_hangs:
  assumes "is_RI ts" and "pm_Direction params = Inr d" and "ratesFor d params = Inr rates" and "rates \<noteq> []"
    and "pm_Uint params ''step'' = Inr step" and "pm_Uint params ''max'' = Inr mx"
    and "small step" and "0 < unat mx" and "unat mx \<le> unat step"
  shows "fst (CoolDownSameFlow fuel e ts path params g) = NoReturn"
proof -
  have nz: "step \<noteq> 0" using assms(8,9) by auto
  have "small mx" using assms(7,9) by (simp add: small_def)
  then have pos: "0 < sint mx" using assms(8) by (simp add: sint_small del: of_nat_unat)
  have zero: "int (r mod unat mx) sdiv sint step = 0" for r
  proof -
    have "r mod unat mx < unat step" using assms(9) mod_less_divisor [OF assms(8), of r] by linarith
    then have "int (r mod unat mx) div int (unat step) = 0" by (simp add: zdiv_int [symmetric] del: of_nat_unat)
    then show ?thesis by (simp add: sint_small [OF assms(7)] signed_divide_int_def del: of_nat_unat)
  qed
  have "cdsf_loop fuel e path d (ts + 14 * second) rate step mx [] (ts + second) g' [] = LoopRunning" for g' rate
  proof (cases fuel)
    case (Suc f)
    have stuck: "cdsf_loop f e path d deadline rate step mx [0] start g'' acc = LoopRunning"
      for deadline start g'' acc
      by (rule cdsf_loop_stuck [OF assms(7,9) nz pos]) simp
    show ?thesis using nz pos by (simp add: Suc Intn_def Let_def zero stuck)
  qed simp
  then show ?thesis
    using assms(1-6) by (simp add: CoolDownSameFlow_def Intn_def Let_def deadline_of_RI)
qed

definition narrow_params :: param_map where
  "narrow_params = [''direction'' \<mapsto> PString ''ul'', ''ratesUL'' \<mapsto> PUints [140],
     ''step'' \<mapsto> PUint 100, ''max'' \<mapsto> PUint 100]"

theorem cdsf_hangs_witness:
  "fst (CoolDownSameFlow 1000 example_env (12 * second) ''r'' narrow_params (\<lambda>k. 17 * k)) = NoReturn"
proof (rule cdsf_hangs [OF example_RI])
  show "pm_Direction narrow_params = Inr UL"
    by (simp add: pm_Direction_def narrow_params_def ParseDirection_def)
  show "ratesFor UL narrow_params = Inr [140]" "pm_Uint narrow_params ''step'' = Inr 100"
    "pm_Uint narrow_params ''max'' = Inr 100"
    by (simp_all add: ratesFor_def narrow_params_def)
qed (simp_all add: small_def)

lemma packetdur_segment_budget:
  assumes "b < 2 ^ 32" and "a < 2 ^ 32"
  shows "segment_budget (rate_seg (of_nat a * (1000 div of_nat b)) (ms_duration (of_nat b))) =
     a * (1000 div b) * b div 1000"
proof -
  have ub: "unat (of_nat b :: u64) = b" "unat (of_nat a :: u64) = a" using assms by (simp_all add: unat_of_nat64)
  have q: "unat (1000 div (of_nat b :: u64)) = 1000 div b" by (simp add: unat_div ub)
  have "1000 div b \<le> 1000" by (rule div_le_dividend)
  then have "a * (1000 div b) \<le> 2 ^ 32 * 1000" using assms(2) by (intro mult_le_mono) simp_all
  then have p: "unat (of_nat a * (1000 div of_nat b) :: u64) = a * (1000 div b)"
    by (simp add: unat_word_ariths(2) ub q)
  have "uint (of_nat b :: u64) = int b" using ub(1) by (metis uint_nat)
  then have d: "ms_duration (of_nat b) = int b * millisecond" using assms(1) by (simp add: ms_duration_exact)
  have "uint (of_nat a * (1000 div of_nat b) :: u64) = int (a * (1000 div b))" using p by (metis uint_nat)
  then have "segment_budget (rate_seg (of_nat a * (1000 div of_nat b)) (ms_duration (of_nat b))) =
      nat (int (a * (1000 div b) * b * 1000000) div int (1000 * 1000000))"
    by (simp add: segment_budget_def rate_seg_def d ac_simps)
  also have "\<dots> = a * (1000 div b) * b * 1000000 div (1000 * 1000000)" by (metis nat_int zdiv_int)
  finally show ?thesis by (simp add: ac_simps)
qed

text \<open>A flow that sends one of the listed numbers of packets over one of the listed durations.\<close>

fun packet_flow :: "(nat \<times> nat) set \<Rightarrow> client \<Rightarrow> bool" where
  "packet_flow args (SenderClient c) =
     (case sc_Sender c of
        RateSender [s] \<Rightarrow> \<exists>(b, a) \<in> args. Duration s = int b * millisecond \<and>
          segment_budget s = a * (1000 div b) * b div 1000
      | _ \<Rightarrow> False)"
| "packet_flow args (CommandClient c) = False"

lemma packet_flow_test:
  assumes "b < 2 ^ 32" and "a < 2 ^ 32" and "(b, a) \<in> args"
  shows "packet_flow args (flow e path nm d start
     (RateSender [rate_seg (of_nat a * (1000 div of_nat b)) (ms_duration (of_nat b))]))"
proof -
  have "unat (of_nat b :: u64) = b" using assms(1) by (simp add: unat_of_nat64)
  then have "uint (of_nat b :: u64) = int b" by (metis uint_nat)
  then have "ms_duration (of_nat b) = int b * millisecond" using assms(1) by (simp add: ms_duration_exact)
  then show ?thesis
    using packetdur_segment_budget [OF assms(1,2)] assms(3) by (auto simp: flow_def rate_seg_def)
qed

lemma packetdur_loop_flows:
  assumes "packetdur_loop e path d deadline args order start acc = LoopEnd (cs, stop)"
    and "list_all (packet_flow A) acc"
    and "\<forall>i \<in> set order. small (fst (args ! i)) \<and> small (snd (args ! i)) \<and>
      (unat (fst (args ! i)), unat (snd (args ! i))) \<in> A"
  shows "list_all (packet_flow A) cs"
  using assms
proof (induction order arbitrary: start acc)
  case (Cons i order)
  obtain b a where ba: "args ! i = (b, a)" by fastforce
  let ?c = "flow e path (''packets_'' @ dirs d @ ''_'' @ d4 a @ ''_'' @ d4 b @ ''.csv'') d start
      (RateSender [rate_seg (a * (1000 div b)) (ms_duration b)])"
  have "packet_flow A ?c"
    using packet_flow_test [of "unat b" "unat a" A] Cons.prems(3) by (simp add: ba small_def)
  then have acc: "list_all (packet_flow A) (acc @ [?c])" using Cons.prems(2) by simp
  show ?case
  proof (cases "start + ms_duration b + 2000 * millisecond + ms_duration b > deadline")
    case True
    then have "cs = acc @ [?c]" using Cons.prems(1) by (auto simp: ba Let_def split: if_splits)
    then show ?thesis using acc by simp
  next
    case False
    then have "packetdur_loop e path d deadline args order (start + ms_duration b + 2000 * millisecond)
        (acc @ [?c]) = LoopEnd (cs, stop)"
      using Cons.prems(1) by (auto simp: ba Let_def split: if_splits)
    then show ?thesis using acc Cons.prems(3) by (intro Cons.IH) auto
  qed
qed simp

text \<open>What a \<open>packetdur\<close> test for \<open>a\<close> packets over \<open>b\<close> milliseconds can send: its rate is computed
  with an integer division, so the budget of the scheduled flow is \<open>a * (1000 div b) * b div 1000\<close>
  packets, which is \<open>a\<close> when \<open>b\<close> divides 1000 and less otherwise (1120 instead of 1400 packets for
  the default duration of 400 ms).\<close>

theorem packetdur_budget:
  assumes "small_params params" and "product_ok e" and "pm_Uints params ''durations'' = Inr durs"
    and "pm_Uints params ''packets'' = Inr nums" and "PacketsDuration e ts path params g = (Done, cs, g')"
  shows "list_all (packet_flow (unat ` set durs \<times> unat ` set nums)) (filter is_flow cs)"
proof -
  let ?args = "pe_Product e durs nums"
  obtain d cs0 stop where loop: "packetdur_loop e path d (deadline_of ts) ?args (fst (Perm g (length ?args)))
      (ts + second) [] = LoopEnd (cs0, stop)" and cs: "cs = cs0 @ Tcpdump path ts (15 * second)"
    using assms(3-5) by (auto simp: PacketsDuration_def Let_def split: sum.splits prod.splits loop_result.splits)
  have small: "list_all small durs" "list_all small nums"
    using pm_Uints_small [OF assms(1)] assms(3,4) by blast+
  have "fst (?args ! i) \<in> set durs \<and> snd (?args ! i) \<in> set nums" if "i \<in> set (fst (Perm g (length ?args)))" for i
    using product_nth [OF assms(2), of i durs nums] that by simp
  then have "list_all (packet_flow (unat ` set durs \<times> unat ` set nums)) cs0"
    using small by (intro packetdur_loop_flows [OF loop]) (auto simp: list_all_iff)
  then show ?thesis by (auto simp: cs list_all_iff Tcpdump_def)
qed

definition packet_params :: param_map where
  "packet_params = [''direction'' \<mapsto> PString ''ul'', ''durations'' \<mapsto> PUints [400], ''packets'' \<mapsto> PUints [1400]]"

theorem packetdur_budget_witness:
  "(case PacketsDuration example_env (12 * second) ''r'' packet_params (\<lambda>k. k) of (out, cs, g') \<Rightarrow>
      out = Done \<and> length (filter is_flow cs) = 1 \<and> list_all (packet_flow {(400, 1400)}) (filter is_flow cs)) \<and>
   (1400 * (1000 div 400) * 400 div 1000 :: nat) = 1120"
proof -
  obtain out cs g' where run: "PacketsDuration example_env (12 * second) ''r'' packet_params (\<lambda>k. k) = (out, cs, g')"
    by (metis prod_cases3)
  have res: "case PacketsDuration example_env (12 * second) ''r'' packet_params (\<lambda>k. k) of (out, cs, g') \<Rightarrow>
      out = Done \<and> length (filter is_flow cs) = 1" by code_simp
  have small: "small_params packet_params"
    by (auto simp: small_params_def packet_params_def small_def split: if_splits)
  have durs: "pm_Uints packet_params ''durations'' = Inr [400]" "pm_Uints packet_params ''packets'' = Inr [1400]"
    by (simp_all add: packet_params_def)
  have "PacketsDuration example_env (12 * second) ''r'' packet_params (\<lambda>k. k) = (Done, cs, g')"
    using run res by simp
  from packetdur_budget [OF small example_env_product durs this] show ?thesis using res run by simp
qed

end
