(* ===== verification/Test_Handlers.thy ===== *)
theory Test_Handlers
  imports Schedule Wire_Format Result_Rows
begin

text \<open>
  One test on the server (\<open>pkg/server.go\<close>): the request the client sends, the goroutine that
  serves it on a UDP, TCP or ICMP socket, the wait for the client's first packet, and the sender or
  receiver it runs; with \<open>waitUntil\<close> of \<open>pkg/common.go\<close>. What sockets, clocks and the run itself
  answer is an argument (record \<open>test_env\<close>). A value of the Go interface \<open>SenderParams\<close> is
  represented by the sender that carries it.
\<close>

section \<open>Requests, results and answers of the environment\<close>

record request_args =
  ra_ID :: string
  ra_Timeout :: gduration
  ra_StartAt :: gtime
  ra_ServerMode :: mode
  ra_Params :: "sender option"

text \<open>The dynamic types of a result that the sources use; the two enumerations of the \<open>tcpinfo\<close>
  package inside a TCP sample are numbers.\<close>

type_synonym metric = "(nat, nat) tcp_metric"

datatype any_result =
    SentMsgs "msg_sent list" | RcvdMsgs "msg_rcvd list" | TCPMetrics "metric list" | ResultDir string

datatype test_error =
    StartPassed gtime gtime | CtxErr | SetDeadlineErr | ReadErr string | ProbeCancelled
  | NoProbe | ProbeReplyErr | AcceptErr string | RunErr string | UnknownModeErr mode
  | WrongParams | ListenErr string | CommandErr string

record test_result =
  tr_Err :: "test_error option"
  tr_Res :: "any_result option"

datatype test_receiver = UDPReceiver | QUICReceiver | TCPReceiver | ICMPReceiver u16 int

type_synonym net_addr = string

text \<open>What a goroutine runs in the end: a sender towards an address or a receiver, under a
  context with a timeout.\<close>

datatype runner = RunSender sender net_addr gduration | RunReceiver test_receiver gduration

text \<open>One \<open>ReadFrom\<close>: a time-out, another error, or a datagram and its source.\<close>

datatype read_outcome = ReadTimeout | ReadFail string | ReadData "u8 list" net_addr

text \<open>The parts of an \<open>icmp.Message\<close> (package \<open>golang.org/x/net/icmp\<close>) the sources use: the type,
  and identifier, sequence number and data of the body if it is an \<open>Echo\<close>.\<close>

record icmp_message =
  im_Type :: int
  im_Echo :: "(int \<times> int \<times> u8 list) option"

record test_env =
  te_parse_icmp :: "u8 list \<Rightarrow> icmp_message option"
  te_set_deadline_ok :: bool
  te_read :: read_outcome
  te_reads :: "read_outcome list"
  te_write_ok :: bool
  te_accept :: "string + net_addr"
  te_now :: gtime
  te_ctx_err :: bool
  te_run :: "runner \<Rightarrow> any_result option \<times> string option"

section \<open>Waiting\<close>

text \<open>\<open>waitUntil\<close> read at the instant \<open>now\<close>; the last argument says whether the context has ended
  when the wait is over.\<close>

definition waitUntil :: "gtime \<Rightarrow> gtime \<Rightarrow> bool \<Rightarrow> test_error option" where
  "waitUntil now startAt ctxErr =
     (if \<not> IsZero startAt \<and> now > startAt then Some (StartPassed startAt now)
      else if ctxErr then Some CtxErr else None)"

definition firstContactDeadline :: "gtime \<Rightarrow> gtime \<Rightarrow> gtime" where
  "firstContactDeadline now startAt =
     (if IsZero startAt then now + 10 * second
      else
        let deadline = startAt + second;
            earliest = now + 2 * second
        in if deadline < earliest then earliest else deadline)"

definition waitForUDPProbe :: "test_env \<Rightarrow> test_error + net_addr" where
  "waitForUDPProbe env =
     (if \<not> te_set_deadline_ok env then Inl SetDeadlineErr
      else case te_read env of
        ReadFail e \<Rightarrow> Inl (ReadErr e)
      | ReadTimeout \<Rightarrow> if te_ctx_err env then Inl ProbeCancelled else Inl NoProbe
      | ReadData data raddr \<Rightarrow> if te_write_ok env then Inr raddr else Inl ProbeReplyErr)"

text \<open>The loop of \<open>waitForICMPProbe\<close> over the datagrams that arrive until the deadline makes
  \<open>ReadFrom\<close> fail; \<open>None\<close> is a loop that is still reading.\<close>

primrec waitForICMPProbe :: "(u8 list \<Rightarrow> icmp_message option) \<Rightarrow> u16 \<Rightarrow> read_outcome list \<Rightarrow>
    (test_error + net_addr \<times> u16) option" where
  "waitForICMPProbe parse echoID [] = None"
| "waitForICMPProbe parse echoID (r # rs) =
     (case r of
        ReadTimeout \<Rightarrow> Some (Inl NoProbe)
      | ReadFail e \<Rightarrow> Some (Inl (ReadErr e))
      | ReadData data raddr \<Rightarrow>
          (case parse data of
             None \<Rightarrow> waitForICMPProbe parse echoID rs
           | Some msg \<Rightarrow>
               if im_Type msg \<noteq> ICMPTypeEcho then waitForICMPProbe parse echoID rs
               else case im_Echo msg of
                 None \<Rightarrow> waitForICMPProbe parse echoID rs
               | Some (bodyID, bodySeq, bodyData) \<Rightarrow>
                   (case parseICMPData bodyData of
                      Inl e \<Rightarrow> waitForICMPProbe parse echoID rs
                    | Inr (echoIDData, punch) \<Rightarrow>
                        if \<not> punch then waitForICMPProbe parse echoID rs
                        else if echoIDData \<noteq> echoID then waitForICMPProbe parse echoID rs
                        else Some (Inr (raddr, of_int bodyID)))))"

section \<open>Sending and receiving\<close>

definition run_outcome :: "any_result option \<times> string option \<Rightarrow> test_result" where
  "run_outcome r = \<lparr>tr_Err = map_option RunErr (snd r), tr_Res = fst r\<rparr>"

definition failed :: "test_error \<Rightarrow> test_result" where
  "failed e = \<lparr>tr_Err = Some e, tr_Res = None\<rparr>"

text \<open>The socket deadline of \<open>handleSender\<close>.\<close>

definition sender_deadline :: "gduration \<Rightarrow> gduration" where
  "sender_deadline d = (let deadline = int64 (d * 2) in if deadline < 60 * second then 60 * second else deadline)"

definition handleSender :: "test_env \<Rightarrow> request_args \<Rightarrow> sender \<Rightarrow> net_addr \<Rightarrow> test_result" where
  "handleSender env args s raddr =
     (case waitUntil (te_now env) (ra_StartAt args) (te_ctx_err env) of
        Some e \<Rightarrow> failed e
      | None \<Rightarrow>
          if \<not> te_set_deadline_ok env then failed SetDeadlineErr
          else run_outcome (te_run env (RunSender s raddr (GetDuration s))))"

definition handleReceiver :: "test_env \<Rightarrow> request_args \<Rightarrow> test_receiver \<Rightarrow> test_result" where
  "handleReceiver env args r =
     (case waitUntil (te_now env) (ra_StartAt args) (te_ctx_err env) of
        Some e \<Rightarrow> failed e
      | None \<Rightarrow> run_outcome (te_run env (RunReceiver r (ra_Timeout args))))"

section \<open>The goroutines of the three socket types\<close>

text \<open>A type assertion \<open>args.Params.(T)\<close> panics when the value has another type or is nil.\<close>

definition assertion_failed :: "'a panics" where
  "assertion_failed = Panics ''interface conversion''"

definition udp_setup :: "request_args \<Rightarrow> (test_error + sender + test_receiver) panics" where
  "udp_setup args =
     (case ra_ServerMode args of
        SendBurst \<Rightarrow> (case ra_Params args of
            Some (BurstSender b) \<Rightarrow> Returns (Inr (Inl (BurstSender b))) | _ \<Rightarrow> assertion_failed)
      | SendRate \<Rightarrow> (case ra_Params args of
            Some (RateSender r) \<Rightarrow> Returns (Inr (Inl (RateSender r))) | _ \<Rightarrow> assertion_failed)
      | SendPeriodic \<Rightarrow> (case ra_Params args of
            Some (PeriodicSender p) \<Rightarrow> Returns (Inr (Inl (PeriodicSender p))) | _ \<Rightarrow> assertion_failed)
      | SendQUIC \<Rightarrow> (case ra_Params args of
            Some (QUICSender q) \<Rightarrow> Returns (Inr (Inl (QUICSender q))) | _ \<Rightarrow> assertion_failed)
      | ReceiveUDP \<Rightarrow> Returns (Inr (Inr UDPReceiver))
      | ReceiveQUIC \<Rightarrow> Returns (Inr (Inr QUICReceiver))
      | m \<Rightarrow> Returns (Inl (UnknownModeErr m)))"

definition handleRequestServerUDP :: "test_env \<Rightarrow> request_args \<Rightarrow> test_result panics" where
  "handleRequestServerUDP env args =
     (case udp_setup args of
        Panics m \<Rightarrow> Panics m
      | Returns (Inl e) \<Rightarrow> Returns (failed e)
      | Returns (Inr (Inl s)) \<Rightarrow>
          (case waitForUDPProbe env of
             Inl e \<Rightarrow> Returns (failed e)
           | Inr raddr \<Rightarrow> Returns (handleSender env args s raddr))
      | Returns (Inr (Inr r)) \<Rightarrow> Returns (handleReceiver env args r))"

definition handleRequestServerTCP :: "test_env \<Rightarrow> request_args \<Rightarrow> test_result panics" where
  "handleRequestServerTCP env args =
     (case ra_ServerMode args of
        ReceiveTCP \<Rightarrow> Returns (handleReceiver env args TCPReceiver)
      | SendTCP \<Rightarrow>
          (case ra_Params args of
             Some (TCPSender t) \<Rightarrow>
               if \<not> te_set_deadline_ok env then Returns (failed SetDeadlineErr)
               else (case te_accept env of
                   Inl e \<Rightarrow> Returns (failed (AcceptErr e))
                 | Inr raddr \<Rightarrow> Returns (handleSender env args (TCPSender t) raddr))
           | _ \<Rightarrow> assertion_failed)
      | m \<Rightarrow> Returns (failed (UnknownModeErr m)))"

text \<open>The second, checked assertion of \<open>SendICMP\<close> comes after an unchecked one on the same value, so
  its error branch is not reachable. A wait that is still reading has no result yet.\<close>

definition handleRequestServerICMP :: "test_env \<Rightarrow> request_args \<Rightarrow> test_result option panics" where
  "handleRequestServerICMP env args =
     (case ra_ServerMode args of
        SendICMP \<Rightarrow>
          (case ra_Params args of
             Some (ICMPSender i) \<Rightarrow>
               if \<not> te_set_deadline_ok env then Returns (Some (failed SetDeadlineErr))
               else (case waitForICMPProbe (te_parse_icmp env) (i_ClientEchoID i) (te_reads env) of
                   None \<Rightarrow> Returns None
                 | Some (Inl e) \<Rightarrow> Returns (Some (failed e))
                 | Some (Inr (raddr, echoID)) \<Rightarrow>
                     Returns (Some (handleSender env args (ICMPSender (i\<lparr>i_SenderEchoID := echoID\<rparr>)) raddr)))
           | _ \<Rightarrow> assertion_failed)
      | ReceiveICMP \<Rightarrow>
          (case ra_Params args of
             Some (ICMPSender i) \<Rightarrow> Returns (Some (handleReceiver env args (ICMPReceiver (i_ClientEchoID i) ICMPTypeEcho)))
           | _ \<Rightarrow> assertion_failed)
      | m \<Rightarrow> Returns (Some (failed (UnknownModeErr m))))"

text \<open>The dispatch of \<open>RequestServer\<close> on the socket type.\<close>

definition handle_test :: "test_env \<Rightarrow> request_args \<Rightarrow> test_result option panics" where
  "handle_test env args =
     (case SocketType (ra_ServerMode args) of
        Panics m \<Rightarrow> Panics m
      | Returns UDP \<Rightarrow>
          (case handleRequestServerUDP env args of Panics m \<Rightarrow> Panics m | Returns r \<Rightarrow> Returns (Some r))
      | Returns TCP \<Rightarrow>
          (case handleRequestServerTCP env args of Panics m \<Rightarrow> Panics m | Returns r \<Rightarrow> Returns (Some r))
      | Returns ICMP \<Rightarrow> handleRequestServerICMP env args)"

section \<open>The requests of the client\<close>

text \<open>\<open>GetParams\<close>: the identity, but that an ICMP sender without an echo identifier first gets one
  (the argument) from \<open>genEchoID\<close>.\<close>

fun GetParams :: "u16 \<Rightarrow> sender \<Rightarrow> sender" where
  "GetParams echo (ICMPSender i) =
     (if i_ClientEchoID i = 0 then ICMPSender (i\<lparr>i_ClientEchoID := echo, i_SenderEchoID := echo\<rparr>)
      else ICMPSender i)"
| "GetParams echo s = s"

text \<open>The request built by \<open>runUL\<close> and \<open>runDL\<close>.\<close>

definition client_request :: "u16 \<Rightarrow> sender_client \<Rightarrow> string \<Rightarrow> request_args" where
  "client_request echo c cid =
     \<lparr>ra_ID = cid, ra_Timeout = int64 (GetDuration (GetParams echo (sc_Sender c)) + second),
      ra_StartAt = sc_StartAt c,
      ra_ServerMode = (case sc_Direction c of UL \<Rightarrow> ReceiverMode (sc_Sender c) | DL \<Rightarrow> SenderMode (sc_Sender c)),
      ra_Params = Some (GetParams echo (sc_Sender c))\<rparr>"

lemma GetParams_simps [simp]:
  "GetDuration (GetParams echo s) = GetDuration s" "SenderMode (GetParams echo s) = SenderMode s"
  "ReceiverMode (GetParams echo s) = ReceiverMode s"
  by (cases s; simp)+

section \<open>Dispatch\<close>

fun receiver_of :: "sender \<Rightarrow> test_receiver" where
  "receiver_of (QUICSender q) = QUICReceiver"
| "receiver_of (TCPSender t) = TCPReceiver"
| "receiver_of (ICMPSender i) = ICMPReceiver (i_ClientEchoID i) ICMPTypeEcho"
| "receiver_of _ = UDPReceiver"

text \<open>A sender as the server runs it: an ICMP sender with the echo identifier the NAT left.\<close>

fun as_requested :: "sender \<Rightarrow> sender \<Rightarrow> bool" where
  "as_requested (ICMPSender i) (ICMPSender i') = (i' = i\<lparr>i_SenderEchoID := i_SenderEchoID i'\<rparr>)"
| "as_requested s s' = (s' = s)"

lemma as_requested_echo [simp]: "as_requested (ICMPSender i) (ICMPSender (i\<lparr>i_SenderEchoID := n\<rparr>))"
  by simp

lemma as_requested_refl [simp]: "as_requested s s"
  by (cases s) simp_all

lemma handleSender_cases:
  "(\<exists>e. handleSender env args s raddr = failed e) \<or>
   handleSender env args s raddr = run_outcome (te_run env (RunSender s raddr (GetDuration s)))"
  by (auto simp: handleSender_def split: option.split)

lemma handleReceiver_cases:
  "(\<exists>e. handleReceiver env args r = failed e) \<or>
   handleReceiver env args r = run_outcome (te_run env (RunReceiver r (ra_Timeout args)))"
  by (auto simp: handleReceiver_def split: option.split)

lemmas handler_defs = handle_test_def handleRequestServerUDP_def handleRequestServerTCP_def
  handleRequestServerICMP_def udp_setup_def

lemma dispatch_receiver:
  assumes "ra_Params args = Some s" and "ra_ServerMode args = ReceiverMode s"
  shows "handle_test env args = Returns (Some (handleReceiver env args (receiver_of s)))"
  using assms by (cases s) (simp_all add: handler_defs)

lemma dispatch_sender:
  assumes "ra_Params args = Some s" and "ra_ServerMode args = SenderMode s"
  shows "handle_test env args = Returns None \<and> (\<exists>i. s = ICMPSender i) \<or>
     (\<exists>e. handle_test env args = Returns (Some (failed e))) \<or>
     (\<exists>s' raddr. as_requested s s' \<and> handle_test env args = Returns (Some (handleSender env args s' raddr)))"
proof (cases s)
  case (ICMPSender i)
  let ?w = "waitForICMPProbe (te_parse_icmp env) (i_ClientEchoID i) (te_reads env)"
  consider "\<not> te_set_deadline_ok env" | "?w = None" | e where "?w = Some (Inl e)"
    | raddr n where "te_set_deadline_ok env" "?w = Some (Inr (raddr, n))"
    by (cases ?w) (auto split: sum.splits, metis old.sum.exhaust surj_pair)
  then show ?thesis
  proof cases
    case (4 raddr n)
    then have "handle_test env args = Returns (Some (handleSender env args
        (ICMPSender (i\<lparr>i_SenderEchoID := n\<rparr>)) raddr))"
      using assms ICMPSender by (simp add: handler_defs)
    then show ?thesis unfolding ICMPSender using as_requested_echo by blast
  qed (use assms ICMPSender in \<open>auto simp: handler_defs\<close>)
next
  case (TCPSender t)
  then show ?thesis using assms by (auto simp: handler_defs split: sum.split)
qed (use assms in \<open>auto simp: handler_defs split: sum.split\<close>)

lemma client_request_UL:
  "sc_Direction c = UL \<Longrightarrow> handle_test env (client_request echo c cid) =
     Returns (Some (handleReceiver env (client_request echo c cid) (receiver_of (GetParams echo (sc_Sender c)))))"
  by (rule dispatch_receiver) (simp_all add: client_request_def)

lemmas client_request_DL =
  dispatch_sender [of "client_request echo c cid" "GetParams echo (sc_Sender c)" env for echo c cid env]

section \<open>Properties\<close>


text \<open>What makes a datagram the probe of a test.\<close>

definition probe_of :: "(u8 list \<Rightarrow> icmp_message option) \<Rightarrow> u16 \<Rightarrow> u8 list \<Rightarrow> int \<Rightarrow> bool" where
  "probe_of parse echoID data bodyID \<longleftrightarrow>
     (\<exists>msg. parse data = Some msg \<and> im_Type msg = ICMPTypeEcho \<and>
        (\<exists>seq. im_Echo msg = Some (bodyID, seq, makeICMPData echoID True)))"

definition skipped :: "(u8 list \<Rightarrow> icmp_message option) \<Rightarrow> u16 \<Rightarrow> read_outcome \<Rightarrow> bool" where
  "skipped parse echoID r \<longleftrightarrow> (\<exists>data raddr. r = ReadData data raddr \<and> \<not> (\<exists>b. probe_of parse echoID data b))"

lemma waitForICMPProbe_step:
  "waitForICMPProbe parse echoID (ReadData data raddr # rs) =
     (if \<exists>b. probe_of parse echoID data b
      then Some (Inr (raddr, of_int (THE b. probe_of parse echoID data b)))
      else waitForICMPProbe parse echoID rs)"
proof (cases "\<exists>b. probe_of parse echoID data b")
  case True
  then obtain b q msg where msg: "parse data = Some msg" "im_Type msg = ICMPTypeEcho"
    "im_Echo msg = Some (b, q, makeICMPData echoID True)" by (auto simp: probe_of_def)
  then have "(THE b. probe_of parse echoID data b) = b"
    by (intro the_equality) (auto simp: probe_of_def)
  then show ?thesis using msg True by simp
next
  case False
  have none: "waitForICMPProbe parse echoID (ReadData data raddr # rs) = waitForICMPProbe parse echoID rs"
  proof (cases "parse data")
    case (Some msg)
    show ?thesis
    proof (cases "im_Echo msg")
      case (Some body)
      obtain b q d where body: "body = (b, q, d)" by (cases body) auto
      have "parseICMPData d \<noteq> Inr (echoID, True)" if "im_Type msg = ICMPTypeEcho"
        using False \<open>parse data = Some msg\<close> Some that body parseICMPData_punch [of d echoID]
        by (auto simp: probe_of_def)
      then show ?thesis using \<open>parse data = Some msg\<close> Some body by (auto split: sum.split)
    qed (simp add: \<open>parse data = Some msg\<close>)
  qed simp
  show ?thesis unfolding none using False by simp
qed

lemma skipped_step: "skipped parse echoID r \<Longrightarrow> waitForICMPProbe parse echoID (r # rs) = waitForICMPProbe parse echoID rs"
  using waitForICMPProbe_step unfolding skipped_def by auto

lemma waitForICMPProbe_skip:
  "list_all (skipped parse echoID) pre \<Longrightarrow>
   waitForICMPProbe parse echoID (pre @ rs) = waitForICMPProbe parse echoID rs"
  by (induction pre) (simp_all add: skipped_step del: waitForICMPProbe.simps(2))

lemma probe_of_unique: "probe_of parse echoID data b \<Longrightarrow> probe_of parse echoID data b' \<Longrightarrow> b = b'"
  by (auto simp: probe_of_def)

text \<open>The ICMP wait answers the first echo request that carries exactly this test's identifier
  and the probe payload, with the identifier that request has in its header (which a NAT may have
  changed), and skips everything else that arrives before it; once a read has failed or timed
  out it has ended.\<close>

theorem waitForICMPProbe_first:
  "(waitForICMPProbe parse echoID rs = Some (Inr (raddr, n)) \<longleftrightarrow>
     (\<exists>pre data rest b. rs = pre @ ReadData data raddr # rest \<and> list_all (skipped parse echoID) pre \<and>
        probe_of parse echoID data b \<and> n = of_int b)) \<and>
   (waitForICMPProbe parse echoID rs = None \<longleftrightarrow> list_all (skipped parse echoID) rs)"
proof (induction rs)
  case (Cons r rs)
  show ?case
  proof (cases "skipped parse echoID r")
    case True
    have "(\<exists>pre data rest b. r # rs = pre @ ReadData data raddr # rest \<and> list_all (skipped parse echoID) pre \<and>
        probe_of parse echoID data b \<and> n = of_int b) \<longleftrightarrow>
      (\<exists>pre data rest b. rs = pre @ ReadData data raddr # rest \<and> list_all (skipped parse echoID) pre \<and>
        probe_of parse echoID data b \<and> n = of_int b)"
      (is "(\<exists>pre data rest b. ?l pre data rest b) \<longleftrightarrow> (\<exists>pre data rest b. ?r pre data rest b)")
    proof
      assume "\<exists>pre data rest b. ?l pre data rest b"
      then obtain pre data rest b where l: "?l pre data rest b" by blast
      with True have "pre \<noteq> []" by (auto simp: skipped_def)
      with l show "\<exists>pre data rest b. ?r pre data rest b" by (cases pre) auto
    next
      assume "\<exists>pre data rest b. ?r pre data rest b"
      then obtain pre data rest b where "?r pre data rest b" by blast
      then have "?l (r # pre) data rest b" using True by simp
      then show "\<exists>pre data rest b. ?l pre data rest b" by blast
    qed
    then show ?thesis using Cons.IH skipped_step [OF True] True by (simp del: waitForICMPProbe.simps(2))
  next
    case False
    have nil: "pre = []" if "r # rs = pre @ ReadData data raddr # rest" "list_all (skipped parse echoID) pre"
      for pre data rest using that False by (cases pre) auto
    have split: "(\<exists>pre data rest b. r # rs = pre @ ReadData data raddr # rest \<and>
        list_all (skipped parse echoID) pre \<and> probe_of parse echoID data b \<and> n = of_int b) \<longleftrightarrow>
      (\<exists>data b. r = ReadData data raddr \<and> probe_of parse echoID data b \<and> n = of_int b)"
      (is "(\<exists>pre data rest b. ?l pre data rest b) \<longleftrightarrow> ?r")
    proof
      assume "\<exists>pre data rest b. ?l pre data rest b"
      then obtain pre data rest b where l: "?l pre data rest b" by blast
      then have "pre = []" using nil by blast
      with l show ?r by auto
    next
      assume ?r
      then obtain data b where "?l [] data rs b" by auto
      then show "\<exists>pre data rest b. ?l pre data rest b" by blast
    qed
    show ?thesis
    proof (cases r)
      case ReadTimeout
      then show ?thesis unfolding split using False by simp
    next
      case (ReadFail e)
      then show ?thesis unfolding split using False by simp
    next
      case (ReadData data addr)
      then obtain b where b: "probe_of parse echoID data b" using False by (auto simp: skipped_def)
      then have "(THE b. probe_of parse echoID data b) = b" using probe_of_unique by blast
      then have wait: "waitForICMPProbe parse echoID (r # rs) = Some (Inr (addr, of_int b))"
        unfolding ReadData waitForICMPProbe_step using b by auto
      have rhs: "(\<exists>data b. r = ReadData data raddr \<and> probe_of parse echoID data b \<and> n = of_int b) \<longleftrightarrow>
          addr = raddr \<and> n = of_int b"
        using probe_of_unique [OF b] b ReadData by (metis read_outcome.inject(2))
      show ?thesis unfolding split rhs wait using False by auto
    qed
  qed
qed simp

text \<open>C37. The first-contact deadline leaves the client at least two seconds from now and one
  second after the start of the test, and the socket deadline of a sender covers its whole duration
  (for durations below about 146 years).\<close>

theorem server_deadlines:
  assumes "0 \<le> d" and "d < 2 ^ 62"
  shows "now + 2 * second \<le> firstContactDeadline now startAt \<and>
     (IsZero startAt \<or> startAt + second \<le> firstContactDeadline now startAt) \<and>
     d \<le> sender_deadline d \<and> 60 * second \<le> sender_deadline d"
proof -
  have "int64 (d * 2) = d * 2" using assms by (intro int64_nonneg_id) simp_all
  then show ?thesis using assms by (simp add: firstContactDeadline_def sender_deadline_def Let_def)
qed

theorem server_deadlines_witness:
  "(0 :: int) \<le> 4 * second \<and> 4 * second \<le> sender_deadline (4 * second) \<and>
   100 * second + 2 * second \<le> firstContactDeadline (100 * second) (105 * second)"
  using server_deadlines [of "4 * second" "100 * second" "105 * second"] by simp

end
