(* ===== verification/Result_Server.thy ===== *)
theory Result_Server
  imports Test_Handlers
begin

text \<open>
  The RPC server's table of tests (\<open>pkg/server.go\<close>) as a machine of interleaved atomic sections.
  Each RPC handler and each test goroutine is a thread; a step is one critical section under
  \<open>resultLock\<close> or one channel operation. A thread that cannot move (a channel operation that would
  block) leaves the state as it is. Channels are addressed by numbers: the one made for a test, its
  context and the thread that serves it carry the same number. What sockets, clocks and commands
  answer, and which ready branch a \<open>select\<close> takes, comes with the event.
\<close>

section \<open>State\<close>

text \<open>A channel of capacity one.\<close>

record chan =
  ch_buf :: "test_result list"
  ch_closed :: bool

datatype reply =
    Rejected | NoTest | Got test_result | AlreadyRetrieved | Shutdown

record command_args =
  ca_ID :: string
  ca_StartAt :: gtime
  ca_Params :: "tcpdump_params option"

text \<open>
  Threads, by the section they execute next. \<open>Listening\<close> is \<open>RequestServer\<close> after its
  registration, \<open>Testing\<close> the test goroutine, \<open>Looking\<close>, \<open>Sending\<close> and \<open>Closing\<close> are
  \<open>deliverResult\<close>, \<open>Finishing\<close> and \<open>Cancelling\<close> are \<open>finishTest\<close> (with the send that the error
  paths of \<open>RunCommand\<close> do after it), \<open>Starting\<close>, \<open>CmdRunning\<close> and \<open>CmdSending\<close> are
  \<open>RunCommand\<close>, \<open>Waiting\<close> and \<open>Dropping\<close> a request for a result.
\<close>

datatype thread =
    Listening request_args
  | Testing request_args
  | Looking string test_result
  | Sending string "nat option" test_result
  | Closing string nat
  | Starting command_args
  | CmdRunning command_args nat string
  | CmdSending string nat test_result
  | Finishing string "(nat \<times> test_result) option"
  | Cancelling "nat option" "(nat \<times> test_result) option"
  | LateSending nat test_result
  | Waiting string nat
  | Dropping string

record server_state =
  sv_done :: bool
  sv_resultC :: "string \<rightharpoonup> nat"
  sv_testCancel :: "string \<rightharpoonup> nat"
  sv_chans :: "nat \<Rightarrow> chan"
  sv_cancelled :: "nat list"
  sv_threads :: "nat \<rightharpoonup> thread"
  sv_next :: nat
  sv_log :: "(string \<times> reply) list"

record go_env =
  go_listen :: "string option"
  go_test :: test_env
  go_randdir :: "string + string"
  go_exec :: "string option"
  go_monitor :: "string option"
  go_recv :: bool

datatype server_event =
    RequestServer request_args | RunCommand command_args | RequestResult string | Abort string
  | CancelServer | Go nat go_env

datatype step_result = Step server_state | Crash string | Blocked

definition NewServer :: server_state where
  "NewServer = \<lparr>sv_done = False, sv_resultC = Map.empty, sv_testCancel = Map.empty,
     sv_chans = (\<lambda>n. \<lparr>ch_buf = [], ch_closed = False\<rparr>), sv_cancelled = [], sv_threads = Map.empty,
     sv_next = 0, sv_log = []\<rparr>"

section \<open>RPC handlers\<close>

definition log_reply :: "string \<Rightarrow> reply \<Rightarrow> server_state \<Rightarrow> server_state" where
  "log_reply i r s = s\<lparr>sv_log := sv_log s @ [(i, r)]\<rparr>"

definition spawn :: "thread \<Rightarrow> server_state \<Rightarrow> server_state" where
  "spawn t s = s\<lparr>sv_threads := (sv_threads s)(sv_next s \<mapsto> t), sv_next := Suc (sv_next s)\<rparr>"

text \<open>The registration under the lock, shared by \<open>RequestServer\<close> and \<open>RunCommand\<close>; the thread
  \<open>t\<close> is the rest of the handler.\<close>

definition register_test :: "string \<Rightarrow> thread \<Rightarrow> server_state \<Rightarrow> server_state" where
  "register_test i t s =
     (if i = [] then log_reply i Rejected s
      else if sv_resultC s i \<noteq> None then log_reply i Rejected s
      else
        let n = sv_next s in
        spawn t (s\<lparr>sv_chans := (sv_chans s)(n := \<lparr>ch_buf = [], ch_closed = False\<rparr>),
                   sv_resultC := (sv_resultC s)(i \<mapsto> n),
                   sv_testCancel := (sv_testCancel s)(i \<mapsto> n)\<rparr>))"

definition RequestServer_rpc :: "request_args \<Rightarrow> server_state \<Rightarrow> server_state" where
  "RequestServer_rpc args s = register_test (ra_ID args) (Listening args) s"

definition RunCommand_rpc :: "command_args \<Rightarrow> server_state \<Rightarrow> server_state" where
  "RunCommand_rpc args s = register_test (ca_ID args) (Starting args) s"

text \<open>The look-up that starts \<open>RequestServerResult\<close> and \<open>RequestRunCommandResult\<close>.\<close>

definition RequestResult_rpc :: "string \<Rightarrow> server_state \<Rightarrow> server_state" where
  "RequestResult_rpc i s =
     (case sv_resultC s i of
        None \<Rightarrow> log_reply i NoTest s
      | Some c \<Rightarrow> spawn (Waiting i c) s)"

text \<open>\<open>Abort\<close>: calling the cancel function after the lock was released commutes with everything
  else, because cancelling twice is cancelling once.\<close>

definition Abort_rpc :: "string \<Rightarrow> server_state \<Rightarrow> server_state" where
  "Abort_rpc i s =
     (case sv_testCancel s i of
        None \<Rightarrow> s
      | Some c \<Rightarrow> s\<lparr>sv_cancelled := c # sv_cancelled s\<rparr>)"

section \<open>Threads\<close>

definition move :: "nat \<Rightarrow> thread option \<Rightarrow> server_state \<Rightarrow> server_state" where
  "move n t s = s\<lparr>sv_threads := (sv_threads s)(n := t)\<rparr>"

text \<open>A send: it panics on a closed channel and blocks on a full one.\<close>

definition chan_send :: "nat \<Rightarrow> test_result \<Rightarrow> server_state \<Rightarrow> step_result" where
  "chan_send c r s =
     (if ch_closed (sv_chans s c) then Crash ''send on closed channel''
      else if ch_buf (sv_chans s c) \<noteq> [] then Blocked
      else Step (s\<lparr>sv_chans := (sv_chans s)(c := (sv_chans s c)\<lparr>ch_buf := [r]\<rparr>)\<rparr>))"

definition chan_close :: "nat \<Rightarrow> server_state \<Rightarrow> step_result" where
  "chan_close c s =
     (if ch_closed (sv_chans s c) then Crash ''close of closed channel''
      else Step (s\<lparr>sv_chans := (sv_chans s)(c := (sv_chans s c)\<lparr>ch_closed := True\<rparr>)\<rparr>))"

definition on_step :: "(server_state \<Rightarrow> server_state) \<Rightarrow> step_result \<Rightarrow> step_result" where
  "on_step f r = (case r of Step s \<Rightarrow> Step (f s) | Crash m \<Rightarrow> Crash m | Blocked \<Rightarrow> Blocked)"

text \<open>\<open>handleChanResult\<close>: what the select returns (the answer and whether the entry may be
  dropped) and the channel afterwards. The select takes the receive when \<open>recv\<close> says so.\<close>

definition handleChanResult :: "bool \<Rightarrow> bool \<Rightarrow> chan \<Rightarrow> (bool \<times> reply \<times> chan) option" where
  "handleChanResult done recv c =
     (if recv then
        (case ch_buf c of
           r # rs \<Rightarrow> Some (True, Got r, c\<lparr>ch_buf := rs\<rparr>)
         | [] \<Rightarrow> if ch_closed c then Some (True, AlreadyRetrieved, c) else None)
      else if done then Some (False, Shutdown, c)
      else None)"

text \<open>The goroutine of \<open>RunCommand\<close>.\<close>

definition command_result :: "go_env \<Rightarrow> command_args \<Rightarrow> string \<Rightarrow> test_result" where
  "command_result env args dir =
     (case waitUntil (te_now (go_test env)) (ca_StartAt args) (te_ctx_err (go_test env)) of
        Some e \<Rightarrow> failed e
      | None \<Rightarrow>
          (case go_exec env of
             Some e \<Rightarrow> failed (CommandErr e)
           | None \<Rightarrow>
               (case go_monitor env of
                  Some e \<Rightarrow> failed (CommandErr e)
                | None \<Rightarrow> \<lparr>tr_Err = None, tr_Res = Some (ResultDir dir)\<rparr>)))"

text \<open>\<open>RunCommand\<close> after the registration: the type of the parameters, the directory for the
  results, and the goroutine.\<close>

definition command_start :: "nat \<Rightarrow> go_env \<Rightarrow> server_state \<Rightarrow> command_args \<Rightarrow> step_result" where
  [simp]: "command_start n env s args =
     (case ca_Params args of
        None \<Rightarrow> Step (move n (Some (Finishing (ca_ID args)
                  (Some (n, failed (CommandErr ''Unknown params''))))) s)
      | Some p \<Rightarrow>
          (case go_randdir env of
             Inl e \<Rightarrow> Step (move n (Some (Finishing (ca_ID args) (Some (n, failed (CommandErr e))))) s)
           | Inr dir \<Rightarrow> Step (move n (Some (CmdRunning args n dir)) s)))"

text \<open>The receive of \<open>RequestServerResult\<close> and \<open>RequestRunCommandResult\<close>.\<close>

definition result_receive :: "nat \<Rightarrow> go_env \<Rightarrow> server_state \<Rightarrow> string \<Rightarrow> nat \<Rightarrow> step_result" where
  [simp]: "result_receive n env s i c =
     (case handleChanResult (sv_done s) (go_recv env) (sv_chans s c) of
        None \<Rightarrow> Blocked
      | Some (received, rep, ch) \<Rightarrow>
          Step (move n (if received then Some (Dropping i) else None)
            (log_reply i rep (s\<lparr>sv_chans := (sv_chans s)(c := ch)\<rparr>))))"

primrec thread_step :: "nat \<Rightarrow> go_env \<Rightarrow> server_state \<Rightarrow> thread \<Rightarrow> step_result" where
  "thread_step n env s (Listening args) =
     (case SocketType (ra_ServerMode args) of
        Panics m \<Rightarrow> Crash m
      | Returns _ \<Rightarrow>
          (case go_listen env of
             Some e \<Rightarrow> Step (move n (Some (Looking (ra_ID args) (failed (ListenErr e)))) s)
           | None \<Rightarrow> Step (move n (Some (Testing args)) s)))"
| "thread_step n env s (Testing args) =
     (case handle_test (go_test env) args of
        Panics m \<Rightarrow> Crash m
      | Returns None \<Rightarrow> Blocked
      | Returns (Some r) \<Rightarrow> Step (move n (Some (Looking (ra_ID args) r)) s))"
| "thread_step n env s (Looking i r) = Step (move n (Some (Sending i (sv_resultC s i) r)) s)"
| "thread_step n env s (Sending i c r) =
     (case c of
        None \<Rightarrow> Blocked
      | Some c \<Rightarrow> on_step (move n (Some (Closing i c))) (chan_send c r s))"
| "thread_step n env s (Closing i c) = on_step (move n (Some (Finishing i None))) (chan_close c s)"
| "thread_step n env s (Starting args) =
     command_start n env s args"
| "thread_step n env s (CmdRunning args c dir) =
     Step (move n (Some (CmdSending (ca_ID args) c (command_result env args dir))) s)"
| "thread_step n env s (CmdSending i c r) = on_step (move n (Some (Finishing i None))) (chan_send c r s)"
| "thread_step n env s (Finishing i after) =
     Step (move n (Some (Cancelling (sv_testCancel s i) after))
       (s\<lparr>sv_testCancel := (sv_testCancel s)(i := None)\<rparr>))"
| "thread_step n env s (Cancelling c after) =
     Step (move n (map_option (\<lambda>(c, r). LateSending c r) after)
       (case c of None \<Rightarrow> s | Some c \<Rightarrow> s\<lparr>sv_cancelled := c # sv_cancelled s\<rparr>))"
| "thread_step n env s (LateSending c r) = on_step (move n None) (chan_send c r s)"
| "thread_step n env s (Waiting i c) =
     result_receive n env s i c"
| "thread_step n env s (Dropping i) =
     Step (move n None (s\<lparr>sv_resultC := (sv_resultC s)(i := None)\<rparr>))"

fun server_step :: "server_state \<Rightarrow> server_event \<Rightarrow> step_result" where
  "server_step s (RequestServer args) = Step (RequestServer_rpc args s)"
| "server_step s (RunCommand args) = Step (RunCommand_rpc args s)"
| "server_step s (RequestResult i) = Step (RequestResult_rpc i s)"
| "server_step s (Abort i) = Step (Abort_rpc i s)"
| "server_step s CancelServer = Step (s\<lparr>sv_done := True\<rparr>)"
| "server_step s (Go n env) =
     (case sv_threads s n of None \<Rightarrow> Blocked | Some t \<Rightarrow> thread_step n env s t)"

text \<open>A schedule: a blocked event changes nothing.\<close>

fun run_server :: "server_state \<Rightarrow> server_event list \<Rightarrow> step_result" where
  "run_server s [] = Step s"
| "run_server s (ev # evs) =
     (case server_step s ev of
        Step s' \<Rightarrow> run_server s' evs
      | Crash m \<Rightarrow> Crash m
      | Blocked \<Rightarrow> run_server s evs)"

section \<open>Invariant\<close>

text \<open>
  The invariant holds as long as no identifier is used for two tests. It follows the single result
  of a test from its goroutine through the channel to the request that receives it. The ghost map
  \<open>own\<close> gives the number of the test started under an identifier and whether it is a server test
  (\<open>True\<close>) or a command.
\<close>

type_synonym owners = "string \<rightharpoonup> nat \<times> bool"

definition is_Got :: "reply \<Rightarrow> bool" where
  "is_Got r = (case r of Got _ \<Rightarrow> True | _ \<Rightarrow> False)"

lemma is_Got_simps [simp]:
  "is_Got (Got r)" "\<not> is_Got Rejected" "\<not> is_Got NoTest" "\<not> is_Got AlreadyRetrieved" "\<not> is_Got Shutdown"
  by (simp_all add: is_Got_def)

definition got :: "server_state \<Rightarrow> string \<Rightarrow> nat" where
  "got s i = length (filter (\<lambda>(j, r). j = i \<and> is_Got r) (sv_log s))"

definition well_typed :: "request_args \<Rightarrow> bool" where
  "well_typed args \<longleftrightarrow> (\<forall>env m. handle_test env args \<noteq> Panics m)"

fun undelivered :: "bool \<Rightarrow> nat \<Rightarrow> string \<Rightarrow> thread \<Rightarrow> bool" where
  "undelivered k n i (Listening a) = (k \<and> ra_ID a = i \<and> well_typed a)"
| "undelivered k n i (Testing a) = (k \<and> ra_ID a = i \<and> well_typed a)"
| "undelivered k n i (Looking j r) = (k \<and> j = i)"
| "undelivered k n i (Sending j c r) = (k \<and> j = i \<and> c = Some n)"
| "undelivered k n i (Starting a) = (\<not> k \<and> ca_ID a = i)"
| "undelivered k n i (CmdRunning a c d) = (\<not> k \<and> ca_ID a = i \<and> c = n)"
| "undelivered k n i (CmdSending j c r) = (\<not> k \<and> j = i \<and> c = n)"
| "undelivered k n i (Finishing j (Some (c, r))) = (\<not> k \<and> j = i \<and> c = n)"
| "undelivered k n i (Cancelling c (Some (d, r))) = (\<not> k \<and> d = n)"
| "undelivered k n i (LateSending c r) = (\<not> k \<and> c = n)"
| "undelivered k n i _ = False"

fun delivered :: "bool \<Rightarrow> nat \<Rightarrow> string \<Rightarrow> thread \<Rightarrow> bool" where
  "delivered k n i (Closing j c) = (k \<and> j = i \<and> c = n)"
| "delivered k n i (Finishing j None) = (j = i)"
| "delivered k n i (Cancelling c None) = True"
| "delivered k n i _ = False"

fun is_Closing :: "thread \<Rightarrow> bool" where
  "is_Closing (Closing i c) = True" | "is_Closing _ = False"

text \<open>The sections before the entry in \<open>testCancel\<close> is removed.\<close>

fun before_finish :: "thread \<Rightarrow> bool" where
  "before_finish (Cancelling c a) = False" | "before_finish (LateSending c r) = False"
| "before_finish _ = True"

definition chan_ok :: "bool \<Rightarrow> nat \<Rightarrow> string \<Rightarrow> thread option \<Rightarrow> chan \<Rightarrow> nat \<Rightarrow> nat option \<Rightarrow> bool" where
  "chan_ok k n i t c g rc \<longleftrightarrow>
     (case t of
        None \<Rightarrow> length (ch_buf c) + g = 1 \<and> ch_closed c = k
      | Some t \<Rightarrow>
          undelivered k n i t \<and> ch_buf c = [] \<and> \<not> ch_closed c \<and> g = 0 \<and> rc = Some n \<or>
          delivered k n i t \<and> length (ch_buf c) + g = 1 \<and> ch_closed c = (k \<and> \<not> is_Closing t))"

definition owner_ok :: "server_state \<Rightarrow> string \<Rightarrow> nat \<Rightarrow> bool \<Rightarrow> bool" where
  "owner_ok s i n k \<longleftrightarrow>
     chan_ok k n i (sv_threads s n) (sv_chans s n) (got s i) (sv_resultC s i) \<and>
     (sv_resultC s i = Some n \<or> sv_resultC s i = None \<and> got s i = 1) \<and>
     (sv_testCancel s i = None \<or>
      sv_testCancel s i = Some n \<and> (\<exists>t. sv_threads s n = Some t \<and> before_finish t))"

fun request_ok :: "owners \<Rightarrow> server_state \<Rightarrow> thread \<Rightarrow> bool" where
  "request_ok own s (Waiting i c) = (\<exists>k. own i = Some (c, k))"
| "request_ok own s (Dropping i) = (own i \<noteq> None \<and> got s i = 1)"
| "request_ok own s _ = False"

definition server_inv :: "owners \<Rightarrow> server_state \<Rightarrow> bool" where
  "server_inv own s \<longleftrightarrow>
     (\<forall>i n k. own i = Some (n, k) \<longrightarrow> n < sv_next s \<and> owner_ok s i n k) \<and>
     (\<forall>i j n k l. own i = Some (n, k) \<longrightarrow> own j = Some (n, l) \<longrightarrow> i = j) \<and>
     (\<forall>m t. sv_threads s m = Some t \<longrightarrow>
        m < sv_next s \<and> ((\<exists>i k. own i = Some (m, k)) \<or> request_ok own s t)) \<and>
     (\<forall>i. own i = None \<longrightarrow> sv_resultC s i = None \<and> sv_testCancel s i = None \<and> got s i = 0) \<and>
     (\<forall>i. sv_resultC s i \<noteq> None \<and> got s i = 1 \<longrightarrow> (\<exists>m. sv_threads s m = Some (Dropping i)))"

lemma server_invD:
  assumes "server_inv own s"
  shows owner_lt: "own i = Some (n, k) \<Longrightarrow> n < sv_next s"
    and owner_okD: "own i = Some (n, k) \<Longrightarrow> owner_ok s i n k"
    and owner_inj: "own i = Some (n, k) \<Longrightarrow> own j = Some (n, l) \<Longrightarrow> i = j"
    and thread_lt: "sv_threads s m = Some t \<Longrightarrow> m < sv_next s"
    and thread_owned: "sv_threads s m = Some t \<Longrightarrow> (\<exists>i k. own i = Some (m, k)) \<or> request_ok own s t"
    and unowned: "own i = None \<Longrightarrow> sv_resultC s i = None \<and> sv_testCancel s i = None \<and> got s i = 0"
    and dropping: "sv_resultC s i \<noteq> None \<Longrightarrow> got s i = 1 \<Longrightarrow> \<exists>m. sv_threads s m = Some (Dropping i)"
  using assms unfolding server_inv_def by blast+

lemma server_invI:
  assumes "\<And>i n k. own i = Some (n, k) \<Longrightarrow> n < sv_next s \<and> owner_ok s i n k"
    and "\<And>i j n k l. own i = Some (n, k) \<Longrightarrow> own j = Some (n, l) \<Longrightarrow> i = j"
    and "\<And>m t. sv_threads s m = Some t \<Longrightarrow>
        m < sv_next s \<and> ((\<exists>i k. own i = Some (m, k)) \<or> request_ok own s t)"
    and "\<And>i. own i = None \<Longrightarrow> sv_resultC s i = None \<and> sv_testCancel s i = None \<and> got s i = 0"
    and "\<And>i. sv_resultC s i \<noteq> None \<Longrightarrow> got s i = 1 \<Longrightarrow> \<exists>m. sv_threads s m = Some (Dropping i)"
  shows "server_inv own s"
  unfolding server_inv_def using assms by blast

lemma server_inv_NewServer: "server_inv Map.empty NewServer"
  by (simp add: server_inv_def NewServer_def got_def)

text \<open>An owner is one of the threads of a test, never a request.\<close>

lemma owner_not_request:
  assumes "server_inv own s" and "own i = Some (n, k)" and "sv_threads s n = Some t"
  shows "\<not> request_ok own' s' t"
  using owner_okD [OF assms(1,2)] assms(3) by (cases t) (auto simp: owner_ok_def chan_ok_def)

text \<open>A step of a test's own thread: only its thread, its channel and its entry in
  \<open>testCancel\<close> change.\<close>

lemma server_inv_owner:
  assumes inv: "server_inv own s" and own: "own i = Some (n, k)" and "sv_threads s n \<noteq> None"
    and "\<And>m. m \<noteq> n \<Longrightarrow> sv_threads s' m = sv_threads s m" and "\<And>m. m \<noteq> n \<Longrightarrow> sv_chans s' m = sv_chans s m"
    and "sv_resultC s' = sv_resultC s" and "sv_log s' = sv_log s" and "sv_next s' = sv_next s"
    and "sv_testCancel s' = sv_testCancel s \<or> sv_testCancel s' = (sv_testCancel s)(i := None)"
    and ok: "owner_ok s' i n k"
  shows "server_inv own s'"
proof (rule server_invI)
  have got: "got s' = got s" using assms by (simp add: got_def fun_eq_iff)
  fix j m l assume j: "own j = Some (m, l)"
  show "m < sv_next s' \<and> owner_ok s' j m l"
  proof (cases "j = i")
    case True
    then show ?thesis using j own ok owner_lt [OF inv own] assms by simp
  next
    case False
    then have "m \<noteq> n" using owner_inj [OF inv j, of i k] own by auto
    then show ?thesis
      using owner_lt [OF inv j] owner_okD [OF inv j] False assms got by (auto simp: owner_ok_def)
  qed
next
  fix i' j n' k' l assume "own i' = Some (n', k')" "own j = Some (n', l)"
  then show "i' = j" by (rule owner_inj [OF inv])
next
  have req: "request_ok own s' t = request_ok own s t" for t
    using assms by (cases t) (simp_all add: got_def)
  fix m t' assume "sv_threads s' m = Some t'"
  then show "m < sv_next s' \<and> ((\<exists>i k. own i = Some (m, k)) \<or> request_ok own s' t')"
    using thread_lt [OF inv] thread_owned [OF inv] owner_lt [OF inv own] own assms
    by (cases "m = n") (auto simp: req)
next
  fix j assume "own j = None"
  then show "sv_resultC s' j = None \<and> sv_testCancel s' j = None \<and> got s' j = 0"
    using unowned [OF inv] assms by (auto simp: got_def)
next
  fix j assume "sv_resultC s' j \<noteq> None" "got s' j = 1"
  then obtain m where m: "sv_threads s m = Some (Dropping j)"
    using dropping [OF inv, of j] assms by (auto simp: got_def)
  have "m \<noteq> n" using owner_okD [OF inv own] m by (auto simp: owner_ok_def chan_ok_def)
  then have "sv_threads s' m = Some (Dropping j)" using m assms(4) by simp
  then show "\<exists>m. sv_threads s' m = Some (Dropping j)" by blast
qed

lemmas thread_defs = move_def chan_send_def chan_close_def on_step_def

lemma client_request_well_typed: "well_typed (client_request echo c i)"
proof (cases "sc_Direction c")
  case UL
  then show ?thesis using client_request_UL [OF UL] by (simp add: well_typed_def)
next
  case DL
  then have "ra_Params (client_request echo c i) = Some (GetParams echo (sc_Sender c))"
    "ra_ServerMode (client_request echo c i) = SenderMode (GetParams echo (sc_Sender c))"
    by (simp_all add: client_request_def)
  from client_request_DL [OF this] show ?thesis unfolding well_typed_def by (metis panics.distinct(1))
qed

lemma well_typed_socket: "well_typed args \<Longrightarrow> \<exists>t. SocketType (ra_ServerMode args) = Returns t"
  unfolding well_typed_def handle_test_def by (metis panics.exhaust panics.simps(6))

lemma got_update [simp]:
  "got (s\<lparr>sv_threads := a\<rparr>) = got s" "got (s\<lparr>sv_chans := b\<rparr>) = got s" "got (s\<lparr>sv_testCancel := c\<rparr>) = got s"
  "got (s\<lparr>sv_resultC := c\<rparr>) = got s" "got (s\<lparr>sv_cancelled := d\<rparr>) = got s" "got (s\<lparr>sv_next := m\<rparr>) = got s"
  "got (s\<lparr>sv_done := e\<rparr>) = got s"
  by (simp_all add: got_def fun_eq_iff)

text \<open>The two phases of a test: before and after its result is in the channel.\<close>

lemma owner_phase:
  assumes "owner_ok s i n k" and "sv_threads s n = Some t"
  shows "undelivered k n i t \<Longrightarrow> ch_buf (sv_chans s n) = [] \<and> \<not> ch_closed (sv_chans s n) \<and> got s i = 0 \<and>
      sv_resultC s i = Some n"
    and "delivered k n i t \<Longrightarrow> length (ch_buf (sv_chans s n)) + got s i = 1 \<and>
      ch_closed (sv_chans s n) = (k \<and> \<not> is_Closing t)"
    and "undelivered k n i t \<or> delivered k n i t"
proof -
  have excl: "\<not> (undelivered k n i t \<and> delivered k n i t)"
    by (cases t) (auto elim: delivered.elims)
  show "undelivered k n i t \<Longrightarrow> ch_buf (sv_chans s n) = [] \<and> \<not> ch_closed (sv_chans s n) \<and> got s i = 0 \<and>
      sv_resultC s i = Some n"
    and "delivered k n i t \<Longrightarrow> length (ch_buf (sv_chans s n)) + got s i = 1 \<and>
      ch_closed (sv_chans s n) = (k \<and> \<not> is_Closing t)"
    and "undelivered k n i t \<or> delivered k n i t"
    using assms excl by (auto simp: owner_ok_def chan_ok_def)
qed

lemma owner_cancel: "owner_ok s i n k \<Longrightarrow> sv_threads s n = Some t \<Longrightarrow> \<not> before_finish t \<Longrightarrow> sv_testCancel s i = None"
  by (auto simp: owner_ok_def)

lemma owner_cancel_own: "owner_ok s i n k \<Longrightarrow> sv_testCancel s i = None \<or> sv_testCancel s i = Some n"
  by (auto simp: owner_ok_def)

lemma owner_entry: "owner_ok s i n k \<Longrightarrow> sv_resultC s i = Some n \<or> sv_resultC s i = None \<and> got s i = 1"
  by (auto simp: owner_ok_def)

text \<open>The step of a test's own thread keeps the result moving.\<close>

lemma move_owner:
  assumes inv: "server_inv own s" and own: "own i = Some (n, k)" and t: "sv_threads s n = Some t"
    and ok: "chan_ok k n i t' (sv_chans s n) (got s i) (sv_resultC s i)"
    and fin: "\<And>u. t' = Some u \<Longrightarrow> before_finish u" and "t' \<noteq> None"
  shows "server_inv own (move n t' s)"
proof (rule server_inv_owner [OF inv own])
  show "owner_ok (move n t' s) i n k"
    using ok fin owner_entry [OF owner_okD [OF inv own]] owner_cancel_own [OF owner_okD [OF inv own]] assms(6)
    by (auto simp: owner_ok_def move_def)
qed (use t in \<open>auto simp: move_def\<close>)

lemma send_owner:
  assumes inv: "server_inv own s" and own: "own i = Some (n, k)" and t: "sv_threads s n = Some t"
    and und: "undelivered k n i t" and step: "on_step (move n t') (chan_send n r s) = Step s'"
    and ok: "case t' of None \<Rightarrow> \<not> k \<and> \<not> before_finish t | Some u \<Rightarrow> delivered k n i u \<and> before_finish u \<and> (k \<longrightarrow> is_Closing u)"
  shows "server_inv own s'"
proof (rule server_inv_owner [OF inv own])
  note own_ok = owner_okD [OF inv own]
  have s': "s' = move n t' (s\<lparr>sv_chans := (sv_chans s)(n := (sv_chans s n)\<lparr>ch_buf := [r]\<rparr>)\<rparr>)"
    using step by (auto simp: on_step_def chan_send_def split: if_splits)
  show "owner_ok s' i n k"
    using owner_phase(1) [OF own_ok t und] owner_cancel_own [OF own_ok] owner_cancel [OF own_ok t] ok
    by (cases t') (auto simp: s' owner_ok_def chan_ok_def move_def)
  show "sv_threads s' m = sv_threads s m" "sv_chans s' m = sv_chans s m" if "m \<noteq> n" for m
    using that by (simp_all add: s' move_def)
qed (use t step in \<open>auto simp: thread_defs split: if_splits\<close>)

lemma close_owner:
  assumes inv: "server_inv own s" and own: "own i = Some (n, k)" and t: "sv_threads s n = Some (Closing i n)"
    and step: "on_step (move n (Some (Finishing i None))) (chan_close n s) = Step s'"
  shows "server_inv own s'"
proof (rule server_inv_owner [OF inv own])
  note own_ok = owner_okD [OF inv own]
  have k: "delivered k n i (Closing i n)" using owner_phase(3) [OF own_ok t] by simp
  have s': "s' = move n (Some (Finishing i None)) (s\<lparr>sv_chans := (sv_chans s)(n := (sv_chans s n)\<lparr>ch_closed := True\<rparr>)\<rparr>)"
    using step by (auto simp: on_step_def chan_close_def split: if_splits)
  show "owner_ok s' i n k"
    using owner_phase(2) [OF own_ok t k] k owner_cancel_own [OF own_ok] owner_entry [OF own_ok]
    by (auto simp: s' owner_ok_def chan_ok_def move_def)
  show "sv_threads s' m = sv_threads s m" "sv_chans s' m = sv_chans s m" if "m \<noteq> n" for m
    using that by (simp_all add: s' move_def)
qed (use t step in \<open>auto simp: thread_defs split: if_splits\<close>)

lemma finish_owner:
  assumes inv: "server_inv own s" and own: "own i = Some (n, k)" and t: "sv_threads s n = Some (Finishing j after)"
  shows "server_inv own (move n (Some (Cancelling c after)) (s\<lparr>sv_testCancel := (sv_testCancel s)(j := None)\<rparr>))"
proof (rule server_inv_owner [OF inv own])
  note own_ok = owner_okD [OF inv own]
  show "owner_ok (move n (Some (Cancelling c after)) (s\<lparr>sv_testCancel := (sv_testCancel s)(j := None)\<rparr>)) i n k"
    using owner_phase [OF own_ok t] owner_entry [OF own_ok]
    by (cases after) (auto simp: owner_ok_def chan_ok_def move_def)
qed (use t owner_phase(3) [OF owner_okD [OF inv own] t] in \<open>cases after; auto simp: move_def\<close>)+

lemma cancel_owner:
  assumes inv: "server_inv own s" and own: "own i = Some (n, k)" and t: "sv_threads s n = Some (Cancelling c after)"
    and s: "sv_threads s1 = sv_threads s" "sv_chans s1 = sv_chans s" "sv_resultC s1 = sv_resultC s"
      "sv_testCancel s1 = sv_testCancel s" "sv_log s1 = sv_log s" "sv_next s1 = sv_next s"
  shows "server_inv own (move n (map_option (\<lambda>(c, r). LateSending c r) after) s1)"
proof (rule server_inv_owner [OF inv own])
  note own_ok = owner_okD [OF inv own]
  have g: "got s1 = got s" using s by (simp add: got_def fun_eq_iff)
  show "owner_ok (move n (map_option (\<lambda>(c, r). LateSending c r) after) s1) i n k"
    using owner_phase [OF own_ok t] owner_entry [OF own_ok] owner_cancel [OF own_ok t] s g
    by (cases after) (auto simp: owner_ok_def chan_ok_def move_def)
qed (use t s in \<open>auto simp: move_def\<close>)

lemma owner_step:
  assumes inv: "server_inv own s" and own: "own i = Some (n, k)" and t: "sv_threads s n = Some t"
    and step: "thread_step n env s t = Step s'"
  shows "server_inv own s'"
proof -
  note own_ok = owner_okD [OF inv own]
  note ph = owner_phase [OF own_ok t]
  note goto = move_owner [OF inv own t]
  show ?thesis
  proof (cases t)
    case (Listening a)
    then have u: "undelivered k n i t" using ph(3) by auto
    show ?thesis using step ph(1) [OF u] u Listening
      by (auto simp: chan_ok_def intro!: goto split: panics.splits option.splits)
  next
    case (Testing a)
    then have u: "undelivered k n i t" using ph(3) by auto
    show ?thesis using step ph(1) [OF u] u Testing
      by (auto simp: chan_ok_def intro!: goto split: panics.splits option.splits)
  next
    case (Looking j r)
    then have u: "undelivered k n i t" using ph(3) by auto
    show ?thesis using step ph(1) [OF u] u Looking by (auto simp: chan_ok_def intro!: goto)
  next
    case (Sending j c r)
    then have u: "undelivered k n i t" using ph(3) by auto
    then show ?thesis using step send_owner [OF inv own t u, of "Some (Closing i n)" r s'] Sending by simp
  next
    case (Closing j c)
    then have "k" "j = i" "c = n" using ph(3) by auto
    then show ?thesis using step close_owner [OF inv own, of s'] t Closing by simp
  next
    case (Starting a)
    then have u: "undelivered k n i t" using ph(3) by auto
    show ?thesis using step ph(1) [OF u] u Starting
      by (auto simp: chan_ok_def intro!: goto split: sum.splits option.splits)
  next
    case (CmdRunning a c d)
    then have u: "undelivered k n i t" using ph(3) by auto
    show ?thesis using step ph(1) [OF u] u CmdRunning by (auto simp: chan_ok_def intro!: goto)
  next
    case (CmdSending j c r)
    then have u: "undelivered k n i t" using ph(3) by auto
    then show ?thesis using step send_owner [OF inv own t u, of "Some (Finishing i None)" r s'] CmdSending by simp
  next
    case (Finishing j after)
    then show ?thesis using step finish_owner [OF inv own] t by auto
  next
    case (Cancelling c after)
    then show ?thesis using step cancel_owner [OF inv own, of c after] t by (auto split: option.splits)
  next
    case (LateSending c r)
    then have u: "undelivered k n i t" using ph(3) by auto
    then show ?thesis using step send_owner [OF inv own t u, of None r s'] LateSending by simp
  qed (use ph(3) in auto)
qed

text \<open>Steps of a request thread: the owners' threads stay.\<close>

lemma waiting_step:
  assumes inv: "server_inv own s" and m: "sv_threads s m = Some (Waiting i c)" and own: "own i = Some (c, k)"
    and h: "handleChanResult (sv_done s) recv (sv_chans s c) = Some (received, rep, ch)"
  shows "server_inv own (move m (if received then Some (Dropping i) else None)
     (log_reply i rep (s\<lparr>sv_chans := (sv_chans s)(c := ch)\<rparr>)))" (is "server_inv own ?s'")
proof -
  note own_ok = owner_okD [OF inv own]
  let ?b = "sv_chans s c"
  have mc: "own j \<noteq> Some (m, l)" for j l using owner_not_request [OF inv _ m, of j l own s] own by auto
  have th: "sv_threads ?s' n = sv_threads s n" if "n \<noteq> m" for n using that by (simp add: move_def log_reply_def)
  have g: "got ?s' j = got s j + (if j = i \<and> is_Got rep then 1 else 0)" for j
    by (simp add: got_def move_def log_reply_def)
  have cases: "(\<exists>r. rep = Got r \<and> received \<and> length (ch_buf ?b) = Suc (length (ch_buf ch)) \<and> ch_closed ch = ch_closed ?b) \<or>
      rep = AlreadyRetrieved \<and> received \<and> ch = ?b \<and> ch_buf ?b = [] \<and> ch_closed ?b \<or>
      rep = Shutdown \<and> \<not> received \<and> ch = ?b"
    using h by (auto simp: handleChanResult_def split: if_splits list.splits)
  have got1: "got ?s' i = 1" if received
  proof -
    have "length (ch_buf ?b) + got s i \<le> 1" and "ch_closed ?b \<longrightarrow> length (ch_buf ?b) + got s i = 1"
      using own_ok by (auto simp: owner_ok_def chan_ok_def split: option.splits)
    then show ?thesis using cases that g [of i] by auto
  qed
  show ?thesis
  proof (rule server_invI)
    fix j n l assume j: "own j = Some (n, l)"
    then have nm: "n \<noteq> m" using mc by auto
    show "n < sv_next ?s' \<and> owner_ok ?s' j n l"
    proof (cases "j = i")
      case True
      then have jn: "n = c" "l = k" using j own by simp_all
      have "chan_ok k c i (sv_threads s c) ch (got ?s' i) (sv_resultC s i)"
        using own_ok cases g [of i] by (auto simp: owner_ok_def chan_ok_def split: option.splits)
      then show ?thesis
        using own_ok jn True nm owner_lt [OF inv j] g [of i] got1 cases
        by (auto simp: owner_ok_def move_def log_reply_def)
    next
      case False
      then have "n \<noteq> c" using owner_inj [OF inv j, of i k] own by auto
      then show ?thesis
        using owner_okD [OF inv j] owner_lt [OF inv j] False nm g [of j]
        by (simp add: owner_ok_def move_def log_reply_def)
    qed
  next
    fix j j' n l l' assume "own j = Some (n, l)" "own j' = Some (n, l')"
    then show "j = j'" by (rule owner_inj [OF inv])
  next
    fix n t assume n: "sv_threads ?s' n = Some t"
    show "n < sv_next ?s' \<and> ((\<exists>i k. own i = Some (n, k)) \<or> request_ok own ?s' t)"
    proof (cases "n = m")
      case True
      then have "received" "t = Dropping i" using n by (auto simp: move_def split: if_splits)
      then show ?thesis using got1 own thread_lt [OF inv m] True by (simp add: move_def log_reply_def)
    next
      case False
      then have t: "sv_threads s n = Some t" using n th by simp
      have "request_ok own ?s' t" if "request_ok own s t"
      proof (cases t)
        case (Dropping j)
        then have "got s j = 1" "own j \<noteq> None" using that by simp_all
        moreover have "got ?s' j \<le> 1" if "j = i"
          using \<open>got s j = 1\<close> that own_ok cases g [of i]
          by (auto simp: owner_ok_def chan_ok_def split: option.splits)
        ultimately have "got ?s' j = 1" using g [of j] by (auto split: if_splits)
        then show ?thesis using \<open>own j \<noteq> None\<close> Dropping by simp
      qed (use that in auto)
      then show ?thesis using thread_lt [OF inv t] thread_owned [OF inv t] by (auto simp: move_def log_reply_def)
    qed
  next
    fix j assume "own j = None"
    then show "sv_resultC ?s' j = None \<and> sv_testCancel ?s' j = None \<and> got ?s' j = 0"
      using unowned [OF inv, of j] own g [of j] by (auto simp: move_def log_reply_def)
  next
    fix j assume j: "sv_resultC ?s' j \<noteq> None" "got ?s' j = 1"
    show "\<exists>n. sv_threads ?s' n = Some (Dropping j)"
    proof (cases "j = i \<and> received")
      case True
      then have "sv_threads ?s' m = Some (Dropping j)" by (simp add: move_def)
      then show ?thesis by blast
    next
      case False
      then have "got s j = 1" using j(2) g [of j] cases by (auto split: if_splits)
      then obtain n where n: "sv_threads s n = Some (Dropping j)"
        using dropping [OF inv, of j] j(1) by (auto simp: move_def log_reply_def)
      then have "n \<noteq> m" using m by auto
      then show ?thesis using n th by metis
    qed
  qed
qed

lemma dropping_step:
  assumes inv: "server_inv own s" and m: "sv_threads s m = Some (Dropping i)" and own: "own i = Some (c, k)"
    and got: "got s i = 1"
  shows "server_inv own (move m None (s\<lparr>sv_resultC := (sv_resultC s)(i := None)\<rparr>))" (is "server_inv own ?s'")
proof -
  have mc: "own j \<noteq> Some (m, l)" for j l using owner_not_request [OF inv _ m, of j l own s] own got by auto
  have req: "request_ok own ?s' t = request_ok own s t" for t by (cases t) (simp_all add: move_def)
  show ?thesis
  proof (rule server_invI)
    fix j n l assume j: "own j = Some (n, l)"
    then have nm: "n \<noteq> m" using mc by auto
    have "owner_ok ?s' j n l"
      using owner_okD [OF inv j] nm got
      by (cases "j = i") (auto simp: owner_ok_def chan_ok_def move_def split: option.splits)
    then show "n < sv_next ?s' \<and> owner_ok ?s' j n l" using owner_lt [OF inv j] by (simp add: move_def)
  next
    fix j j' n l l' assume "own j = Some (n, l)" "own j' = Some (n, l')"
    then show "j = j'" by (rule owner_inj [OF inv])
  next
    fix n t assume "sv_threads ?s' n = Some t"
    then have "sv_threads s n = Some t" by (simp add: move_def split: if_splits)
    then show "n < sv_next ?s' \<and> ((\<exists>i k. own i = Some (n, k)) \<or> request_ok own ?s' t)"
      using thread_lt [OF inv] thread_owned [OF inv] req by (simp add: move_def)
  next
    fix j assume "own j = None"
    then show "sv_resultC ?s' j = None \<and> sv_testCancel ?s' j = None \<and> got ?s' j = 0"
      using unowned [OF inv, of j] own by (auto simp: move_def)
  next
    fix j assume j: "sv_resultC ?s' j \<noteq> None" "got ?s' j = 1"
    then have ji: "j \<noteq> i" by (auto simp: move_def)
    then obtain n where n: "sv_threads s n = Some (Dropping j)"
      using dropping [OF inv, of j] j by (auto simp: move_def)
    then have "sv_threads ?s' n = Some (Dropping j)" using m ji by (auto simp: move_def)
    then show "\<exists>n. sv_threads ?s' n = Some (Dropping j)" by blast
  qed
qed

subsection \<open>Events\<close>

lemma server_inv_frame:
  assumes inv: "server_inv own s" and "sv_threads s' = sv_threads s" and "sv_chans s' = sv_chans s"
    and "sv_resultC s' = sv_resultC s" and "sv_testCancel s' = sv_testCancel s" and "sv_next s' = sv_next s"
    and got: "got s' = got s"
  shows "server_inv own s'"
proof -
  have "owner_ok s' i n k = owner_ok s i n k" for i n k using assms by (simp add: owner_ok_def)
  moreover have "request_ok own s' t = request_ok own s t" for t using got by (cases t) simp_all
  ultimately show ?thesis using inv assms by (simp add: server_inv_def)
qed

lemma server_inv_log: "server_inv own s \<Longrightarrow> \<not> is_Got r \<Longrightarrow> server_inv own (log_reply i r s)"
  by (erule server_inv_frame) (simp_all add: log_reply_def got_def fun_eq_iff)

lemma server_inv_request:
  assumes inv: "server_inv own s" and c: "sv_resultC s i = Some c"
  shows "server_inv own (spawn (Waiting i c) s)"
proof (rule server_invI)
  have th: "sv_threads s (sv_next s) = None" using thread_lt [OF inv, of "sv_next s"] by (cases "sv_threads s (sv_next s)") auto
  have g: "got (spawn (Waiting i c) s) = got s" by (simp add: spawn_def)
  have req: "request_ok own (spawn (Waiting i c) s) t = request_ok own s t" for t by (cases t) (simp_all add: g)
  obtain k where k: "own i = Some (c, k)"
    using unowned [OF inv, of i] owner_entry [OF owner_okD [OF inv, of i]] c by (cases "own i") auto
  show "n < sv_next (spawn (Waiting i c) s) \<and> owner_ok (spawn (Waiting i c) s) j n l" if j: "own j = Some (n, l)" for j n l
    using owner_lt [OF inv j] owner_okD [OF inv j] by (simp add: owner_ok_def spawn_def)
  show "j = j'" if "own j = Some (n, l)" "own j' = Some (n, l')" for j j' n l l'
    using that by (rule owner_inj [OF inv])
  show "m < sv_next (spawn (Waiting i c) s) \<and> ((\<exists>i k. own i = Some (m, k)) \<or> request_ok own (spawn (Waiting i c) s) t)"
    if "sv_threads (spawn (Waiting i c) s) m = Some t" for m t
    using that thread_lt [OF inv] thread_owned [OF inv] k unfolding req
    by (fastforce simp: spawn_def less_Suc_eq split: if_splits)
  show "sv_resultC (spawn (Waiting i c) s) j = None \<and> sv_testCancel (spawn (Waiting i c) s) j = None \<and>
      got (spawn (Waiting i c) s) j = 0" if "own j = None" for j
    using unowned [OF inv that] by (simp add: spawn_def)
  show "\<exists>m. sv_threads (spawn (Waiting i c) s) m = Some (Dropping j)"
    if j: "sv_resultC (spawn (Waiting i c) s) j \<noteq> None" "got (spawn (Waiting i c) s) j = 1" for j
  proof -
    obtain m where m: "sv_threads s m = Some (Dropping j)" using dropping [OF inv, of j] j by (auto simp: spawn_def)
    then have "sv_threads (spawn (Waiting i c) s) m = Some (Dropping j)" using th by (auto simp: spawn_def)
    then show ?thesis by blast
  qed
qed

lemma server_inv_register:
  assumes inv: "server_inv own s" and new: "own i = None" and "i \<noteq> []"
    and und: "undelivered k (sv_next s) i t" and "before_finish t"
  shows "server_inv (own(i \<mapsto> (sv_next s, k))) (register_test i t s)" (is "server_inv ?own ?s'")
proof -
  note u = unowned [OF inv new]
  let ?n = "sv_next s"
  have s': "?s' = s\<lparr>sv_threads := (sv_threads s)(?n \<mapsto> t), sv_next := Suc ?n,
      sv_chans := (sv_chans s)(?n := \<lparr>ch_buf = [], ch_closed = False\<rparr>),
      sv_resultC := (sv_resultC s)(i \<mapsto> ?n), sv_testCancel := (sv_testCancel s)(i \<mapsto> ?n)\<rparr>"
    using u assms(3) by (simp add: register_test_def spawn_def Let_def)
  have g: "got ?s' = got s" by (simp add: s')
  have th: "sv_threads s ?n = None" using thread_lt [OF inv, of ?n] by (cases "sv_threads s ?n") auto
  have own_lt: "own j = Some (n, l) \<Longrightarrow> n < ?n" for j n l by (rule owner_lt [OF inv])
  have req: "request_ok ?own ?s' t" if "request_ok own s t" for t using that new g by (cases t) auto
  show ?thesis
  proof (rule server_invI)
    fix j n l assume j: "?own j = Some (n, l)"
    show "n < sv_next ?s' \<and> owner_ok ?s' j n l"
    proof (cases "j = i")
      case True
      then show ?thesis using j u und assms(5) g by (simp add: s' owner_ok_def chan_ok_def)
    next
      case False
      then have "own j = Some (n, l)" using j by simp
      moreover from this have "n \<noteq> ?n" using own_lt by blast
      ultimately show ?thesis
        using False owner_okD [OF inv, of j n l] own_lt [of j n l] by (simp add: s' owner_ok_def)
    qed
  next
    fix j j' n l l' assume "?own j = Some (n, l)" "?own j' = Some (n, l')"
    then show "j = j'" using owner_inj [OF inv, of j n l j' l'] own_lt by (auto split: if_splits)
  next
    fix m t' assume "sv_threads ?s' m = Some t'"
    then show "m < sv_next ?s' \<and> ((\<exists>i k. ?own i = Some (m, k)) \<or> request_ok ?own ?s' t')"
    proof (cases "m = ?n")
      case True
      then show ?thesis by (auto simp: s')
    next
      case False
      then have t': "sv_threads s m = Some t'" using \<open>sv_threads ?s' m = Some t'\<close> by (simp add: s')
      then have "(\<exists>j k. ?own j = Some (m, k)) \<or> request_ok ?own ?s' t'"
        using thread_owned [OF inv t'] req new by (metis fun_upd_apply option.distinct(1))
      then show ?thesis using thread_lt [OF inv t'] by (simp add: s')
    qed
  next
    fix j assume "?own j = None"
    then show "sv_resultC ?s' j = None \<and> sv_testCancel ?s' j = None \<and> got ?s' j = 0"
      using unowned [OF inv, of j] by (simp add: s' split: if_splits)
  next
    fix j assume j: "sv_resultC ?s' j \<noteq> None" "got ?s' j = 1"
    then have "j \<noteq> i" using u g by auto
    then obtain m where "sv_threads s m = Some (Dropping j)" using dropping [OF inv, of j] j g by (auto simp: s')
    then have "sv_threads ?s' m = Some (Dropping j)" using th by (auto simp: s')
    then show "\<exists>m. sv_threads ?s' m = Some (Dropping j)" by blast
  qed
qed

lemma owner_no_crash:
  assumes inv: "server_inv own s" and own: "own i = Some (n, k)" and t: "sv_threads s n = Some t"
  shows "thread_step n env s t \<noteq> Crash x"
    and "\<not> (\<exists>a. t = Testing a) \<Longrightarrow> thread_step n env s t \<noteq> Blocked"
proof -
  note ph = owner_phase [OF owner_okD [OF inv own] t]
  have socket: "\<exists>st. SocketType (ra_ServerMode a) = Returns st" if "t = Listening a" for a
    using ph(3) that well_typed_socket by auto
  have handler: "handle_test e a \<noteq> Panics y" if "t = Testing a" for a e y
    using ph(3) that by (auto simp: well_typed_def)
  show "thread_step n env s t \<noteq> Crash x"
    using ph socket handler
    by (cases t) (auto simp: thread_defs split: panics.splits option.splits sum.splits)
  show "thread_step n env s t \<noteq> Blocked" if "\<not> (\<exists>a. t = Testing a)"
    using ph socket that
    by (cases t) (auto simp: thread_defs split: panics.splits option.splits sum.splits)
qed

lemma go_step:
  assumes inv: "server_inv own s" and t: "sv_threads s n = Some t"
  shows "case thread_step n env s t of Step s' \<Rightarrow> server_inv own s' | Crash x \<Rightarrow> False | Blocked \<Rightarrow> True"
proof (cases "\<exists>i k. own i = Some (n, k)")
  case True
  then obtain i k where own: "own i = Some (n, k)" by blast
  show ?thesis
    using owner_step [OF inv own t] owner_no_crash(1) [OF inv own t] by (simp split: step_result.split)
next
  case False
  then have "request_ok own s t" using thread_owned [OF inv t] by blast
  then consider i c k where "t = Waiting i c" "own i = Some (c, k)" | i c k where "t = Dropping i" "own i = Some (c, k)" "got s i = 1"
    by (cases t) auto
  then show ?thesis
  proof cases
    case (1 i c k)
    then show ?thesis using waiting_step [OF inv] t by (auto split: option.split)
  next
    case (2 i c k)
    then show ?thesis using dropping_step [OF inv, of n i c k] t by simp
  qed
qed

text \<open>The identifiers an event starts, with \<open>True\<close> for a server test.\<close>

fun started :: "server_event \<Rightarrow> (string \<times> bool) list" where
  "started (RequestServer args) = [(ra_ID args, True)]"
| "started (RunCommand args) = [(ca_ID args, False)]"
| "started _ = []"

fun from_client :: "server_event \<Rightarrow> bool" where
  "from_client (RequestServer args) = (\<exists>echo c i. args = client_request echo c i)"
| "from_client _ = True"

definition fresh_schedule :: "server_event list \<Rightarrow> bool" where
  "fresh_schedule evs \<longleftrightarrow> distinct (map fst (concat (map started evs))) \<and> list_all from_client evs"

text \<open>How the owners change when the identifiers \<open>sts\<close> are started.\<close>

definition owners_after :: "owners \<Rightarrow> (string \<times> bool) list \<Rightarrow> owners \<Rightarrow> bool" where
  "owners_after own sts own' \<longleftrightarrow>
     (\<forall>j n k. own' j = Some (n, k) \<longrightarrow> own j = Some (n, k) \<or> (j, k) \<in> set sts) \<and>
     (\<forall>j \<in> dom own. j \<in> dom own') \<and>
     (\<forall>(j, k) \<in> set sts. j \<noteq> [] \<longrightarrow> j \<in> dom own')"

lemma owners_after_refl [simp]: "owners_after own [] own"
  by (simp add: owners_after_def)

lemma owners_afterD:
  assumes "owners_after own sts own'"
  shows "own' j = Some (n, k) \<Longrightarrow> own j = Some (n, k) \<or> (j, k) \<in> set sts"
    and "j \<in> dom own \<Longrightarrow> j \<in> dom own'"
    and "(j, k) \<in> set sts \<Longrightarrow> j \<noteq> [] \<Longrightarrow> j \<in> dom own'"
  using assms unfolding owners_after_def by (blast, blast, fast)

lemma owners_after_trans:
  assumes "owners_after own xs own1" and "owners_after own1 ys own2"
  shows "owners_after own (xs @ ys) own2"
  unfolding owners_after_def
proof (intro conjI allI impI ballI)
  fix j n k assume "own2 j = Some (n, k)"
  from owners_afterD(1) [OF assms(2) this] show "own j = Some (n, k) \<or> (j, k) \<in> set (xs @ ys)"
    using owners_afterD(1) [OF assms(1), of j n k] by auto
next
  fix j assume "j \<in> dom own"
  then show "j \<in> dom own2" by (intro owners_afterD(2) [OF assms(2)] owners_afterD(2) [OF assms(1)])
next
  fix x assume x: "x \<in> set (xs @ ys)"
  obtain j k where jk: "x = (j, k)" by fastforce
  have "j \<in> dom own2" if "j \<noteq> []"
    using x jk that owners_afterD(3) [OF assms(2), of j k]
      owners_afterD(2) [OF assms(2), of j] owners_afterD(3) [OF assms(1), of j k] by auto
  then show "case x of (j, k) \<Rightarrow> j \<noteq> [] \<longrightarrow> j \<in> dom own2" using jk by simp
qed

lemma register_step:
  assumes "server_inv own s" and "own i = None" and "undelivered k (sv_next s) i t" and "before_finish t"
  shows "\<exists>own'. server_inv own' (register_test i t s) \<and> owners_after own [(i, k)] own'"
proof (cases "i = []")
  case True
  have "owners_after own [(i, k)] own" using True by (simp add: owners_after_def)
  then show ?thesis using True server_inv_log [OF assms(1), of Rejected i] by (auto simp: register_test_def)
next
  case False
  have "owners_after own [(i, k)] (own(i \<mapsto> (sv_next s, k)))" by (simp add: owners_after_def)
  then show ?thesis using server_inv_register [OF assms(1,2) False assms(3,4)] by blast
qed

lemma server_step_inv:
  assumes inv: "server_inv own s" and "from_client ev" and new: "list_all (\<lambda>(i, k). own i = None) (started ev)"
  shows "case server_step s ev of
     Step s' \<Rightarrow> \<exists>own'. server_inv own' s' \<and> owners_after own (started ev) own'
   | Crash x \<Rightarrow> False
   | Blocked \<Rightarrow> True"
proof (cases ev)
  case (RequestServer args)
  then have "well_typed args" using assms(2) client_request_well_typed by auto
  then have "undelivered True (sv_next s) (ra_ID args) (Listening args)" by simp
  then show ?thesis using register_step [OF inv] new RequestServer by (simp add: RequestServer_rpc_def)
next
  case (RunCommand args)
  have "undelivered False (sv_next s) (ca_ID args) (Starting args)" by simp
  then show ?thesis using register_step [OF inv] new RunCommand by (simp add: RunCommand_rpc_def)
next
  case (RequestResult i)
  have "server_inv own (RequestResult_rpc i s)"
    using server_inv_log [OF inv, of NoTest i] server_inv_request [OF inv, of i]
    by (simp add: RequestResult_rpc_def split: option.split)
  then show ?thesis using RequestResult by (auto intro: owners_after_refl)
next
  case (Abort i)
  have "server_inv own (Abort_rpc i s)"
    using inv server_inv_frame [OF inv] by (simp add: Abort_rpc_def split: option.split)
  then show ?thesis using Abort by (auto intro: owners_after_refl)
next
  case CancelServer
  then show ?thesis using server_inv_frame [OF inv, of "s\<lparr>sv_done := True\<rparr>"] by (auto intro: owners_after_refl)
next
  case (Go n env)
  then show ?thesis
    using go_step [OF inv, of n _ env] by (force split: option.split step_result.split intro: owners_after_refl)
qed

lemma run_server_inv:
  assumes "server_inv own s" and "list_all from_client evs"
    and "distinct (map fst (concat (map started evs)))"
    and "list_all (\<lambda>(i, k). own i = None) (concat (map started evs))"
  shows "\<exists>s' own'. run_server s evs = Step s' \<and> server_inv own' s' \<and>
     owners_after own (concat (map started evs)) own'"
  using assms
proof (induction evs arbitrary: s own)
  case (Cons ev evs)
  have ev: "from_client ev" "list_all (\<lambda>(i, k). own i = None) (started ev)" using Cons.prems by simp_all
  note step = server_step_inv [OF Cons.prems(1) ev]
  have rest: "list_all from_client evs" "distinct (map fst (concat (map started evs)))"
    using Cons.prems by simp_all
  show ?case
  proof (cases "server_step s ev")
    case (Step s1)
    then obtain own1 where own1: "server_inv own1 s1" "owners_after own (started ev) own1" using step by auto
    have "own1 i = None" if i: "(i, k) \<in> set (concat (map started evs))" for i k
    proof (rule ccontr)
      assume "own1 i \<noteq> None"
      then obtain n l where "own1 i = Some (n, l)" by force
      moreover have "own i = None" using Cons.prems(4) i by (force simp: list_all_iff)
      ultimately have "(i, l) \<in> set (started ev)" using owners_afterD(1) [OF own1(2)] by fastforce
      then show False using Cons.prems(3) i by (force simp: distinct_map)
    qed
    then have "list_all (\<lambda>(i, k). own1 i = None) (concat (map started evs))" by (auto simp: list_all_iff)
    from Cons.IH [OF own1(1) rest this]
    obtain s' own' where "run_server s1 evs = Step s'" "server_inv own' s'"
      "owners_after own1 (concat (map started evs)) own'" by blast
    then show ?thesis using Step owners_after_trans [OF own1(2)] by auto
  next
    case Blocked
    then have "started ev = []" by (cases ev) simp_all
    then show ?thesis using Cons.IH [OF Cons.prems(1) rest] Cons.prems(4) Blocked by simp
  qed (use step in simp)
qed auto

lemma fresh_run:
  assumes "fresh_schedule evs"
  obtains s own where "run_server NewServer evs = Step s" and "server_inv own s"
    and "owners_after Map.empty (concat (map started evs)) own"
proof -
  have none: "list_all (\<lambda>(i, k). Map.empty i = None) (concat (map started evs))" by (auto simp: list_all_iff)
  have "list_all from_client evs" "distinct (map fst (concat (map started evs)))"
    using assms by (simp_all add: fresh_schedule_def)
  from run_server_inv [OF server_inv_NewServer this none] that show thesis by blast
qed

section \<open>Examples\<close>

definition example_client :: sender_client where
  "example_client = \<lparr>sc_IP = ''10.0.0.1'', sc_Out = ''o.csv'', sc_Direction = UL, sc_StartAt = 0,
     sc_Sender = BurstSender \<lparr>b_Timeout = second, b_Num = 3, b_Pad = 0\<rparr>\<rparr>"

definition example_go :: go_env where
  "example_go = \<lparr>go_listen = None,
     go_test = \<lparr>te_parse_icmp = (\<lambda>d. None), te_set_deadline_ok = True, te_read = ReadTimeout, te_reads = [],
       te_write_ok = True, te_accept = Inl ''closed'', te_now = 0, te_ctx_err = False,
       te_run = (\<lambda>r. (Some (RcvdMsgs []), None))\<rparr>,
     go_randdir = Inr ''/tmp/d'', go_exec = None, go_monitor = None, go_recv = True\<rparr>"

definition example_command :: command_args where
  "example_command = \<lparr>ca_ID = ''c'', ca_StartAt = 0,
     ca_Params = Some \<lparr>td_Name = ''tcpdump_remote'', td_Timeout = second, td_Filter = []\<rparr>\<rparr>"

text \<open>A server test that runs to its end, and one of which two requests are waiting for the
  result.\<close>

definition whole_test :: "server_event list" where
  "whole_test = RequestServer (client_request 7 example_client ''t'') # replicate 7 (Go 0 example_go)"

definition answered_test :: "server_event list" where
  "answered_test = whole_test @ [RequestResult ''t'', RequestResult ''t'', Go 1 example_go, Go 1 example_go]"

lemma example_fresh: "fresh_schedule whole_test" "fresh_schedule answered_test"
  by (auto simp: fresh_schedule_def answered_test_def whole_test_def numeral_eq_Suc)

section \<open>Properties\<close>







definition reuse_schedule :: "server_event list" where
  "reuse_schedule = answered_test @ [RequestServer (client_request 7 example_client ''t''), Go 2 example_go, Go 2 example_go] @
     replicate 3 (Go 3 example_go)"

definition cancel_schedule :: "server_event list" where
  "cancel_schedule = RequestServer (client_request 7 example_client ''t'') # replicate 5 (Go 0 example_go) @
     [RequestResult ''t'', Go 1 example_go, Go 1 example_go, RequestServer (client_request 7 example_client ''t''),
      Go 0 example_go, Go 0 example_go]"


definition command_schedule :: "server_event list" where
  "command_schedule = RunCommand example_command # replicate 5 (Go 0 example_go) @
     [RequestResult ''c'', RequestResult ''c'', Go 1 example_go, Go 1 example_go]"

text \<open>The channel of a command is never closed: when two requests wait for the result of a
  command that has ended and the first one has received it, the second one stays blocked.\<close>

theorem command_request_blocks:
  "case run_server NewServer command_schedule of
     Step s \<Rightarrow> sv_threads s 0 = None \<and> got s ''c'' = 1 \<and>
       (case server_step s (Go 2 example_go) of Blocked \<Rightarrow> sv_threads s 2 \<noteq> None | _ \<Rightarrow> False)
   | _ \<Rightarrow> False"
  by code_simp

end
