(* ===== verification/Icmp_Endpoints.thy ===== *)
theory Icmp_Endpoints
  imports Test_Handlers
begin

text \<open>
  The ICMP sender and receiver (\<open>pkg/icmp.go\<close>): the periodic sender, whose 16-bit echo sequence
  number wraps, the receiver that restores the full number, and the choice of the echo identifier.
  Building and parsing ICMP messages (\<open>golang.org/x/net/icmp\<close>) is an argument; ticker, clock,
  sockets and processes answer through the events.
\<close>

section \<open>Receiver\<close>

datatype receive_error = IcmpReadErr string | IcmpParseErr

text \<open>\<open>receive\<close> over the reads in order, each with the time read after it; \<open>None\<close> is a receiver
  that is still reading.\<close>

primrec receive :: "(u8 list \<Rightarrow> icmp_message option) \<Rightarrow> u16 \<Rightarrow> int \<Rightarrow> int \<Rightarrow> int \<Rightarrow> msg_rcvd list \<Rightarrow>
    (read_outcome \<times> gtime) list \<Rightarrow> (receive_error + msg_rcvd list) option" where
  "receive parse clientEchoID icmpType receivedSinceWrap baseSeq rcvdMsgs [] = None"
| "receive parse clientEchoID icmpType receivedSinceWrap baseSeq rcvdMsgs (r # rs) =
     (case fst r of
        ReadFail e \<Rightarrow> Some (Inl (IcmpReadErr e))
      | ReadTimeout \<Rightarrow> Some (Inr rcvdMsgs)
      | ReadData data peer \<Rightarrow>
          let continue = receive parse clientEchoID icmpType receivedSinceWrap baseSeq rcvdMsgs rs in
          (case parse data of
             None \<Rightarrow> Some (Inl IcmpParseErr)
           | Some msg \<Rightarrow>
               if im_Type msg \<noteq> ICMPTypeEcho \<and> im_Type msg \<noteq> ICMPTypeEchoReply then continue
               else if im_Type msg \<noteq> icmpType then continue
               else case im_Echo msg of
                 None \<Rightarrow> continue
               | Some (bodyID, bodySeq, bodyData) \<Rightarrow>
                   (case parseICMPData bodyData of
                      Inl e \<Rightarrow> continue
                    | Inr (echoID, punch) \<Rightarrow>
                        if punch then continue
                        else if echoID \<noteq> clientEchoID then continue
                        else
                          let wrapped = receivedSinceWrap > 2 ^ 16 div 2 \<and> bodySeq < 10000;
                              base = (if wrapped then baseSeq + 2 ^ 16 else baseSeq);
                              since = (if wrapped then 0 else receivedSinceWrap) + 1
                          in receive parse clientEchoID icmpType since base
                               (rcvdMsgs @ [\<lparr>r_Seq = word_of_int (base + bodySeq), r_TsRcvd = snd r,
                                             r_Len = of_nat (length data)\<rparr>]) rs)))"

text \<open>\<open>ICMPReceiver.Run\<close>: the listener is a \<open>DummyListener\<close> whose \<open>Accept\<close> returns its connection.\<close>

definition ICMPReceiver_Run :: "(u8 list \<Rightarrow> icmp_message option) \<Rightarrow> u16 \<Rightarrow> int \<Rightarrow>
    (read_outcome \<times> gtime) list \<Rightarrow> (receive_error + msg_rcvd list) option" where
  "ICMPReceiver_Run parse clientEchoID icmpType reads = receive parse clientEchoID icmpType 0 0 [] reads"

section \<open>Sender\<close>

datatype write_outcome = WriteOk | WriteTimeout | WriteFail string

datatype icmp_send_error = MarshalErr string | WriteErr string

definition icmp_echo :: "icmp_params \<Rightarrow> u64 \<Rightarrow> icmp_message" where
  "icmp_echo params seq =
     \<lparr>im_Type = i_ICMPType params,
      im_Echo = Some (uint (i_SenderEchoID params), uint seq mod 2 ^ 16,
                      makeICMPData (i_ClientEchoID params) (i_punch params))\<rparr>"

text \<open>\<open>send\<close>: the record, the error, and the datagram if the socket took it.\<close>

definition send :: "(icmp_message \<Rightarrow> string + u8 list) \<Rightarrow> icmp_params \<Rightarrow> gtime \<Rightarrow> write_outcome \<Rightarrow> u64 \<Rightarrow>
    msg_sent \<times> icmp_send_error option \<times> u8 list option" where
  "send marshal params now w seq =
     (case marshal (icmp_echo params seq) of
        Inl e \<Rightarrow> (\<lparr>s_Seq = seq, s_TsSent = now, s_Len = 0\<rparr>, Some (MarshalErr e), None)
      | Inr buf \<Rightarrow>
          let msgSent = \<lparr>s_Seq = seq, s_TsSent = now, s_Len = of_nat (length buf)\<rparr> in
          (case w of
             WriteOk \<Rightarrow> (msgSent, None, Some buf)
           | WriteTimeout \<Rightarrow> (msgSent, None, None)
           | WriteFail e \<Rightarrow> (msgSent, Some (WriteErr e), None)))"

text \<open>The branch each \<open>select\<close> of \<open>Run\<close> takes: the ticker, or the end of duration or context.\<close>

datatype icmp_event = IcmpTick gtime write_outcome | IcmpEnd

record icmp_run =
  ir_msgsSent :: "msg_sent list"
  ir_err :: "icmp_send_error option"
  ir_out :: "u8 list option list"

primrec icmp_send_loop :: "(icmp_message \<Rightarrow> string + u8 list) \<Rightarrow> icmp_params \<Rightarrow> u64 \<Rightarrow> msg_sent list \<Rightarrow>
    u8 list option list \<Rightarrow> icmp_event list \<Rightarrow> icmp_run option" where
  "icmp_send_loop marshal params seq msgsSent out [] = None"
| "icmp_send_loop marshal params seq msgsSent out (ev # evs) =
     (case ev of
        IcmpEnd \<Rightarrow> Some \<lparr>ir_msgsSent = msgsSent, ir_err = None, ir_out = out\<rparr>
      | IcmpTick now w \<Rightarrow>
          (case send marshal params now w seq of
             (msgSent, Some e, d) \<Rightarrow> Some \<lparr>ir_msgsSent = msgsSent, ir_err = Some e, ir_out = out\<rparr>
           | (msgSent, None, d) \<Rightarrow>
               icmp_send_loop marshal params (seq + 1) (msgsSent @ [msgSent]) (out @ [d]) evs))"

text \<open>\<open>time.NewTicker\<close> panics for a non-positive interval.\<close>

definition ICMPSender_Run :: "(icmp_message \<Rightarrow> string + u8 list) \<Rightarrow> icmp_params \<Rightarrow> icmp_event list \<Rightarrow>
    icmp_run option panics" where
  "ICMPSender_Run marshal params evs =
     (if i_Interval params \<le> 0 then Panics ''non-positive interval for NewTicker''
      else Returns (icmp_send_loop marshal params 0 [] [] evs))"

section \<open>The echo identifier\<close>

text \<open>\<open>pidExists\<close> from the answers of \<open>os.FindProcess\<close> and of signal 0: \<open>None\<close> is no error.\<close>

definition pidExists :: "string option \<Rightarrow> string option \<Rightarrow> string + bool" where
  "pidExists findErr signalErr =
     (case findErr of
        Some e \<Rightarrow> Inl e
      | None \<Rightarrow>
          (case signalErr of
             None \<Rightarrow> Inr True
           | Some e \<Rightarrow> Inr (e = ''operation not permitted'')))"

text \<open>\<open>genEchoID\<close> over the draws of \<open>rand.Intn((1<<16)-1-1)\<close> with the answers for each drawn process
  identifier; \<open>None\<close> is a loop that is still drawing.\<close>

primrec genEchoID :: "(nat \<times> (string option \<times> string option)) list \<Rightarrow> u16 option" where
  "genEchoID [] = None"
| "genEchoID (d # ds) =
     (let ident = fst d mod (2 ^ 16 - 1 - 1) + 1 in
      case pidExists (fst (snd d)) (snd (snd d)) of
        Inl e \<Rightarrow> Some (of_nat ident)
      | Inr exists \<Rightarrow> if \<not> exists then Some (of_nat ident) else genEchoID ds)"

section \<open>Restoring the sequence numbers\<close>

text \<open>The header number of a packet that belongs to the test, \<open>None\<close> for what is skipped.\<close>

definition test_seq :: "(u8 list \<Rightarrow> icmp_message option) \<Rightarrow> u16 \<Rightarrow> int \<Rightarrow> u8 list \<Rightarrow> int option" where
  "test_seq parse echoID ty data =
     (case parse data of
        None \<Rightarrow> None
      | Some msg \<Rightarrow>
          (case im_Echo msg of
             None \<Rightarrow> None
           | Some (bodyID, q, d) \<Rightarrow>
               if im_Type msg = ty \<and> (ty = ICMPTypeEcho \<or> ty = ICMPTypeEchoReply) \<and>
                  parseICMPData d = Inr (echoID, False)
               then Some q else None))"

text \<open>The numbers the receiver gives to a sequence of header numbers.\<close>

primrec unwrap :: "int \<Rightarrow> int \<Rightarrow> int list \<Rightarrow> int list" where
  "unwrap c b [] = []"
| "unwrap c b (q # qs) =
     (if c > 32768 \<and> q < 10000 then (b + 65536 + q) # unwrap 1 (b + 65536) qs
      else (b + q) # unwrap (c + 1) b qs)"

type_synonym arrival = "u8 list \<times> net_addr \<times> gtime"

definition as_read :: "arrival \<Rightarrow> read_outcome \<times> gtime" where
  "as_read = (\<lambda>(data, peer, t). (ReadData data peer, t))"

definition own_arrivals :: "(u8 list \<Rightarrow> icmp_message option) \<Rightarrow> u16 \<Rightarrow> int \<Rightarrow> arrival list \<Rightarrow> arrival list" where
  "own_arrivals parse echoID ty as = filter (\<lambda>(data, _). test_seq parse echoID ty data \<noteq> None) as"

definition header_seqs :: "(u8 list \<Rightarrow> icmp_message option) \<Rightarrow> u16 \<Rightarrow> int \<Rightarrow> arrival list \<Rightarrow> int list" where
  "header_seqs parse echoID ty as = map (\<lambda>(data, _). the (test_seq parse echoID ty data)) (own_arrivals parse echoID ty as)"

definition rcvd_of :: "arrival \<Rightarrow> int \<Rightarrow> msg_rcvd" where
  "rcvd_of = (\<lambda>(data, peer, t) q. \<lparr>r_Seq = word_of_int q, r_TsRcvd = t, r_Len = of_nat (length data)\<rparr>)"

lemma unwrap_length [simp]: "length (unwrap c b qs) = length qs"
  by (induction qs arbitrary: c b) simp_all

lemma receive_skip:
  assumes "parse data \<noteq> None" and "test_seq parse echoID ty data = None"
  shows "receive parse echoID ty c b acc ((ReadData data peer, t) # rs) = receive parse echoID ty c b acc rs"
proof -
  obtain msg where msg: "parse data = Some msg" using assms(1) by auto
  obtain ty' body where m: "msg = \<lparr>im_Type = ty', im_Echo = body\<rparr>" by (cases msg) simp
  show ?thesis
  proof (cases body)
    case (Some p)
    obtain i q d where "p = (i, q, d)" by (cases p) auto
    then show ?thesis using assms(2) msg m Some
      by (cases "parseICMPData d") (auto simp: test_seq_def Let_def)
  qed (simp add: msg m Let_def)
qed

lemma receive_take:
  assumes "test_seq parse echoID ty data = Some q"
  shows "receive parse echoID ty c b acc ((ReadData data peer, t) # rs) =
     (if c > 32768 \<and> q < 10000
      then receive parse echoID ty 1 (b + 65536) (acc @ [rcvd_of (data, peer, t) (b + 65536 + q)]) rs
      else receive parse echoID ty (c + 1) b (acc @ [rcvd_of (data, peer, t) (b + q)]) rs)"
proof -
  obtain msg where msg: "parse data = Some msg" using assms by (auto simp: test_seq_def split: option.splits)
  obtain ty' body where m: "msg = \<lparr>im_Type = ty', im_Echo = body\<rparr>" by (cases msg) simp
  obtain i d where b: "body = Some (i, q, d)" and ty: "ty' = ty" "ty = ICMPTypeEcho \<or> ty = ICMPTypeEchoReply"
    and d: "parseICMPData d = Inr (echoID, False)"
    using assms msg m by (auto simp: test_seq_def split: option.splits if_splits)
  have "\<not> (ty \<noteq> ICMPTypeEcho \<and> ty \<noteq> ICMPTypeEchoReply)" using ty(2) by simp
  then show ?thesis
    using msg m b ty(1) d by (auto simp: Let_def rcvd_of_def)
qed

text \<open>A receiver that reads until its deadline returns the packets of its test, in order of arrival,
  with the numbers of \<open>unwrap\<close>.\<close>

lemma receive_numbers:
  assumes "list_all (\<lambda>(data, _). parse data \<noteq> None) as"
  shows "receive parse echoID ty c b acc (map as_read as @ (ReadTimeout, t') # rs) =
     Some (Inr (acc @ map2 rcvd_of (own_arrivals parse echoID ty as)
       (unwrap c b (header_seqs parse echoID ty as))))"
  using assms
proof (induction as arbitrary: c b acc)
  case Nil
  then show ?case by (simp add: own_arrivals_def header_seqs_def)
next
  case (Cons a as)
  obtain data peer t where a: "a = (data, peer, t)" by (cases a) auto
  show ?case
  proof (cases "test_seq parse echoID ty data")
    case None
    then show ?thesis
      using Cons a receive_skip [OF _ None, of c b acc peer t]
      by (simp add: as_read_def own_arrivals_def header_seqs_def del: receive.simps(2))
  next
    case (Some q)
    then show ?thesis
      using Cons a receive_take [OF Some, of c b acc peer t]
      by (simp add: as_read_def own_arrivals_def header_seqs_def del: receive.simps(2))
  qed
qed

text \<open>
  A stream of full numbers that arrives in order, where every wrap can be seen: from each block of
  65536 numbers before the last one more than half arrived, and one of the first 10000 of the next.
\<close>

definition wraps_seen :: "nat list \<Rightarrow> bool" where
  "wraps_seen qs \<longleftrightarrow> sorted_wrt (<) qs \<and>
     (\<forall>q \<in> set qs. \<forall>e < q div 65536.
        32768 < length (filter (\<lambda>p. p div 65536 = e) qs) \<and>
        (\<exists>p \<in> set qs. p div 65536 = Suc e \<and> p mod 65536 < 10000))"

lemma block_count:
  assumes "sorted_wrt (<) (ps @ [q :: nat])"
  shows "length (filter (\<lambda>p. p div 65536 = q div 65536) ps) \<le> q mod 65536"
proof -
  let ?f = "filter (\<lambda>p. p div 65536 = q div 65536) ps"
  have "distinct ps" using assms by (simp add: sorted_wrt_append strict_sorted_iff)
  moreover have "set ?f \<subseteq> {q - q mod 65536 ..< q}"
  proof
    fix p assume "p \<in> set ?f"
    then have "p < q" "p div 65536 = q div 65536" using assms by (auto simp: sorted_wrt_append)
    moreover have "q - q mod 65536 = 65536 * (q div 65536)" "65536 * (p div 65536) \<le> p"
      by (simp_all add: minus_mod_eq_mult_div)
    ultimately show "p \<in> {q - q mod 65536 ..< q}" by simp
  qed
  ultimately show ?thesis
    using card_mono [of "{q - q mod 65536 ..< q}" "set ?f"] distinct_card [of ?f] by simp
qed

lemma block_split: "65536 * int (q div 65536) + int (q mod 65536) = int q"
  by (metis mult_div_mod_eq of_nat_add of_nat_mult of_nat_numeral)

lemma header_small: "int (q mod 65536) < 10000 \<longleftrightarrow> q mod 65536 < 10000"
  by linarith

lemma unwrap_same:
  "\<not> (c > 32768 \<and> q mod 65536 < 10000) \<Longrightarrow> q div 65536 = e \<Longrightarrow>
   unwrap c (65536 * int e) (int (q mod 65536) # xs) = int q # unwrap (c + 1) (65536 * int e) xs"
  using block_split [of q] unfolding unwrap.simps header_small by auto

lemma unwrap_next:
  "c > 32768 \<Longrightarrow> q mod 65536 < 10000 \<Longrightarrow> q div 65536 = Suc e \<Longrightarrow>
   unwrap c (65536 * int e) (int (q mod 65536) # xs) = int q # unwrap 1 (65536 * int (Suc e)) xs"
  using block_split [of q] unfolding unwrap.simps header_small by (auto simp: algebra_simps)

lemma unwrap_exact_from:
  assumes "wraps_seen (ps @ qs)" and "list_all (\<lambda>p. p div 65536 \<le> e) ps"
    and "e = 0 \<or> (\<exists>p \<in> set ps. p div 65536 = e)"
  shows "unwrap (int (length (filter (\<lambda>p. p div 65536 = e) ps))) (65536 * int e)
           (map (\<lambda>q. int (q mod 65536)) qs @ rest) =
         map int qs @ (case filter (\<lambda>p. p div 65536 = last (e # map (\<lambda>q. q div 65536) qs)) (ps @ qs) of
            b \<Rightarrow> unwrap (int (length b)) (65536 * int (last (e # map (\<lambda>q. q div 65536) qs))) rest)"
  using assms
proof (induction qs arbitrary: ps e)
  case (Cons q qs)
  have srt: "sorted_wrt (<) (ps @ [q])" "\<forall>p \<in> set ps. p < q" "\<forall>p \<in> set qs. q < p"
    using Cons.prems(1) by (auto simp: wraps_seen_def sorted_wrt_append)
  have seen: "32768 < length (filter (\<lambda>p. p div 65536 = d) (ps @ q # qs))"
    "\<exists>p \<in> set (ps @ q # qs). p div 65536 = Suc d \<and> p mod 65536 < 10000" if "d < q div 65536" for d
    using Cons.prems(1) that unfolding wraps_seen_def by auto
  have "e \<le> q div 65536" using Cons.prems(3) srt(2) by (auto intro: div_le_mono less_imp_le)
  have step: "wraps_seen ((ps @ [q]) @ qs)" using Cons.prems(1) by simp
  show ?case
  proof (cases "q div 65536 = e")
    case True
    have "\<not> (32768 < int (length (filter (\<lambda>p. p div 65536 = e) ps)) \<and> q mod 65536 < 10000)"
      using block_count [OF srt(1)] unfolding True by linarith
    from unwrap_same [OF this True] show ?thesis
      using Cons.IH [OF step, of e] Cons.prems(2) True by (simp add: add.commute)
  next
    case False
    then have lt: "e < q div 65536" using \<open>e \<le> q div 65536\<close> by simp
    have "\<forall>p \<in> set (q # qs). p div 65536 \<noteq> e"
      using lt srt(3) by (metis div_le_mono less_imp_le not_less set_ConsD)
    then have "filter (\<lambda>p. p div 65536 = e) (q # qs) = []" unfolding filter_empty_conv .
    then have c: "32768 < int (length (filter (\<lambda>p. p div 65536 = e) ps))"
      using seen(1) [OF lt] by simp
    obtain p where p: "p \<in> set (ps @ q # qs)" "p div 65536 = Suc e" "p mod 65536 < 10000"
      using seen(2) [OF lt] by blast
    have "p \<notin> set ps" using Cons.prems(2) p(2) by (auto simp: list_all_iff)
    then have "q \<le> p" using p(1) srt(3) by auto
    then have block: "q div 65536 = Suc e" using lt p(2) div_le_mono [of q p 65536] by simp
    have "q mod 65536 < 10000"
      using \<open>q \<le> p\<close> block p div_mult_mod_eq [of q 65536] div_mult_mod_eq [of p 65536] by simp
    from unwrap_next [OF c this block] have
      "unwrap (int (length (filter (\<lambda>p. p div 65536 = e) ps))) (65536 * int e)
         (map (\<lambda>q. int (q mod 65536)) (q # qs) @ rest) =
       int q # unwrap 1 (65536 * int (Suc e)) (map (\<lambda>q. int (q mod 65536)) qs @ rest)" by simp
    moreover have "filter (\<lambda>p. p div 65536 = Suc e) (ps @ [q]) = [q]"
      using Cons.prems(2) block by (auto simp: list_all_iff filter_empty_conv)
    moreover have "list_all (\<lambda>p. p div 65536 \<le> Suc e) (ps @ [q])"
      using Cons.prems(2) block by (auto simp: list_all_iff)
    ultimately show ?thesis
      using Cons.IH [OF step, of "Suc e"] block by simp
  qed
qed simp

lemma unwrap_exact:
  assumes "wraps_seen qs" and "qs \<noteq> []"
  shows "unwrap 0 0 (map (\<lambda>q. int (q mod 65536)) qs @ rest) =
     map int qs @ unwrap (int (length (filter (\<lambda>p. p div 65536 = last qs div 65536) qs)))
       (65536 * int (last qs div 65536)) rest"
  using unwrap_exact_from [of "[]" qs 0 rest] assms by (simp add: last_map)

lemma unwrap_exact_all: "wraps_seen qs \<Longrightarrow> unwrap 0 0 (map (\<lambda>q. int (q mod 65536)) qs) = map int qs"
  using unwrap_exact [of qs "[]"] by (cases "qs = []") simp_all

section \<open>What the sender records\<close>

text \<open>The records of the first ticks: number \<open>k\<close> belongs to tick \<open>k\<close>, whose message was built, and the
  datagram went out unless the write timed out.\<close>

definition icmp_sent :: "(icmp_message \<Rightarrow> string + u8 list) \<Rightarrow> icmp_params \<Rightarrow> icmp_event list \<Rightarrow>
    msg_sent list \<Rightarrow> u8 list option list \<Rightarrow> bool" where
  "icmp_sent marshal params evs msgs out \<longleftrightarrow> length out = length msgs \<and> length msgs \<le> length evs \<and>
     (\<forall>k < length msgs. \<exists>now w buf. evs ! k = IcmpTick now w \<and>
        marshal (icmp_echo params (of_nat k)) = Inr buf \<and>
        msgs ! k = \<lparr>s_Seq = of_nat k, s_TsSent = now, s_Len = of_nat (length buf)\<rparr> \<and>
        (w = WriteOk \<and> out ! k = Some buf \<or> w = WriteTimeout \<and> out ! k = None))"

definition icmp_stopped :: "(icmp_message \<Rightarrow> string + u8 list) \<Rightarrow> icmp_params \<Rightarrow> nat \<Rightarrow> icmp_event \<Rightarrow>
    icmp_send_error option \<Rightarrow> bool" where
  "icmp_stopped marshal params k ev err =
     (case err of
        None \<Rightarrow> ev = IcmpEnd
      | Some (MarshalErr e) \<Rightarrow> marshal (icmp_echo params (of_nat k)) = Inl e
      | Some (WriteErr e) \<Rightarrow> \<exists>now. ev = IcmpTick now (WriteFail e))"

lemma send_cases:
  obtains e where "marshal (icmp_echo params seq) = Inl e"
      "send marshal params now w seq = (\<lparr>s_Seq = seq, s_TsSent = now, s_Len = 0\<rparr>, Some (MarshalErr e), None)"
  | buf e where "marshal (icmp_echo params seq) = Inr buf" "w = WriteFail e"
      "send marshal params now w seq = (\<lparr>s_Seq = seq, s_TsSent = now, s_Len = of_nat (length buf)\<rparr>, Some (WriteErr e), None)"
  | buf d where "marshal (icmp_echo params seq) = Inr buf"
      "w = WriteOk \<and> d = Some buf \<or> w = WriteTimeout \<and> d = None"
      "send marshal params now w seq = (\<lparr>s_Seq = seq, s_TsSent = now, s_Len = of_nat (length buf)\<rparr>, None, d)"
  by (cases "marshal (icmp_echo params seq)"; cases w) (auto simp: send_def)

lemma icmp_sent_snoc:
  assumes "icmp_sent marshal params all msgs out" and "length msgs < length all"
    and "all ! length msgs = IcmpTick now w" and "marshal (icmp_echo params (of_nat (length msgs))) = Inr buf"
    and "w = WriteOk \<and> d = Some buf \<or> w = WriteTimeout \<and> d = None"
  shows "icmp_sent marshal params all
     (msgs @ [\<lparr>s_Seq = of_nat (length msgs), s_TsSent = now, s_Len = of_nat (length buf)\<rparr>]) (out @ [d])"
  using assms unfolding icmp_sent_def by (auto simp: nth_append less_Suc_eq)

lemma icmp_send_loop_sent:
  assumes "icmp_sent marshal params (pre @ evs) msgs out" and "length msgs = length pre"
    and "icmp_send_loop marshal params (of_nat (length msgs)) msgs out evs = Some r"
  shows "icmp_sent marshal params (pre @ evs) (ir_msgsSent r) (ir_out r) \<and>
     length (ir_msgsSent r) < length (pre @ evs) \<and>
     icmp_stopped marshal params (length (ir_msgsSent r)) ((pre @ evs) ! length (ir_msgsSent r)) (ir_err r)"
  using assms
proof (induction evs arbitrary: pre msgs out)
  case (Cons ev evs)
  show ?case
  proof (cases ev)
    case IcmpEnd
    then show ?thesis using Cons.prems by (auto simp: icmp_stopped_def)
  next
    case (IcmpTick now w)
    let ?n = "of_nat (length msgs) :: u64"
    show ?thesis
    proof (rule send_cases [of marshal params ?n now w])
      fix buf d
      assume m: "marshal (icmp_echo params ?n) = Inr buf" "w = WriteOk \<and> d = Some buf \<or> w = WriteTimeout \<and> d = None"
        and send: "send marshal params now w ?n = (\<lparr>s_Seq = ?n, s_TsSent = now, s_Len = of_nat (length buf)\<rparr>, None, d)"
      let ?msgs = "msgs @ [\<lparr>s_Seq = ?n, s_TsSent = now, s_Len = of_nat (length buf)\<rparr>]"
      have "icmp_sent marshal params ((pre @ [ev]) @ evs) ?msgs (out @ [d])"
        using icmp_sent_snoc [OF Cons.prems(1) _ _ m] Cons.prems(2) IcmpTick by (simp add: nth_append)
      moreover have "icmp_send_loop marshal params (of_nat (length ?msgs)) ?msgs (out @ [d]) evs = Some r"
        using Cons.prems(3) IcmpTick send by (simp add: add.commute)
      ultimately show ?thesis using Cons.IH [of "pre @ [ev]" ?msgs "out @ [d]"] Cons.prems(2) by simp
    qed (use Cons.prems IcmpTick in \<open>auto simp: icmp_stopped_def nth_append\<close>)
  qed
qed simp

lemma ICMPSender_Run_sent:
  assumes "ICMPSender_Run marshal params evs = Returns (Some r)"
  shows "icmp_sent marshal params evs (ir_msgsSent r) (ir_out r) \<and> length (ir_msgsSent r) < length evs \<and>
     icmp_stopped marshal params (length (ir_msgsSent r)) (evs ! length (ir_msgsSent r)) (ir_err r)"
  using icmp_send_loop_sent [of marshal params "[]" evs "[]" "[]" r] assms
  by (simp add: ICMPSender_Run_def icmp_sent_def split: if_splits)

lemma icmp_send_loop_running:
  "IcmpEnd \<in> set evs \<Longrightarrow> icmp_send_loop marshal params seq msgs out evs \<noteq> None"
  by (induction evs arbitrary: seq msgs out) (auto split: icmp_event.split option.split prod.split)

section \<open>From sender to receiver\<close>

text \<open>What is relied on of \<open>golang.org/x/net/icmp\<close>: an echo message with 16-bit fields can be built and
  parses back.\<close>

definition icmp_codec :: "(icmp_message \<Rightarrow> string + u8 list) \<Rightarrow> (u8 list \<Rightarrow> icmp_message option) \<Rightarrow> bool" where
  "icmp_codec marshal parse \<longleftrightarrow>
     (\<forall>ty i q d. (ty = ICMPTypeEcho \<or> ty = ICMPTypeEchoReply) \<and> 0 \<le> i \<and> i < 65536 \<and> 0 \<le> q \<and> q < 65536 \<longrightarrow>
        (\<exists>bs. marshal \<lparr>im_Type = ty, im_Echo = Some (i, q, d)\<rparr> = Inr bs \<and>
           parse bs = Some \<lparr>im_Type = ty, im_Echo = Some (i, q, d)\<rparr>))"

lemma uint_mod_block: "uint (of_nat k :: u64) mod 65536 = int (k mod 65536)"
proof -
  have "uint (of_nat k :: u64) = int k mod 2 ^ 64" by (simp add: uint_nat unat_of_nat take_bit_eq_mod zmod_int)
  moreover have "int k mod 2 ^ 64 mod 65536 = int k mod 65536" by (rule mod_mod_cancel) simp
  ultimately show ?thesis by (simp add: zmod_int)
qed

lemma test_seq_echo:
  assumes "icmp_codec marshal parse" and "i_ICMPType params = ICMPTypeEcho \<or> i_ICMPType params = ICMPTypeEchoReply"
    and "\<not> i_punch params" and "marshal (icmp_echo params (of_nat k)) = Inr bs"
  shows "test_seq parse (i_ClientEchoID params) (i_ICMPType params) bs = Some (int (k mod 65536))"
proof -
  let ?d = "makeICMPData (i_ClientEchoID params) False"
  let ?q = "int (k mod 65536)" and ?i = "uint (i_SenderEchoID params)"
  have i: "0 \<le> ?i" "?i < 65536" using uint_bounded [of "i_SenderEchoID params"] by simp_all
  have q: "0 \<le> ?q" "?q < 65536" by simp_all
  have echo: "icmp_echo params (of_nat k) = \<lparr>im_Type = i_ICMPType params, im_Echo = Some (?i, ?q, ?d)\<rparr>"
    using assms(3) uint_mod_block [of k] by (simp add: icmp_echo_def)
  have "parse bs = Some (icmp_echo params (of_nat k))"
    using assms(1,2,4) i q unfolding echo icmp_codec_def by (metis sum.inject(2))
  then show ?thesis using assms(2) by (auto simp: test_seq_def echo)
qed

text \<open>The packets of the sender \<open>r\<close> whose indices are \<open>qs\<close>, among other traffic, in the order they
  are read.\<close>

definition delivered_packets :: "(u8 list \<Rightarrow> icmp_message option) \<Rightarrow> icmp_params \<Rightarrow> icmp_run \<Rightarrow> nat list \<Rightarrow>
    arrival list \<Rightarrow> bool" where
  "delivered_packets parse params r qs as \<longleftrightarrow>
     list_all (\<lambda>(data, _). parse data \<noteq> None) as \<and>
     list_all2 (\<lambda>(data, _) k. k < length (ir_out r) \<and> ir_out r ! k = Some data)
       (own_arrivals parse (i_ClientEchoID params) (i_ICMPType params) as) qs"

lemma delivered_headers:
  assumes "icmp_codec marshal parse" and "i_ICMPType params = ICMPTypeEcho \<or> i_ICMPType params = ICMPTypeEchoReply"
    and "\<not> i_punch params" and "icmp_sent marshal params evs (ir_msgsSent r) (ir_out r)"
    and "delivered_packets parse params r qs as"
  shows "header_seqs parse (i_ClientEchoID params) (i_ICMPType params) as = map (\<lambda>q. int (q mod 65536)) qs"
proof -
  have seq: "test_seq parse (i_ClientEchoID params) (i_ICMPType params) data = Some (int (k mod 65536))"
    if "k < length (ir_out r)" "ir_out r ! k = Some data" for k data
  proof -
    have "marshal (icmp_echo params (of_nat k)) = Inr data"
      using assms(4) that unfolding icmp_sent_def by fastforce
    from test_seq_echo [OF assms(1-3) this] show ?thesis .
  qed
  have "list_all2 (\<lambda>(data, _) k. k < length (ir_out r) \<and> ir_out r ! k = Some data) own qs \<Longrightarrow>
      map (\<lambda>(data, _). the (test_seq parse (i_ClientEchoID params) (i_ICMPType params) data)) own =
      map (\<lambda>q. int (q mod 65536)) qs" for own :: "arrival list"
    by (induction rule: list_all2_induct) (auto simp: seq)
  then show ?thesis using assms(5) by (simp add: header_seqs_def delivered_packets_def)
qed

lemma map_r_Seq: "length as = length qs \<Longrightarrow> map r_Seq (map2 rcvd_of as qs) = map word_of_int qs"
  by (induction as qs rule: list_induct2) (auto simp: rcvd_of_def)

lemma receiver_numbers:
  assumes "list_all (\<lambda>(data, _). parse data \<noteq> None) as"
  shows "\<exists>rcvd. ICMPReceiver_Run parse echoID ty (map as_read as @ [(ReadTimeout, t)]) = Some (Inr rcvd) \<and>
     map r_Seq rcvd = map word_of_int (unwrap 0 0 (header_seqs parse echoID ty as))"
proof -
  have "length (own_arrivals parse echoID ty as) = length (unwrap 0 0 (header_seqs parse echoID ty as))"
    by (simp add: header_seqs_def)
  from map_r_Seq [OF this] show ?thesis
    using receive_numbers [OF assms, of echoID ty 0 0 "[]" t "[]"] by (simp add: ICMPReceiver_Run_def)
qed

lemma of_nat_eq64: "j < 2 ^ 64 \<Longrightarrow> k < 2 ^ 64 \<Longrightarrow> (of_nat j :: u64) = of_nat k \<longleftrightarrow> j = k"
  by (metis unat_of_nat64)

section \<open>Properties\<close>

text \<open>C32. The ICMP sender: it panics only for a non-positive interval and has returned once its
  duration or context ended; its \<open>k\<close>-th record belongs to tick \<open>k\<close>, is numbered \<open>k\<close> and has the
  length of the message built for that number, which carries \<open>k mod 65536\<close>; the message went out,
  except when the write timed out, and then the record is kept all the same; and it stops at the
  end, or with the error of the first message that cannot be built or written.\<close>

theorem ICMPSender_records:
  "case ICMPSender_Run marshal params evs of
     Panics m \<Rightarrow> i_Interval params \<le> 0
   | Returns None \<Rightarrow> 0 < i_Interval params \<and> IcmpEnd \<notin> set evs
   | Returns (Some r) \<Rightarrow> 0 < i_Interval params \<and> icmp_sent marshal params evs (ir_msgsSent r) (ir_out r) \<and>
       icmp_stopped marshal params (length (ir_msgsSent r)) (evs ! length (ir_msgsSent r)) (ir_err r)"
proof (cases "i_Interval params \<le> 0")
  case False
  then have run: "ICMPSender_Run marshal params evs = Returns (icmp_send_loop marshal params 0 [] [] evs)"
    by (simp add: ICMPSender_Run_def)
  show ?thesis
  proof (cases "icmp_send_loop marshal params 0 [] [] evs")
    case None
    then show ?thesis using run False icmp_send_loop_running [of evs marshal params 0 "[]" "[]"] by auto
  next
    case (Some r)
    then show ?thesis using run False ICMPSender_Run_sent [of marshal params evs r] by simp
  qed
qed (simp add: ICMPSender_Run_def)

text \<open>C10. An ICMP test end to end. The receiver reads, among other traffic, packets of the sender in
  the order they were sent, any of them lost, as long as every wrap of the 16-bit number can be seen
  (more than half of each block of 65536 arrives, and one of the first 10000 after it). Then it
  returns exactly these packets under their full numbers, and the result table marks exactly the
  packets that did not arrive as lost.\<close>

theorem icmp_test_exact:
  assumes "icmp_codec marshal parse"
    and "i_ICMPType params = ICMPTypeEcho \<or> i_ICMPType params = ICMPTypeEchoReply" and "\<not> i_punch params"
    and "ICMPSender_Run marshal params evs = Returns (Some r)" and "length (ir_msgsSent r) \<le> 2 ^ 64"
    and "delivered_packets parse params r qs as" and "wraps_seen qs"
  shows "\<exists>rcvd. ICMPReceiver_Run parse (i_ClientEchoID params) (i_ICMPType params)
       (map as_read as @ [(ReadTimeout, t)]) = Some (Inr rcvd) \<and>
     map r_Seq rcvd = map of_nat qs \<and>
     (\<forall>k < length (ir_msgsSent r). Lost (processUDP (ir_msgsSent r) rcvd ! k) \<longleftrightarrow> k \<notin> set qs)"
proof -
  have sent: "icmp_sent marshal params evs (ir_msgsSent r) (ir_out r)"
    using ICMPSender_Run_sent [OF assms(4)] by simp
  have as: "list_all (\<lambda>(data, _). parse data \<noteq> None) as"
    and own: "list_all2 (\<lambda>(data, _) k. k < length (ir_out r) \<and> ir_out r ! k = Some data)
      (own_arrivals parse (i_ClientEchoID params) (i_ICMPType params) as) qs"
    using assms(6) by (simp_all add: delivered_packets_def)
  obtain rcvd where run: "ICMPReceiver_Run parse (i_ClientEchoID params) (i_ICMPType params)
      (map as_read as @ [(ReadTimeout, t)]) = Some (Inr rcvd)" and seqs: "map r_Seq rcvd = map of_nat qs"
    using receiver_numbers [OF as, of "i_ClientEchoID params" "i_ICMPType params" t]
      delivered_headers [OF assms(1-3) sent assms(6)] unwrap_exact_all [OF assms(7)] by (auto simp: comp_def)
  have small: "k < 2 ^ 64" if "k \<in> set qs" for k
  proof -
    have "k < length (ir_out r)" using own that by (auto simp: list_all2_conv_all_nth in_set_conv_nth)
    then show ?thesis using sent assms(5) by (simp add: icmp_sent_def)
  qed
  have "Lost (processUDP (ir_msgsSent r) rcvd ! k) \<longleftrightarrow> k \<notin> set qs" if k: "k < length (ir_msgsSent r)" for k
  proof -
    have k_small: "k < 2 ^ 64" using k assms(5) by simp
    have "Lost (processUDP (ir_msgsSent r) rcvd ! k) \<longleftrightarrow> of_nat k \<notin> r_Seq ` set rcvd"
      using processUDP_nth [OF assms(5) k] by (simp add: result_for_simps image_iff) metis
    also have "r_Seq ` set rcvd = of_nat ` set qs" using seqs by (metis list.set_map)
    also have "(of_nat k :: u64) \<in> of_nat ` set qs \<longleftrightarrow> k \<in> set qs"
      using small k_small by (auto simp: image_iff of_nat_eq64)
    finally show ?thesis .
  qed
  then show ?thesis using run seqs by blast
qed

text \<open>A concrete coder for the examples: type, identifier and number in five bytes, then the data.\<close>

definition example_marshal :: "icmp_message \<Rightarrow> string + u8 list" where
  "example_marshal m =
     (case im_Echo m of
        None \<Rightarrow> Inl ''no body''
      | Some (i, q, d) \<Rightarrow> Inr (word_of_int (im_Type m) # put_be 2 (word_of_int i :: u16) @ put_be 2 (word_of_int q :: u16) @ d))"

definition example_parse :: "u8 list \<Rightarrow> icmp_message option" where
  "example_parse bs =
     (case (get_be 2 (drop 1 bs) :: u16 option, get_be 2 (drop 3 bs) :: u16 option) of
        (Some i, Some q) \<Rightarrow> Some \<lparr>im_Type = uint (hd bs), im_Echo = Some (uint i, uint q, drop 5 bs)\<rparr>
      | _ \<Rightarrow> None)"

interpretation be16: fixed_codec "put_be 2 :: u16 \<Rightarrow> u8 list" "get_be 2" 2
  by (rule put_be_codec) simp

lemma example_codec: "icmp_codec example_marshal example_parse"
proof -
  have "uint (word_of_int x :: u16) = x" if "0 \<le> x" "x < 65536" for x
    using that by (simp add: uint_word_of_int)
  moreover have "uint (word_of_int ty :: u8) = ty" if "ty = ICMPTypeEcho \<or> ty = ICMPTypeEchoReply" for ty
    using that by auto
  ultimately show ?thesis
    by (simp add: icmp_codec_def example_marshal_def example_parse_def be16.dec_enc_append be16.length_enc)
qed

definition example_icmp :: icmp_params where
  "example_icmp = \<lparr>i_Duration = second, i_Interval = millisecond, i_ClientEchoID = 300, i_SenderEchoID = 7,
     i_ICMPType = ICMPTypeEcho, i_punch = False\<rparr>"

definition example_ticks :: "icmp_event list" where
  "example_ticks = [IcmpTick 10 WriteOk, IcmpTick 20 WriteOk, IcmpTick 30 WriteOk, IcmpEnd]"

definition example_packet :: "nat \<Rightarrow> arrival" where
  "example_packet k = (case example_marshal (icmp_echo example_icmp (of_nat k)) of Inr bs \<Rightarrow> (bs, [], 40 + int k))"

lemma example_run:
  "ICMPSender_Run example_marshal example_icmp example_ticks =
     Returns (Some \<lparr>ir_msgsSent = [\<lparr>s_Seq = 0, s_TsSent = 10, s_Len = 7\<rparr>, \<lparr>s_Seq = 1, s_TsSent = 20, s_Len = 7\<rparr>,
                      \<lparr>s_Seq = 2, s_TsSent = 30, s_Len = 7\<rparr>],
       ir_err = None, ir_out = map (\<lambda>k. Some (fst (example_packet k))) [0, 1, 2]\<rparr>)"
  by code_simp

lemma example_packet_seq:
  "test_seq example_parse 300 ICMPTypeEcho (fst (example_packet k)) = Some (int (k mod 65536))"
  "example_parse (fst (example_packet k)) \<noteq> None"
proof -
  obtain bs where bs: "example_marshal (icmp_echo example_icmp (of_nat k)) = Inr bs"
    by (simp add: example_marshal_def icmp_echo_def)
  then show seq: "test_seq example_parse 300 ICMPTypeEcho (fst (example_packet k)) = Some (int (k mod 65536))"
    using test_seq_echo [OF example_codec _ _ bs] by (simp add: example_packet_def example_icmp_def)
  then show "example_parse (fst (example_packet k)) \<noteq> None" by (auto simp: test_seq_def split: option.splits)
qed

lemma example_arrivals:
  "own_arrivals example_parse 300 ICMPTypeEcho (map example_packet qs) = map example_packet qs"
  "list_all (\<lambda>(data, _). example_parse data \<noteq> None) (map example_packet qs)"
  "header_seqs example_parse 300 ICMPTypeEcho (map example_packet qs) = map (\<lambda>q. int (q mod 65536)) qs"
proof -
  have "\<forall>a \<in> set (map example_packet qs). test_seq example_parse 300 ICMPTypeEcho (fst a) \<noteq> None"
    using example_packet_seq(1) by auto
  then show own: "own_arrivals example_parse 300 ICMPTypeEcho (map example_packet qs) = map example_packet qs"
    unfolding own_arrivals_def by (intro filter_True) (simp add: case_prod_beta)
  show "list_all (\<lambda>(data, _). example_parse data \<noteq> None) (map example_packet qs)"
    using example_packet_seq(2) by (simp add: list_all_iff case_prod_beta)
  show "header_seqs example_parse 300 ICMPTypeEcho (map example_packet qs) = map (\<lambda>q. int (q mod 65536)) qs"
    unfolding header_seqs_def own using example_packet_seq(1) by (simp add: case_prod_beta)
qed

theorem icmp_test_exact_witness:
  "icmp_codec example_marshal example_parse \<and>
   (\<exists>rcvd. ICMPReceiver_Run example_parse 300 ICMPTypeEcho
      (map as_read (map example_packet [0, 2]) @ [(ReadTimeout, 99)]) = Some (Inr rcvd) \<and> map r_Seq rcvd = [0, 2])"
proof -
  have "delivered_packets example_parse example_icmp
      \<lparr>ir_msgsSent = [\<lparr>s_Seq = 0, s_TsSent = 10, s_Len = 7\<rparr>, \<lparr>s_Seq = 1, s_TsSent = 20, s_Len = 7\<rparr>,
         \<lparr>s_Seq = 2, s_TsSent = 30, s_Len = 7\<rparr>],
       ir_err = None, ir_out = map (\<lambda>k. Some (fst (example_packet k))) [0, 1, 2]\<rparr> [0, 2] (map example_packet [0, 2])"
    using example_arrivals [of "[0, 2]"] by (simp add: delivered_packets_def example_icmp_def case_prod_beta)
  moreover have "wraps_seen [0, 2]" by (simp add: wraps_seen_def)
  ultimately show ?thesis
    using icmp_test_exact [OF example_codec _ _ example_run] example_codec by (fastforce simp: example_icmp_def)
qed

text \<open>A packet that is overtaken across a wrap: when the last packet in order has started a new
  block of 65536 numbers and then a packet from the end of the previous block arrives (a header
  number of at least 10000), the receiver counts it to the new block, 65536 too high.\<close>

theorem icmp_late_packet:
  assumes "list_all (\<lambda>(data, _). parse data \<noteq> None) as"
    and "header_seqs parse echoID ty as = map (\<lambda>q. int (q mod 65536)) (qs @ [late])"
    and "wraps_seen qs" and "qs \<noteq> []" and "last qs div 65536 = Suc (late div 65536)"
    and "10000 \<le> late mod 65536"
  shows "\<exists>rcvd. ICMPReceiver_Run parse echoID ty (map as_read as @ [(ReadTimeout, t)]) = Some (Inr rcvd) \<and>
     map r_Seq rcvd = map of_nat (qs @ [late + 65536])"
proof -
  have "\<not> int (late mod 65536) < 10000" using assms(6) header_small [of late] by simp
  then have "unwrap 0 0 (header_seqs parse echoID ty as) = map int (qs @ [late + 65536])"
    using unwrap_exact [OF assms(3,4), of "[int (late mod 65536)]"] block_split [of late] unfolding assms(2,5) by simp
  then show ?thesis using receiver_numbers [OF assms(1), of echoID ty t] by (auto simp: comp_def)
qed

theorem icmp_late_packet_witness:
  "\<exists>rcvd. ICMPReceiver_Run example_parse 300 ICMPTypeEcho
      (map as_read (map example_packet ([0..<65535] @ [65536, 65535])) @ [(ReadTimeout, 99)]) = Some (Inr rcvd) \<and>
     map r_Seq rcvd = map of_nat ([0..<65535] @ [65536, 131071])"
proof -
  let ?qs = "[0..<65535] @ [65536 :: nat]"
  have "filter (\<lambda>p. p div 65536 = 0) [0..<65535] = [0..<65535 :: nat]" by (rule filter_True) simp
  then have "32768 < length (filter (\<lambda>p. p div 65536 = 0) ?qs)" by (simp del: upt_rec_numeral)
  then have "wraps_seen ?qs" by (auto simp: wraps_seen_def sorted_wrt_append simp del: upt_rec_numeral)
  moreover have "header_seqs example_parse 300 ICMPTypeEcho (map example_packet (?qs @ [65535])) =
      map (\<lambda>q. int (q mod 65536)) (?qs @ [65535])" by (rule example_arrivals(3))
  ultimately show ?thesis
    using icmp_late_packet [OF example_arrivals(2) [of "?qs @ [65535]"], of 300 ICMPTypeEcho ?qs 65535 99]
    by (simp del: upt_rec_numeral map_append)
qed

text \<open>The echo identifier: it is never 0, the value that stands for \<open>not set\<close>, nor 65535, so
  parameters read again keep the identifier first chosen.\<close>

theorem genEchoID_stable:
  "case genEchoID ds of
     None \<Rightarrow> True
   | Some n \<Rightarrow> 1 \<le> unat n \<and> unat n \<le> 65534 \<and> GetParams m (GetParams n s) = GetParams n s"
proof (induction ds)
  case (Cons d ds)
  have bound: "fst d mod 65534 + 1 < 65536" using mod_less_divisor [of 65534 "fst d"] by simp
  then have n: "unat (of_nat (fst d mod 65534 + 1) :: u16) = fst d mod 65534 + 1"
    by (simp add: unat_of_nat take_bit_nat_eq_self del: of_nat_add of_nat_Suc)
  have "fst d mod 65534 + 1 \<le> 65534" using mod_less_divisor [of 65534 "fst d"] by simp
  moreover have "GetParams m (GetParams k s) = GetParams k s" if "1 \<le> unat k" for k
    using that by (cases s) auto
  ultimately show ?case
    using Cons n by (auto simp: Let_def split: sum.split simp del: of_nat_Suc of_nat_add)
qed simp

end
