(* ===== verification/Measurement_Client.thy ===== *)
theory Measurement_Client
  imports Icmp_Endpoints
begin

text \<open>
  The client side of one test (\<open>pkg/client.go\<close>, type \<open>SenderClient\<close>): requesting the server side,
  opening sockets and the hole in the NAT, running sender or receiver, and gathering the result table
  from both sides (with \<open>writeCSV\<close> of \<open>pkg/results.go\<close> and \<open>GenID\<close> of \<open>pkg/common.go\<close>). The
  answers of RPC calls, sockets, clocks and the run itself are arguments (record \<open>client_env\<close>).
\<close>

section \<open>State and environment\<close>

record client_state =
  cs_client :: sender_client
  cs_UDPMsgsSent :: "msg_sent list"
  cs_UDPMsgsRcvd :: "msg_rcvd list"
  cs_UDPResults :: "msg_result list"
  cs_TCPMetricsSndr :: "metric list"
  cs_TCPMetricsRcvr :: "metric list"
  cs_ID :: string
  cs_port :: nat

definition new_client :: "sender_client \<Rightarrow> client_state" where
  "new_client c = \<lparr>cs_client = c, cs_UDPMsgsSent = [], cs_UDPMsgsRcvd = [], cs_UDPResults = [],
     cs_TCPMetricsSndr = [], cs_TCPMetricsRcvr = [], cs_ID = [], cs_port = 0\<rparr>"

datatype punch_error = PunchWrite string | PunchDeadline | PunchStartPassed | PunchRead string | NoProbeReply

datatype client_error =
    CallErr string | ResolveErr string | ClientListenErr string | DialErr string | WaitErr test_error
  | RunFailed string | PunchFailed punch_error | MarshalFailed string | WriteCSVErr string

text \<open>What an RPC call meets: the end of its context, or the answer of the server.\<close>

datatype 'a rpc = CtxEnded string | Answered "string + 'a"

record punch_try =
  pt_write :: "string option"
  pt_now :: gtime
  pt_set_ok :: bool
  pt_now2 :: gtime
  pt_read :: read_outcome

record icmp_listen =
  il_resolveUDP :: "string option"
  il_listenPacket :: "string option"
  il_resolveIP :: "string option"
  il_resolveAny :: "string option"
  il_listenIP :: "string option"

record client_env =
  ce_id :: string
  ce_echo :: u16
  ce_call :: "nat rpc"
  ce_resolve :: "string option"
  ce_listen :: "string option"
  ce_dial :: "string option"
  ce_icmp :: icmp_listen
  ce_marshal :: "icmp_message \<Rightarrow> string + u8 list"
  ce_punch :: "nat \<Rightarrow> punch_try"
  ce_now :: gtime
  ce_ctx_err :: bool
  ce_run :: "runner \<Rightarrow> any_result option \<times> string option"

section \<open>Operations\<close>

definition letters :: string where
  "letters = ''abcdefghijklmnopqrstuvwxyzABCDEFGHIJKLMNOPQRSTUVWXYZ''"

text \<open>\<open>GenID\<close>: the formatted time and the twelve draws are arguments.\<close>

definition GenID :: "string \<Rightarrow> (nat \<Rightarrow> nat) \<Rightarrow> string \<Rightarrow> string" where
  "GenID stamp draws content =
     stamp @ ''_'' @ content @ ''_'' @ map (\<lambda>i. letters ! (draws i mod length letters)) [0..<12]"

fun callCtx :: "'a rpc \<Rightarrow> string + 'a" where
  "callCtx (CtxEnded e) = Inl e"
| "callCtx (Answered r) = r"

datatype icmp_conn = ICMPMockConn | IPConn

definition listenICMPClient :: "icmp_listen \<Rightarrow> string + icmp_conn" where
  "listenICMPClient il =
     (case il_resolveUDP il of
        Some e \<Rightarrow> Inl e
      | None \<Rightarrow>
          (case il_listenPacket il of
             None \<Rightarrow> Inr ICMPMockConn
           | Some _ \<Rightarrow>
               (case il_resolveIP il of
                  Some e \<Rightarrow> Inl e
                | None \<Rightarrow>
                    (case il_resolveAny il of
                       Some e \<Rightarrow> Inl e
                     | None \<Rightarrow> (case il_listenIP il of Some e \<Rightarrow> Inl e | None \<Rightarrow> Inr IPConn)))))"

definition probe_deadline :: "gtime \<Rightarrow> gtime \<Rightarrow> gtime" where
  "probe_deadline now startAt =
     (let probeDeadline = now + second in
      if \<not> IsZero startAt \<and> probeDeadline > startAt then startAt else probeDeadline)"

text \<open>The tries \<open>i\<close>, \<open>i + 1\<close>, \<dots> of \<open>punchHole\<close>; \<open>None\<close> is a received reply.\<close>

fun punch_loop :: "gtime \<Rightarrow> (nat \<Rightarrow> punch_try) \<Rightarrow> nat \<Rightarrow> nat \<Rightarrow> punch_error option" where
  "punch_loop startAt tries i 0 = Some NoProbeReply"
| "punch_loop startAt tries i (Suc left) =
     (case pt_write (tries i) of
        Some e \<Rightarrow> Some (PunchWrite e)
      | None \<Rightarrow>
          if \<not> pt_set_ok (tries i) then Some PunchDeadline
          else if \<not> IsZero startAt \<and> pt_now2 (tries i) > startAt then Some PunchStartPassed
          else
            (case pt_read (tries i) of
               ReadFail e \<Rightarrow> Some (PunchRead e)
             | ReadTimeout \<Rightarrow> punch_loop startAt tries (Suc i) left
             | ReadData data raddr \<Rightarrow> None))"

definition punchHole :: "gtime \<Rightarrow> (nat \<Rightarrow> punch_try) \<Rightarrow> punch_error option" where
  "punchHole startAt tries = punch_loop startAt tries 0 5"

definition punchICMPHole :: "(icmp_message \<Rightarrow> string + u8 list) \<Rightarrow> gtime \<Rightarrow> (nat \<Rightarrow> punch_try) \<Rightarrow> u16 \<Rightarrow>
    client_error option" where
  "punchICMPHole marshal startAt tries echoID =
     (case marshal \<lparr>im_Type = ICMPTypeEcho, im_Echo = Some (uint echoID, 0, makeICMPData echoID True)\<rparr> of
        Inl e \<Rightarrow> Some (MarshalFailed e)
      | Inr buf \<Rightarrow> map_option PunchFailed (punchHole startAt tries))"

type_synonym client_outcome = "(client_error option \<times> client_state) panics"

definition client_stop :: "client_error \<Rightarrow> client_state \<Rightarrow> client_outcome" where
  "client_stop e st = Returns (Some e, st)"

text \<open>The result switch of \<open>runUL\<close> (an unhandled type is only logged) and those of the downlink
  functions (an unhandled type panics).\<close>

fun store_sent :: "any_result option \<Rightarrow> client_state \<Rightarrow> client_state" where
  "store_sent (Some (SentMsgs ms)) st = st\<lparr>cs_UDPMsgsSent := ms\<rparr>"
| "store_sent (Some (TCPMetrics ms)) st = st\<lparr>cs_TCPMetricsSndr := ms\<rparr>"
| "store_sent _ st = st"

fun store_rcvd :: "any_result option \<Rightarrow> client_state \<Rightarrow> client_state panics" where
  "store_rcvd (Some (RcvdMsgs ms)) st = Returns (st\<lparr>cs_UDPMsgsRcvd := ms\<rparr>)"
| "store_rcvd _ st = Panics ''Unhandled result type in runDL''"

fun store_rcvr :: "any_result option \<Rightarrow> client_state \<Rightarrow> client_state panics" where
  "store_rcvr (Some (TCPMetrics ms)) st = Returns (st\<lparr>cs_TCPMetricsRcvr := ms\<rparr>)"
| "store_rcvr _ st = Panics ''Unhandled result type in runDL''"

text \<open>The client after \<open>GetParams\<close> of its sender, and after the request was answered.\<close>

definition with_params :: "u16 \<Rightarrow> client_state \<Rightarrow> client_state" where
  "with_params echo st = st\<lparr>cs_client := (cs_client st)\<lparr>sc_Sender := GetParams echo (sc_Sender (cs_client st))\<rparr>\<rparr>"

fun set_echo_type :: "sender \<Rightarrow> sender" where
  "set_echo_type (ICMPSender i) = ICMPSender (i\<lparr>i_ICMPType := ICMPTypeEcho\<rparr>)"
| "set_echo_type s = s"

text \<open>Opening the socket of \<open>runUL\<close>. The type assertions of its TCP and ICMP branches hold, because
  only a TCP sender has the mode \<open>ReceiveTCP\<close> and only an ICMP sender \<open>ReceiveICMP\<close>.\<close>

definition ul_connect :: "client_env \<Rightarrow> client_state \<Rightarrow> (client_error + client_state) panics" where
  "ul_connect env st =
     (case SocketType (ReceiverMode (sc_Sender (cs_client st))) of
        Panics m \<Rightarrow> Panics m
      | Returns UDP \<Rightarrow> Returns
          (case ce_resolve env of
             Some e \<Rightarrow> Inl (ResolveErr e)
           | None \<Rightarrow> (case ce_listen env of Some e \<Rightarrow> Inl (ClientListenErr e) | None \<Rightarrow> Inr st))
      | Returns TCP \<Rightarrow> Returns (case ce_dial env of Some e \<Rightarrow> Inl (DialErr e) | None \<Rightarrow> Inr st)
      | Returns ICMP \<Rightarrow> Returns
          (case listenICMPClient (ce_icmp env) of
             Inl e \<Rightarrow> Inl (ClientListenErr e)
           | Inr conn \<Rightarrow> Inr (st\<lparr>cs_client := (cs_client st)\<lparr>sc_Sender := set_echo_type (sc_Sender (cs_client st))\<rparr>\<rparr>)))"

definition runUL :: "client_env \<Rightarrow> client_state \<Rightarrow> client_outcome" where
  "runUL env st0 =
     (let st1 = with_params (ce_echo env) st0 in
      case callCtx (ce_call env) of
        Inl e \<Rightarrow> client_stop (CallErr e) st1
      | Inr port \<Rightarrow>
          (case ul_connect env (st1\<lparr>cs_port := port\<rparr>) of
             Panics m \<Rightarrow> Panics m
           | Returns (Inl e) \<Rightarrow> client_stop e (st1\<lparr>cs_port := port\<rparr>)
           | Returns (Inr st) \<Rightarrow>
               let c = cs_client st in
               (case waitUntil (ce_now env) (sc_StartAt c) (ce_ctx_err env) of
                  Some e \<Rightarrow> client_stop (WaitErr e) st
                | None \<Rightarrow>
                    (case ce_run env (RunSender (sc_Sender c) (sc_IP c) (GetDuration (sc_Sender c))) of
                       (res, Some e) \<Rightarrow> client_stop (RunFailed e) st
                     | (res, None) \<Rightarrow> Returns (None, store_sent res st)))))"

text \<open>Waiting and receiving, as the three downlink functions end.\<close>

definition dl_receive :: "client_env \<Rightarrow> test_receiver \<Rightarrow> gduration \<Rightarrow>
    (any_result option \<Rightarrow> client_state \<Rightarrow> client_state panics) \<Rightarrow> client_state \<Rightarrow> client_outcome" where
  "dl_receive env r timeout store st =
     (case waitUntil (ce_now env) (sc_StartAt (cs_client st)) (ce_ctx_err env) of
        Some e \<Rightarrow> client_stop (WaitErr e) st
      | None \<Rightarrow>
          (case ce_run env (RunReceiver r timeout) of
             (res, Some e) \<Rightarrow> client_stop (RunFailed e) st
           | (res, None) \<Rightarrow>
               (case store res st of Panics m \<Rightarrow> Panics m | Returns st' \<Rightarrow> Returns (None, st'))))"

definition runDLUDP :: "client_env \<Rightarrow> gduration \<Rightarrow> client_state \<Rightarrow> client_outcome" where
  "runDLUDP env timeout st =
     (case ce_resolve env of
        Some e \<Rightarrow> client_stop (ResolveErr e) st
      | None \<Rightarrow>
          (case ce_listen env of
             Some e \<Rightarrow> client_stop (ClientListenErr e) st
           | None \<Rightarrow>
               (case punchHole (sc_StartAt (cs_client st)) (ce_punch env) of
                  Some e \<Rightarrow> client_stop (PunchFailed e) st
                | None \<Rightarrow>
                    (case ReceiverMode (sc_Sender (cs_client st)) of
                       ReceiveUDP \<Rightarrow> dl_receive env UDPReceiver timeout store_rcvd st
                     | ReceiveQUIC \<Rightarrow> dl_receive env QUICReceiver timeout store_rcvd st
                     | _ \<Rightarrow> Panics ''Unknown ServerMode''))))"

text \<open>Setting the congestion control of the receiving socket is only logged when it fails.\<close>

definition runDLTCP :: "client_env \<Rightarrow> gduration \<Rightarrow> client_state \<Rightarrow> client_outcome" where
  "runDLTCP env timeout st =
     (if ReceiverMode (sc_Sender (cs_client st)) \<noteq> ReceiveTCP then Panics ''Unknown ServerMode''
      else
        (case ce_resolve env of
           Some e \<Rightarrow> client_stop (ResolveErr e) st
         | None \<Rightarrow>
             (case ce_dial env of
                Some e \<Rightarrow> client_stop (DialErr e) st
              | None \<Rightarrow> dl_receive env TCPReceiver timeout store_rcvr st)))"

text \<open>The sender that keeps the NAT hole open during an ICMP downlink test; it runs beside the test
  and its result is not used.\<close>

definition icmp_puncher :: "gtime \<Rightarrow> gtime \<Rightarrow> gduration \<Rightarrow> u16 \<Rightarrow> icmp_params" where
  "icmp_puncher now startAt timeout echoID =
     \<lparr>i_Duration = int64 (time_Sub startAt now + timeout), i_Interval = second, i_ClientEchoID = echoID,
      i_SenderEchoID = echoID, i_ICMPType = ICMPTypeEcho, i_punch = True\<rparr>"

definition runDLICMP :: "client_env \<Rightarrow> u16 \<Rightarrow> gduration \<Rightarrow> client_state \<Rightarrow> client_outcome" where
  "runDLICMP env echoID timeout st =
     (case listenICMPClient (ce_icmp env) of
        Inl e \<Rightarrow> client_stop (ClientListenErr e) st
      | Inr conn \<Rightarrow>
          (case punchICMPHole (ce_marshal env) (sc_StartAt (cs_client st)) (ce_punch env) echoID of
             Some e \<Rightarrow> client_stop e st
           | None \<Rightarrow>
               if ReceiverMode (sc_Sender (cs_client st)) \<noteq> ReceiveICMP then Panics ''Unknown ServerMode''
               else dl_receive env (ICMPReceiver echoID ICMPTypeEchoReply) timeout store_rcvd st))"

fun sender_echo_id :: "sender \<Rightarrow> u16 panics" where
  "sender_echo_id (ICMPSender i) = Returns (i_SenderEchoID i)"
| "sender_echo_id _ = assertion_failed"

definition runDL :: "client_env \<Rightarrow> client_state \<Rightarrow> client_outcome" where
  "runDL env st0 =
     (let st1 = with_params (ce_echo env) st0;
          s = sc_Sender (cs_client st1);
          timeout = int64 (GetDuration s + second)
      in
      case callCtx (ce_call env) of
        Inl e \<Rightarrow> client_stop (CallErr e) st1
      | Inr port \<Rightarrow>
          let st = st1\<lparr>cs_port := port\<rparr> in
          (case SocketType (SenderMode s) of
             Panics m \<Rightarrow> Panics m
           | Returns UDP \<Rightarrow> runDLUDP env timeout st
           | Returns TCP \<Rightarrow> runDLTCP env timeout st
           | Returns ICMP \<Rightarrow>
               (case sender_echo_id s of
                  Panics m \<Rightarrow> Panics m
                | Returns echoID \<Rightarrow> runDLICMP env echoID timeout st)))"

definition SenderClient_Run :: "client_env \<Rightarrow> client_state \<Rightarrow> client_outcome" where
  "SenderClient_Run env st0 =
     (let st = (if cs_ID st0 = [] then st0\<lparr>cs_ID := ce_id env\<rparr> else st0) in
      case sc_Direction (cs_client st) of UL \<Rightarrow> runUL env st | DL \<Rightarrow> runDL env st)"

text \<open>\<open>Abort\<close>: the identifier sent to the server, if any, and the error.\<close>

definition SenderClient_Abort :: "unit rpc \<Rightarrow> client_state \<Rightarrow> string option \<times> client_error option" where
  "SenderClient_Abort call st =
     (if cs_ID st = [] then (None, None)
      else (Some (cs_ID st), case callCtx call of Inl e \<Rightarrow> Some (CallErr e) | Inr _ \<Rightarrow> None))"

section \<open>Gathering\<close>

type_synonym csv_file = "string \<times> string list list"

text \<open>\<open>writeCSV\<close>: standard output for an empty name; the answers of creating and of writing.\<close>

definition writeCSV :: "string option \<Rightarrow> string option \<Rightarrow> string \<Rightarrow> string list list \<Rightarrow> string + csv_file" where
  "writeCSV createErr writeErr out rows =
     (case (if out \<noteq> [] then createErr else None) of
        Some e \<Rightarrow> Inl e
      | None \<Rightarrow> (case writeErr of Some e \<Rightarrow> Inl e | None \<Rightarrow> Inr (out, rows)))"

record gather_env =
  ge_call :: "any_result option rpc"
  ge_create :: "string option"
  ge_write :: "string option"

record formats =
  f_time :: "gtime \<Rightarrow> string"
  f_ms :: "gduration \<Rightarrow> string"
  f_state :: "nat \<Rightarrow> string"
  f_ca :: "nat \<Rightarrow> string"

definition gather_store :: "any_result option \<Rightarrow> client_state \<Rightarrow> client_state panics" where
  "gather_store res st =
     (case res of
        Some (RcvdMsgs ms) \<Rightarrow>
          if sc_Direction (cs_client st) \<noteq> UL then Panics ''Unexpected result type''
          else Returns (st\<lparr>cs_UDPMsgsRcvd := ms\<rparr>)
      | Some (SentMsgs ms) \<Rightarrow>
          if sc_Direction (cs_client st) \<noteq> DL then Panics ''Unexpected result type''
          else Returns (st\<lparr>cs_UDPMsgsSent := ms\<rparr>)
      | Some (TCPMetrics ms) \<Rightarrow>
          Returns (if sc_Direction (cs_client st) = UL then st\<lparr>cs_TCPMetricsRcvr := ms\<rparr>
                   else st\<lparr>cs_TCPMetricsSndr := ms\<rparr>)
      | _ \<Rightarrow> Returns st)"

definition gather_write :: "gather_env \<Rightarrow> string list list \<Rightarrow> client_state \<Rightarrow>
    (client_error option \<times> client_state \<times> csv_file option) panics" where
  "gather_write env rows st =
     Returns (case writeCSV (ge_create env) (ge_write env) (sc_Out (cs_client st)) rows of
        Inl e \<Rightarrow> (Some (WriteCSVErr e), st, None)
      | Inr f \<Rightarrow> (None, st, Some f))"

text \<open>\<open>processUDP\<close> sorts the slice it is given in place.\<close>

definition gather_udp :: "formats \<Rightarrow> gather_env \<Rightarrow> client_state \<Rightarrow>
    (client_error option \<times> client_state \<times> csv_file option) panics" where
  "gather_udp fs env st =
     (let results = processUDP (cs_UDPMsgsSent st) (cs_UDPMsgsRcvd st) in
      gather_write env (generateUDPResultRows (f_time fs) (f_ms fs) results)
        (st\<lparr>cs_UDPResults := results, cs_UDPMsgsRcvd := rcvd_sort (cs_UDPMsgsRcvd st)\<rparr>))"

definition Gather :: "formats \<Rightarrow> gather_env \<Rightarrow> client_state \<Rightarrow>
    (client_error option \<times> client_state \<times> csv_file option) panics" where
  "Gather fs env st0 =
     (case callCtx (ge_call env) of
        Inl e \<Rightarrow> Returns (Some (CallErr e), st0, None)
      | Inr res \<Rightarrow>
          (case gather_store res st0 of
             Panics m \<Rightarrow> Panics m
           | Returns st \<Rightarrow>
               (case SocketType (SenderMode (sc_Sender (cs_client st))) of
                  Panics m \<Rightarrow> Panics m
                | Returns UDP \<Rightarrow> gather_udp fs env st
                | Returns TCP \<Rightarrow>
                    (case generateTCPResultRows (f_time fs) (f_ms fs) (f_state fs) (f_ca fs) (cs_TCPMetricsSndr st) of
                       Panics m \<Rightarrow> Panics m
                     | Returns rows \<Rightarrow> gather_write env rows st)
                | Returns ICMP \<Rightarrow> gather_udp fs env st)))"

section \<open>What a successful run leaves\<close>

text \<open>The parts of the client no run changes, and the records of the other side.\<close>

definition same_client :: "client_state \<Rightarrow> client_state \<Rightarrow> bool" where
  "same_client st st' \<longleftrightarrow>
     sc_Direction (cs_client st') = sc_Direction (cs_client st) \<and> sc_Out (cs_client st') = sc_Out (cs_client st) \<and>
     SenderMode (sc_Sender (cs_client st')) = SenderMode (sc_Sender (cs_client st)) \<and>
     cs_UDPMsgsSent st' = cs_UDPMsgsSent st \<and> cs_UDPMsgsRcvd st' = cs_UDPMsgsRcvd st \<and>
     cs_TCPMetricsSndr st' = cs_TCPMetricsSndr st \<and> cs_TCPMetricsRcvr st' = cs_TCPMetricsRcvr st \<and>
     cs_ID st' = cs_ID st"

lemma same_client_updates [simp]:
  "same_client st st" "same_client st (with_params echo st)"
  "same_client st (st'\<lparr>cs_port := port\<rparr>) = same_client st st'"
  "same_client st (with_params echo st\<lparr>cs_port := port\<rparr>)"
  by (simp_all add: same_client_def with_params_def)

lemma SenderMode_set_echo [simp]: "SenderMode (set_echo_type s) = SenderMode s"
  by (cases s) simp_all

text \<open>What the client's own side runs: its sender, or the receiver that belongs to it.\<close>

fun dl_receiver :: "sender \<Rightarrow> test_receiver" where
  "dl_receiver (QUICSender q) = QUICReceiver"
| "dl_receiver (TCPSender t) = TCPReceiver"
| "dl_receiver (ICMPSender i) = ICMPReceiver (i_SenderEchoID i) ICMPTypeEchoReply"
| "dl_receiver _ = UDPReceiver"

definition client_runner :: "u16 \<Rightarrow> sender_client \<Rightarrow> runner" where
  "client_runner echo c =
     (case sc_Direction c of
        UL \<Rightarrow> RunSender (set_echo_type (GetParams echo (sc_Sender c))) (sc_IP c) (GetDuration (sc_Sender c))
      | DL \<Rightarrow> RunReceiver (dl_receiver (GetParams echo (sc_Sender c))) (int64 (GetDuration (sc_Sender c) + second)))"

lemma GetDuration_set_echo [simp]: "GetDuration (set_echo_type s) = GetDuration s"
  by (cases s) simp_all

lemma ul_connect_same:
  assumes "ul_connect env st = Returns (Inr st')"
  shows "same_client st st' \<and> sc_IP (cs_client st') = sc_IP (cs_client st) \<and>
     sc_Sender (cs_client st') = set_echo_type (sc_Sender (cs_client st))"
  using assms by (cases "sc_Sender (cs_client st)")
    (auto simp: ul_connect_def same_client_def split: option.splits sum.splits)

lemma runUL_returns:
  assumes "runUL env st0 = Returns (None, st)"
  shows "\<exists>st1 res. same_client st0 st1 \<and> st = store_sent res st1 \<and>
     ce_run env (RunSender (set_echo_type (GetParams (ce_echo env) (sc_Sender (cs_client st0))))
       (sc_IP (cs_client st0)) (GetDuration (sc_Sender (cs_client st0)))) = (res, None)"
proof -
  obtain port where port: "callCtx (ce_call env) = Inr port"
    using assms by (auto simp: runUL_def client_stop_def Let_def split: sum.splits)
  obtain st1 where conn: "ul_connect env (with_params (ce_echo env) st0\<lparr>cs_port := port\<rparr>) = Returns (Inr st1)"
    using assms port by (auto simp: runUL_def client_stop_def Let_def split: panics.splits sum.splits)
  have "same_client st0 st1" "sc_IP (cs_client st1) = sc_IP (cs_client st0)"
    "sc_Sender (cs_client st1) = set_echo_type (GetParams (ce_echo env) (sc_Sender (cs_client st0)))"
    using ul_connect_same [OF conn] by (simp_all add: same_client_def with_params_def)
  then show ?thesis
    using assms port conn
    by (auto simp: runUL_def client_stop_def Let_def split: option.splits prod.splits)
qed

lemma dl_receive_returns:
  "dl_receive env r timeout store st0 = Returns (None, st) \<Longrightarrow>
   \<exists>res. ce_run env (RunReceiver r timeout) = (res, None) \<and> store res st0 = Returns st"
  by (auto simp: dl_receive_def client_stop_def split: option.splits prod.splits panics.splits)

lemma runDL_returns:
  assumes "runDL env st0 = Returns (None, st)"
  shows "\<exists>st1 res. same_client st0 st1 \<and>
     ce_run env (RunReceiver (dl_receiver (GetParams (ce_echo env) (sc_Sender (cs_client st0))))
       (int64 (GetDuration (sc_Sender (cs_client st0)) + second))) = (res, None) \<and>
     (case sc_Sender (cs_client st0) of TCPSender _ \<Rightarrow> store_rcvr | _ \<Rightarrow> store_rcvd) res st1 = Returns st"
proof -
  let ?s = "GetParams (ce_echo env) (sc_Sender (cs_client st0))"
  obtain port where port: "callCtx (ce_call env) = Inr port"
    using assms by (auto simp: runDL_def client_stop_def Let_def split: sum.splits)
  let ?st = "with_params (ce_echo env) st0\<lparr>cs_port := port\<rparr>"
    and ?t = "int64 (GetDuration (sc_Sender (cs_client st0)) + second)"
  have "dl_receive env (dl_receiver ?s) ?t
      (case sc_Sender (cs_client st0) of TCPSender _ \<Rightarrow> store_rcvr | _ \<Rightarrow> store_rcvd) ?st = Returns (None, st)"
    using assms port
    by (cases "sc_Sender (cs_client st0)")
      (auto simp: runDL_def runDLUDP_def runDLTCP_def runDLICMP_def client_stop_def with_params_def Let_def
        split: option.splits sum.splits if_splits)
  from dl_receive_returns [OF this] show ?thesis
    using same_client_updates(4) [of st0] by blast
qed

section \<open>Result types\<close>

text \<open>What senders and receivers return when they succeed: metrics for TCP, packet records
  otherwise.\<close>

definition tcp_test :: "sender \<Rightarrow> bool" where
  "tcp_test s \<longleftrightarrow> SocketType (SenderMode s) = Returns TCP"

definition sent_result :: "bool \<Rightarrow> any_result \<Rightarrow> bool" where
  "sent_result tcp res \<longleftrightarrow> (if tcp then \<exists>ms. res = TCPMetrics ms else \<exists>ms. res = SentMsgs ms)"

definition rcvd_result_type :: "bool \<Rightarrow> any_result \<Rightarrow> bool" where
  "rcvd_result_type tcp res \<longleftrightarrow> (if tcp then \<exists>ms. res = TCPMetrics ms else \<exists>ms. res = RcvdMsgs ms)"

fun run_fits :: "runner \<Rightarrow> any_result \<Rightarrow> bool" where
  "run_fits (RunSender s raddr d) res = sent_result (tcp_test s) res"
| "run_fits (RunReceiver r d) res = rcvd_result_type (r = TCPReceiver) res"

definition typed_runs :: "(runner \<Rightarrow> any_result option \<times> string option) \<Rightarrow> bool" where
  "typed_runs run \<longleftrightarrow> (\<forall>r res. run r = (res, None) \<longrightarrow> (\<exists>x. res = Some x \<and> run_fits r x))"

lemma typed_runsD: "typed_runs run \<Longrightarrow> run r = (res, None) \<Longrightarrow> \<exists>x. res = Some x \<and> run_fits r x"
  by (simp add: typed_runs_def)

lemma tcp_test_GetParams [simp]: "tcp_test (GetParams echo s) = tcp_test s"
  by (simp add: tcp_test_def)

lemma receiver_of_TCP: "receiver_of s = TCPReceiver \<longleftrightarrow> tcp_test s"
  by (cases s) (simp_all add: tcp_test_def)

lemma as_requested_TCP: "as_requested s s' \<Longrightarrow> tcp_test s' = tcp_test s"
  by (cases s; cases s') (simp_all add: tcp_test_def)

lemma run_outcome_ok:
  "run_outcome (run r) = \<lparr>tr_Err = None, tr_Res = Some x\<rparr> \<Longrightarrow> typed_runs run \<Longrightarrow> run_fits r x"
  using typed_runsD [of run r "Some x"] by (cases "run r") (auto simp: run_outcome_def)

lemma server_result_type:
  assumes "typed_runs (te_run env)"
    and "handle_test env (client_request echo c cid) = Returns (Some \<lparr>tr_Err = None, tr_Res = Some x\<rparr>)"
  shows "case sc_Direction c of UL \<Rightarrow> rcvd_result_type (tcp_test (sc_Sender c)) x
     | DL \<Rightarrow> sent_result (tcp_test (sc_Sender c)) x"
proof (cases "sc_Direction c")
  case UL
  let ?args = "client_request echo c cid" and ?r = "receiver_of (GetParams echo (sc_Sender c))"
  have "handleReceiver env ?args ?r = \<lparr>tr_Err = None, tr_Res = Some x\<rparr>"
    using client_request_UL [OF UL, of env echo cid] assms(2) by simp
  then have "run_outcome (te_run env (RunReceiver ?r (ra_Timeout ?args))) = \<lparr>tr_Err = None, tr_Res = Some x\<rparr>"
    using handleReceiver_cases [of env ?args ?r] by (auto simp: failed_def)
  from run_outcome_ok [OF this assms(1)] show ?thesis using UL by (simp add: receiver_of_TCP)
next
  case DL
  let ?args = "client_request echo c cid" and ?s = "GetParams echo (sc_Sender c)"
  have params: "ra_Params ?args = Some ?s" "ra_ServerMode ?args = SenderMode ?s"
    using DL by (simp_all add: client_request_def)
  obtain s' raddr where s': "as_requested ?s s'"
    "handleSender env ?args s' raddr = \<lparr>tr_Err = None, tr_Res = Some x\<rparr>"
    using client_request_DL [OF params, of env] assms(2) by (auto simp: failed_def)
  then have "run_outcome (te_run env (RunSender s' raddr (GetDuration s'))) = \<lparr>tr_Err = None, tr_Res = Some x\<rparr>"
    using handleSender_cases [of env ?args s' raddr] by (auto simp: failed_def)
  from run_outcome_ok [OF this assms(1)] show ?thesis using DL as_requested_TCP [OF s'(1)] by simp
qed

text \<open>The state after a successful run holds the result of the client's own side and nothing of the
  other side.\<close>

definition own_side :: "client_state \<Rightarrow> any_result \<Rightarrow> bool" where
  "own_side st res =
     (case sc_Direction (cs_client st) of
        UL \<Rightarrow> (case res of
            SentMsgs ms \<Rightarrow> cs_UDPMsgsSent st = ms
          | TCPMetrics ms \<Rightarrow> cs_TCPMetricsSndr st = ms | _ \<Rightarrow> False)
      | DL \<Rightarrow> (case res of
            RcvdMsgs ms \<Rightarrow> cs_UDPMsgsRcvd st = ms
          | TCPMetrics ms \<Rightarrow> cs_TCPMetricsRcvr st = ms | _ \<Rightarrow> False))"

lemma client_run_result:
  assumes "typed_runs (ce_run env)" and "SenderClient_Run env (new_client c) = Returns (None, st)"
  shows "\<exists>x. ce_run env (client_runner (ce_echo env) c) = (Some x, None) \<and> own_side st x \<and>
     sc_Direction (cs_client st) = sc_Direction c \<and> sc_Out (cs_client st) = sc_Out c \<and>
     tcp_test (sc_Sender (cs_client st)) = tcp_test (sc_Sender c) \<and>
     (case sc_Direction c of UL \<Rightarrow> sent_result (tcp_test (sc_Sender c)) x
      | DL \<Rightarrow> rcvd_result_type (tcp_test (sc_Sender c)) x)"
proof (cases "sc_Direction c")
  case UL
  let ?st0 = "new_client c\<lparr>cs_ID := ce_id env\<rparr>"
  have "runUL env ?st0 = Returns (None, st)"
    using assms(2) UL by (simp add: SenderClient_Run_def new_client_def)
  from runUL_returns [OF this] obtain st1 res where st1: "same_client ?st0 st1" "st = store_sent res st1"
    "ce_run env (client_runner (ce_echo env) c) = (res, None)"
    using UL by (auto simp: client_runner_def new_client_def)
  from typed_runsD [OF assms(1) st1(3)] obtain x where x: "res = Some x" "sent_result (tcp_test (sc_Sender c)) x"
    using UL by (auto simp: client_runner_def tcp_test_def)
  have "sc_Direction (cs_client st1) = UL" "sc_Out (cs_client st1) = sc_Out c"
    "tcp_test (sc_Sender (cs_client st1)) = tcp_test (sc_Sender c)"
    using st1(1) UL by (simp_all add: same_client_def new_client_def tcp_test_def)
  then have "own_side st x \<and> sc_Direction (cs_client st) = sc_Direction c \<and> sc_Out (cs_client st) = sc_Out c \<and>
      tcp_test (sc_Sender (cs_client st)) = tcp_test (sc_Sender c)"
    using st1(2) x UL by (cases x) (auto simp: own_side_def sent_result_def split: if_splits)
  then show ?thesis using st1(3) x UL by (intro exI conjI) auto
next
  case DL
  let ?st0 = "new_client c\<lparr>cs_ID := ce_id env\<rparr>"
  have "runDL env ?st0 = Returns (None, st)"
    using assms(2) DL by (simp add: SenderClient_Run_def new_client_def)
  from runDL_returns [OF this] obtain st1 res where st1: "same_client ?st0 st1"
    "ce_run env (client_runner (ce_echo env) c) = (res, None)"
    "(case sc_Sender c of TCPSender _ \<Rightarrow> store_rcvr | _ \<Rightarrow> store_rcvd) res st1 = Returns st"
    using DL by (auto simp: client_runner_def new_client_def)
  from typed_runsD [OF assms(1) st1(2)] obtain x where x: "res = Some x" "rcvd_result_type (tcp_test (sc_Sender c)) x"
    using DL by (cases "sc_Sender c") (auto simp: client_runner_def tcp_test_def split: if_splits)
  have "sc_Direction (cs_client st1) = DL" "sc_Out (cs_client st1) = sc_Out c"
    "tcp_test (sc_Sender (cs_client st1)) = tcp_test (sc_Sender c)"
    using st1(1) DL by (simp_all add: same_client_def new_client_def tcp_test_def)
  then have "own_side st x \<and> sc_Direction (cs_client st) = sc_Direction c \<and> sc_Out (cs_client st) = sc_Out c \<and>
      tcp_test (sc_Sender (cs_client st)) = tcp_test (sc_Sender c)"
    using st1(3) x DL by (cases "sc_Sender c") (auto simp: own_side_def rcvd_result_type_def tcp_test_def)
  then show ?thesis using st1(2) x DL by (intro exI conjI) auto
qed

section \<open>Properties\<close>

text \<open>The table of a test from the results of its two sides.\<close>

definition result_table :: "formats \<Rightarrow> any_result \<Rightarrow> any_result \<Rightarrow> string list list panics" where
  "result_table fs sndr rcvr =
     (case (sndr, rcvr) of
        (SentMsgs sent, RcvdMsgs rcvd) \<Rightarrow>
          Returns (generateUDPResultRows (f_time fs) (f_ms fs) (processUDP sent rcvd))
      | (TCPMetrics ms, _) \<Rightarrow> generateTCPResultRows (f_time fs) (f_ms fs) (f_state fs) (f_ca fs) ms
      | _ \<Rightarrow> Panics ''mismatch'')"

lemma gather_table:
  assumes "own_side st x" and "ge_call genv = Answered (Inr (Some y))" and "ge_create genv = None"
    and "ge_write genv = None"
    and "case sc_Direction (cs_client st) of
        UL \<Rightarrow> sent_result tcp x \<and> rcvd_result_type tcp y | DL \<Rightarrow> rcvd_result_type tcp x \<and> sent_result tcp y"
    and "tcp = tcp_test (sc_Sender (cs_client st))"
  shows "case (case sc_Direction (cs_client st) of UL \<Rightarrow> result_table fs x y | DL \<Rightarrow> result_table fs y x) of
      Panics m \<Rightarrow> tcp \<and> Gather fs genv st = Panics m
    | Returns rows \<Rightarrow> \<exists>st'. Gather fs genv st = Returns (None, st', Some (sc_Out (cs_client st), rows))"
proof -
  obtain t where t: "SocketType (SenderMode (sc_Sender (cs_client st))) = Returns t"
    by (cases "sc_Sender (cs_client st)") simp_all
  then have tcp: "tcp \<longleftrightarrow> t = TCP" using assms(6) by (simp add: tcp_test_def)
  have wr: "gather_write genv rows st' = Returns (None, st', Some (sc_Out (cs_client st'), rows))" for rows st'
    using assms(3,4) by (simp add: gather_write_def writeCSV_def)
  show ?thesis
  proof (cases tcp)
    case True
    then show ?thesis
      using assms(1,2,5) t tcp wr
      by (cases "sc_Direction (cs_client st)")
        (auto simp: Gather_def gather_store_def own_side_def sent_result_def rcvd_result_type_def result_table_def
          split: panics.split)
  next
    case False
    then show ?thesis
      using assms(1,2,5) t tcp wr
      by (cases t; cases "sc_Direction (cs_client st)")
        (auto simp: Gather_def gather_store_def own_side_def sent_result_def rcvd_result_type_def result_table_def
          gather_udp_def Let_def)
  qed
qed

text \<open>C6. A test from both ends. When the client's run succeeds, the server's goroutine for the request
  of this client delivers a result, and senders and receivers return results of their types, then
  gathering does not panic on a type: whichever side sent, it writes to the client's file the table of
  the sending side's and the receiving side's results (for TCP the rows of the sending side, where
  an incomplete sample panics).\<close>

theorem client_results_table:
  assumes "typed_runs (ce_run cenv)" and "typed_runs (te_run tenv)"
    and "SenderClient_Run cenv (new_client c) = Returns (None, st)"
    and "handle_test tenv (client_request (ce_echo cenv) c (cs_ID st)) =
       Returns (Some \<lparr>tr_Err = None, tr_Res = Some y\<rparr>)"
    and "ge_call genv = Answered (Inr (Some y))" and "ge_create genv = None" and "ge_write genv = None"
  shows "\<exists>x. ce_run cenv (client_runner (ce_echo cenv) c) = (Some x, None) \<and>
     (case (case sc_Direction c of UL \<Rightarrow> result_table fs x y | DL \<Rightarrow> result_table fs y x) of
        Panics m \<Rightarrow> tcp_test (sc_Sender c) \<and> Gather fs genv st = Panics m
      | Returns rows \<Rightarrow> \<exists>st'. Gather fs genv st = Returns (None, st', Some (sc_Out c, rows)))"
proof -
  obtain x where x: "ce_run cenv (client_runner (ce_echo cenv) c) = (Some x, None)" "own_side st x"
    "sc_Direction (cs_client st) = sc_Direction c" "sc_Out (cs_client st) = sc_Out c"
    "tcp_test (sc_Sender (cs_client st)) = tcp_test (sc_Sender c)"
    and fits: "case sc_Direction c of UL \<Rightarrow> sent_result (tcp_test (sc_Sender c)) x
      | DL \<Rightarrow> rcvd_result_type (tcp_test (sc_Sender c)) x"
    using client_run_result [OF assms(1,3)] by blast
  have "case sc_Direction (cs_client st) of
      UL \<Rightarrow> sent_result (tcp_test (sc_Sender c)) x \<and> rcvd_result_type (tcp_test (sc_Sender c)) y
    | DL \<Rightarrow> rcvd_result_type (tcp_test (sc_Sender c)) x \<and> sent_result (tcp_test (sc_Sender c)) y"
    using fits server_result_type [OF assms(2,4)] x(3) by (simp split: direction.splits)
  from gather_table [OF x(2) assms(5-7) this x(5) [symmetric], of fs] show ?thesis
    using x(1) unfolding x(3,4) by blast
qed

definition example_run_env :: "runner \<Rightarrow> any_result option \<times> string option" where
  "example_run_env r =
     (case r of
        RunSender s raddr d \<Rightarrow> (Some (if tcp_test s then TCPMetrics [] else SentMsgs example_sent), None)
      | RunReceiver rc d \<Rightarrow> (Some (if rc = TCPReceiver then TCPMetrics [] else RcvdMsgs example_rcvd), None))"

lemma example_typed: "typed_runs example_run_env"
  by (auto simp: typed_runs_def example_run_env_def sent_result_def rcvd_result_type_def split: runner.splits)

definition example_cenv :: client_env where
  "example_cenv = \<lparr>ce_id = ''t'', ce_echo = 7, ce_call = Answered (Inr 4000), ce_resolve = None, ce_listen = None,
     ce_dial = None,
     ce_icmp = \<lparr>il_resolveUDP = None, il_listenPacket = None, il_resolveIP = None, il_resolveAny = None, il_listenIP = None\<rparr>,
     ce_marshal = example_marshal,
     ce_punch = (\<lambda>i. \<lparr>pt_write = None, pt_now = 0, pt_set_ok = True, pt_now2 = 0, pt_read = ReadData [] ''srv''\<rparr>),
     ce_now = 0, ce_ctx_err = False, ce_run = example_run_env\<rparr>"

definition example_tenv :: test_env where
  "example_tenv = \<lparr>te_parse_icmp = example_parse, te_set_deadline_ok = True, te_read = ReadData [] ''cli'',
     te_reads = [], te_write_ok = True, te_accept = Inr ''cli'', te_now = 0, te_ctx_err = False, te_run = example_run_env\<rparr>"

definition example_genv :: gather_env where
  "example_genv = \<lparr>ge_call = Answered (Inr (Some (SentMsgs example_sent))), ge_create = None, ge_write = None\<rparr>"

definition example_formats :: formats where
  "example_formats = \<lparr>f_time = (\<lambda>t. nat_dec (nat t)), f_ms = (\<lambda>d. []), f_state = nat_dec, f_ca = nat_dec\<rparr>"

definition burst_client :: sender_client where
  "burst_client = \<lparr>sc_IP = ''srv'', sc_Out = ''o.csv'', sc_Direction = DL, sc_StartAt = 0,
     sc_Sender = BurstSender \<lparr>b_Timeout = second, b_Num = 3, b_Pad = 0\<rparr>\<rparr>"

theorem client_results_table_witness:
  "\<exists>st. SenderClient_Run example_cenv (new_client burst_client) = Returns (None, st) \<and>
     (\<exists>st'. Gather example_formats example_genv st = Returns (None, st', Some (''o.csv'',
        generateUDPResultRows (\<lambda>t. nat_dec (nat t)) (\<lambda>d. []) (processUDP example_sent example_rcvd))))"
proof -
  have run: "SenderClient_Run example_cenv (new_client burst_client) = Returns (None,
      (new_client burst_client)\<lparr>cs_ID := ''t'', cs_port := 4000, cs_UDPMsgsRcvd := example_rcvd\<rparr>)"
    by (simp add: SenderClient_Run_def runDL_def runDLUDP_def dl_receive_def example_cenv_def new_client_def
        burst_client_def with_params_def punchHole_def numeral_eq_Suc waitUntil_def example_run_env_def IsZero_def)
  have server: "handle_test example_tenv (client_request (ce_echo example_cenv) burst_client ''t'') =
      Returns (Some \<lparr>tr_Err = None, tr_Res = Some (SentMsgs example_sent)\<rparr>)"
    by (simp add: handler_defs client_request_def burst_client_def example_tenv_def waitForUDPProbe_def
        handleSender_def waitUntil_def IsZero_def run_outcome_def example_run_env_def tcp_test_def)
  have typed: "typed_runs (ce_run example_cenv)" "typed_runs (te_run example_tenv)"
    using example_typed by (simp_all add: example_cenv_def example_tenv_def)
  have "\<exists>x. ce_run example_cenv (client_runner (ce_echo example_cenv) burst_client) = (Some x, None) \<and>
     (case (case sc_Direction burst_client of UL \<Rightarrow> result_table example_formats x (SentMsgs example_sent)
            | DL \<Rightarrow> result_table example_formats (SentMsgs example_sent) x) of
        Panics m \<Rightarrow> tcp_test (sc_Sender burst_client) \<and> Gather example_formats example_genv
          ((new_client burst_client)\<lparr>cs_ID := ''t'', cs_port := 4000, cs_UDPMsgsRcvd := example_rcvd\<rparr>) = Panics m
      | Returns rows \<Rightarrow> \<exists>st'. Gather example_formats example_genv
          ((new_client burst_client)\<lparr>cs_ID := ''t'', cs_port := 4000, cs_UDPMsgsRcvd := example_rcvd\<rparr>) =
          Returns (None, st', Some (sc_Out burst_client, rows)))"
    by (rule client_results_table [OF typed run, where y = "SentMsgs example_sent"])
      (use server in \<open>simp_all add: example_genv_def\<close>)
  then show ?thesis using run
    by (auto simp: example_cenv_def example_run_env_def burst_client_def result_table_def example_formats_def
        client_runner_def)
qed

text \<open>C28. The type switch of \<open>Gather\<close>: it panics exactly when the server answers with the records of
  the client's own side, or when the samples of a TCP sender are incomplete; any other answer is
  gathered or reported as an error.\<close>

theorem Gather_panics_iff:
  "(\<exists>m. Gather fs genv st = Panics m) \<longleftrightarrow>
     (\<exists>y. callCtx (ge_call genv) = Inr y \<and>
        ((\<exists>ms. y = Some (RcvdMsgs ms)) \<and> sc_Direction (cs_client st) = DL \<or>
         (\<exists>ms. y = Some (SentMsgs ms)) \<and> sc_Direction (cs_client st) = UL \<or>
         (\<exists>st'. gather_store y st = Returns st' \<and> tcp_test (sc_Sender (cs_client st)) \<and>
            \<not> list_all metric_complete (cs_TCPMetricsSndr st'))))"
proof -
  obtain t where t: "SocketType (SenderMode (sc_Sender (cs_client st))) = Returns t"
    by (cases "sc_Sender (cs_client st)") simp_all
  have client: "cs_client st' = cs_client st" if "gather_store y st = Returns st'" for y st'
    using that by (auto simp: gather_store_def split: option.splits any_result.splits if_splits)
  have store: "(\<exists>m. gather_store y st = Panics m) \<longleftrightarrow>
      (\<exists>ms. y = Some (RcvdMsgs ms)) \<and> sc_Direction (cs_client st) = DL \<or>
      (\<exists>ms. y = Some (SentMsgs ms)) \<and> sc_Direction (cs_client st) = UL" for y
    by (cases "sc_Direction (cs_client st)") (auto simp: gather_store_def split: option.splits any_result.splits)
  show ?thesis
  proof (cases "callCtx (ge_call genv)")
    case (Inr y)
    show ?thesis
    proof (cases "gather_store y st")
      case (Panics m)
      then show ?thesis using Inr store [of y] by (auto simp: Gather_def)
    next
      case (Returns st')
      then show ?thesis
        using Inr store [of y] t client [OF Returns] 
          tcp_table_panics_iff [of "f_time fs" "f_ms fs" "f_state fs" "f_ca fs" "cs_TCPMetricsSndr st'"]
        by (cases t) (auto simp: Gather_def gather_udp_def gather_write_def tcp_test_def Let_def split: panics.splits)
    qed
  qed (simp add: Gather_def)
qed

text \<open>A try that got a reply, and one after which the next probe is sent.\<close>

definition try_open :: "gtime \<Rightarrow> punch_try \<Rightarrow> bool" where
  "try_open startAt t \<longleftrightarrow> pt_write t = None \<and> pt_set_ok t \<and> (IsZero startAt \<or> pt_now2 t \<le> startAt)"

definition replied :: "gtime \<Rightarrow> punch_try \<Rightarrow> bool" where
  "replied startAt t \<longleftrightarrow> try_open startAt t \<and> (\<exists>data raddr. pt_read t = ReadData data raddr)"

definition unanswered :: "gtime \<Rightarrow> punch_try \<Rightarrow> bool" where
  "unanswered startAt t \<longleftrightarrow> try_open startAt t \<and> pt_read t = ReadTimeout"

lemma punch_loop_step:
  "punch_loop startAt tries i (Suc left) =
     (if replied startAt (tries i) then None
      else if unanswered startAt (tries i) then punch_loop startAt tries (Suc i) left
      else punch_loop startAt tries i (Suc left))"
  "\<not> replied startAt (tries i) \<Longrightarrow> \<not> unanswered startAt (tries i) \<Longrightarrow>
   punch_loop startAt tries i (Suc left) \<notin> {None, Some NoProbeReply}"
  by (auto simp: replied_def unanswered_def try_open_def split: option.split read_outcome.split)

lemma range_Cons: "[i..<Suc (i + k)] = i # [Suc i..<Suc (i + k)]"
  by (rule upt_conv_Cons) simp

lemma punch_loop_None:
  "punch_loop startAt tries i left = None \<longleftrightarrow>
     (\<exists>k < left. replied startAt (tries (i + k)) \<and> list_all (unanswered startAt) (map tries [i..<i + k]))"
proof (induction left arbitrary: i)
  case (Suc left)
  have split: "(\<exists>k < Suc left. P k) \<longleftrightarrow> P 0 \<or> (\<exists>k < left. P (Suc k))" for P by (metis Suc_less_eq less_Suc_eq_0_disj zero_less_Suc)
  consider "replied startAt (tries i)" | "unanswered startAt (tries i)" "\<not> replied startAt (tries i)"
    | "\<not> replied startAt (tries i)" "\<not> unanswered startAt (tries i)" by blast
  then show ?case
  proof cases
    case 1
    then show ?thesis using punch_loop_step(1) [of startAt tries i left] unfolding split by simp
  next
    case 2
    then have "punch_loop startAt tries i (Suc left) = punch_loop startAt tries (Suc i) left"
      using punch_loop_step(1) [of startAt tries i left] by simp
    then show ?thesis unfolding split using Suc [of "Suc i"] 2 by (simp add: range_Cons del: punch_loop.simps upt_Suc)
  next
    case 3
    then show ?thesis
      using punch_loop_step(2) [of startAt tries i left] unfolding split
      by (simp add: range_Cons del: punch_loop.simps upt_Suc)
  qed
qed simp

lemma punch_loop_NoProbe:
  "punch_loop startAt tries i left = Some NoProbeReply \<longleftrightarrow> list_all (unanswered startAt) (map tries [i..<i + left])"
proof (induction left arbitrary: i)
  case (Suc left)
  consider "replied startAt (tries i)" "\<not> unanswered startAt (tries i)" | "unanswered startAt (tries i)" "\<not> replied startAt (tries i)"
    | "\<not> replied startAt (tries i)" "\<not> unanswered startAt (tries i)" by (auto simp: replied_def unanswered_def)
  then show ?case
    using punch_loop_step [of startAt tries i left] Suc [of "Suc i"]
    by cases (simp_all add: range_Cons del: punch_loop.simps upt_Suc)
qed simp

text \<open>C35. Opening the hole in the NAT takes at most five probes: it succeeds exactly when one of the
  first five is answered and all before it ran into their deadline without any other failure,
  and reports that no reply came exactly when all five did; a probe waits at most one second and
  not beyond the start of the test.\<close>

theorem punchHole_iff:
  "(punchHole startAt tries = None \<longleftrightarrow>
      (\<exists>k < 5. replied startAt (tries k) \<and> list_all (unanswered startAt) (map tries [0..<k]))) \<and>
   (punchHole startAt tries = Some NoProbeReply \<longleftrightarrow> list_all (unanswered startAt) (map tries [0..<5])) \<and>
   probe_deadline now startAt = (if startAt = 0 then now + second else min (now + second) startAt)"
  using punch_loop_None [of startAt tries 0 5] punch_loop_NoProbe [of startAt tries 0 5]
  by (simp add: punchHole_def probe_deadline_def IsZero_def Let_def min_def del: upt_rec_numeral)

text \<open>The sender that keeps the NAT hole open during an ICMP downlink test runs until the receive
  timeout is over, for a test with a start time; for a test without one its duration is negative,
  so it ends at once and sends nothing (\<open>now\<close> lies beyond the year 293, where the difference to
  the zero time leaves the range of a duration).\<close>

theorem icmp_puncher_duration:
  assumes "0 \<le> timeout" and "timeout < 2 ^ 62" and "2 ^ 63 \<le> now" and "startAt = 0 \<or> now \<le> startAt \<and> startAt - now < 2 ^ 62"
  shows "if startAt = 0 then i_Duration (icmp_puncher now startAt timeout echo) < 0
     else now + i_Duration (icmp_puncher now startAt timeout echo) = startAt + timeout"
proof (cases "startAt = 0")
  case True
  then have sub: "time_Sub startAt now = - (2 ^ 63)" using assms(3) by (simp add: time_Sub_def)
  have "int64 (- (2 ^ 63) + timeout) = - (2 ^ 63) + timeout" using assms(1,2) by (intro int64_id) auto
  then show ?thesis using True sub assms(1,2) by (simp add: icmp_puncher_def)
next
  case False
  then show ?thesis using assms by (simp add: icmp_puncher_def)
qed

theorem icmp_puncher_duration_witness:
  "i_Duration (icmp_puncher (2 ^ 63) 0 second 7) < 0 \<and>
   2 ^ 63 + i_Duration (icmp_puncher (2 ^ 63) (2 ^ 63 + 5) second 7) = 2 ^ 63 + 5 + second"
  using icmp_puncher_duration [of second "2 ^ 63" 0 7] icmp_puncher_duration [of second "2 ^ 63" "2 ^ 63 + 5" 7] by simp

end
