(* ===== verification/Command_Runs.thy ===== *)
theory Command_Runs
  imports Result_Server Measurement_Client
begin

text \<open>
  Commands beside a test, such as a packet capture: running one and stopping it (\<open>pkg/commands.go\<close>),
  the client of a local or remote command (\<open>CommandClient\<close> of \<open>pkg/client.go\<close>), and how the files a
  command leaves reach the client (\<open>CommandClient.Gather\<close>, \<open>Server.RequestRunCommandResult\<close>, \<open>RandDir\<close>).
  Compression (\<open>CompressFile\<close>, a third-party encoder over a file) is an argument.
\<close>

section \<open>Running a command\<close>

definition tcpdump_Exec :: "tcpdump_params \<Rightarrow> string \<Rightarrow> string list" where
  "tcpdump_Exec p resultDir =
     [''sudo'', ''tcpdump'', ''-i'', ''any'', ''-s'', ''150'', ''-w'',
      filepath_Join resultDir (td_Name p @ ''.pcap''), td_Filter p]"

definition RandDir :: "string + string \<Rightarrow> string option \<Rightarrow> string + string" where
  "RandDir mkdir chmodErr =
     (case mkdir of Inl e \<Rightarrow> Inl e
      | Inr path \<Rightarrow> (case chmodErr of Some e \<Rightarrow> Inl e | None \<Rightarrow> Inr path))"

datatype signal = SIGINT | SIGTERM | SIGKILL

text \<open>Which branch the first \<open>select\<close> takes.\<close>

datatype monitor_event = TimerFired | CtxCancelled | Exited "string option"

datatype monitor_error = StdinPipeErr string | StartErr string | ExitedPrematurely string | StillRunning

text \<open>For each signal: may the group be signalled, and does the command exit within two seconds.\<close>

record monitor_env =
  me_stdin :: "string option"
  me_start :: "string option"
  me_first :: monitor_event
  me_kill :: "signal \<Rightarrow> bool"
  me_exits :: "signal \<Rightarrow> bool"

text \<open>The outcome, the signals sent (to the whole group or only to the process), and whether the
  command was waited for.\<close>

record monitor_run =
  mr_err :: "monitor_error option"
  mr_signals :: "(signal \<times> bool) list"
  mr_reaped :: bool

primrec escalate :: "monitor_env \<Rightarrow> (signal \<times> bool) list \<Rightarrow> signal list \<Rightarrow> monitor_run" where
  "escalate env sent [] = \<lparr>mr_err = Some StillRunning, mr_signals = sent, mr_reaped = False\<rparr>"
| "escalate env sent (sig # sigs) =
     (let sent' = sent @ [(sig, me_kill env sig)] in
      if me_exits env sig then \<lparr>mr_err = None, mr_signals = sent', mr_reaped = True\<rparr>
      else escalate env sent' sigs)"

definition MonitorCommand :: "monitor_env \<Rightarrow> monitor_run" where
  "MonitorCommand env =
     (case me_stdin env of
        Some e \<Rightarrow> \<lparr>mr_err = Some (StdinPipeErr e), mr_signals = [], mr_reaped = False\<rparr>
      | None \<Rightarrow>
          (case me_start env of
             Some e \<Rightarrow> \<lparr>mr_err = Some (StartErr e), mr_signals = [], mr_reaped = False\<rparr>
           | None \<Rightarrow>
               (case me_first env of
                  Exited err \<Rightarrow> \<lparr>mr_err = map_option ExitedPrematurely err, mr_signals = [], mr_reaped = True\<rparr>
                | _ \<Rightarrow> escalate env [] [SIGINT, SIGTERM, SIGKILL])))"

section \<open>The client of a command\<close>

record command_state =
  cm_client :: command_client
  cm_ID :: string
  cm_Artifacts :: "string list"
  cm_tempDir :: string

definition new_command :: "command_client \<Rightarrow> command_state" where
  "new_command c = \<lparr>cm_client = c, cm_ID = [], cm_Artifacts = [], cm_tempDir = []\<rparr>"

datatype command_error =
    CmdCallErr string | CmdRandDir string | CmdWait test_error | CmdMonitor monitor_error
  | ReadDirErr string | CreateErr string | CompressErr string | CloseErr string | WriteFileErr string
  | SubDirectory string

record command_env =
  co_id :: string
  co_call :: "unit rpc"
  co_mkdir :: "string + string"
  co_chmod :: "string option"
  co_now :: gtime
  co_ctx_err :: bool
  co_monitor :: monitor_env

text \<open>The parameters of a \<open>CommandClient\<close> here are always \<open>TcpdumpParams\<close>, the only ones the program
  creates, so the error for unknown parameters is not reachable; \<open>Exec\<close> never fails.\<close>

definition CommandClient_Run :: "command_env \<Rightarrow> command_state \<Rightarrow> command_error option \<times> command_state" where
  "CommandClient_Run env st0 =
     (let st = (if cm_ID st0 = [] then st0\<lparr>cm_ID := co_id env\<rparr> else st0) in
      if cc_Local (cm_client st) then
        (case RandDir (co_mkdir env) (co_chmod env) of
           Inl e \<Rightarrow> (Some (CmdRandDir e), st\<lparr>cm_tempDir := []\<rparr>)
         | Inr dir \<Rightarrow>
             (case waitUntil (co_now env) (cc_StartAt (cm_client st)) (co_ctx_err env) of
                Some e \<Rightarrow> (Some (CmdWait e), st\<lparr>cm_tempDir := dir\<rparr>)
              | None \<Rightarrow> (map_option CmdMonitor (mr_err (MonitorCommand (co_monitor env))), st\<lparr>cm_tempDir := dir\<rparr>)))
      else
        (case callCtx (co_call env) of
           Inl e \<Rightarrow> (Some (CmdCallErr e), st)
         | Inr _ \<Rightarrow> (None, st)))"

definition CommandClient_Abort :: "unit rpc \<Rightarrow> command_state \<Rightarrow> string option \<times> command_error option" where
  "CommandClient_Abort call st =
     (if cc_Local (cm_client st) \<or> cm_ID st = [] then (None, None)
      else (Some (cm_ID st), case callCtx call of Inl e \<Rightarrow> Some (CmdCallErr e) | Inr _ \<Rightarrow> None))"

section \<open>Collecting the files\<close>

text \<open>An entry of the directory: its name and, unless it is a directory, the answers of creating,
  compressing, closing and removing; \<open>de_flush\<close> is what has reached the file after the last, unchecked
  flush of the buffer.\<close>

record dir_entry =
  de_Name :: string
  de_IsDir :: bool
  de_create :: "string option"
  de_compress :: "string + u8 list"
  de_flush :: "u8 list \<Rightarrow> u8 list"
  de_close :: "string option"
  de_remove_ok :: bool

record files_state =
  fs_written :: "(string \<times> u8 list) list"
  fs_artifacts :: "string list"
  fs_removed :: "string list"

definition zst_path :: "string \<Rightarrow> string \<Rightarrow> string" where
  "zst_path localDir name = filepath_Join localDir (name @ ''.zst'')"

definition remove_entry :: "dir_entry \<Rightarrow> files_state \<Rightarrow> files_state" where
  "remove_entry e f = (if de_remove_ok e then f\<lparr>fs_removed := fs_removed f @ [de_Name e]\<rparr> else f)"

text \<open>The loop of the local branch of \<open>Gather\<close>.\<close>

primrec gather_local :: "string \<Rightarrow> files_state \<Rightarrow> dir_entry list \<Rightarrow> command_error option \<times> files_state" where
  "gather_local localDir f [] = (None, f)"
| "gather_local localDir f (e # es) =
     (if de_IsDir e then gather_local localDir f es
      else
        let encPath = zst_path localDir (de_Name e);
            f1 = f\<lparr>fs_artifacts := fs_artifacts f @ [encPath]\<rparr>
        in
        (case de_create e of
           Some err \<Rightarrow> (Some (CreateErr err), f1)
         | None \<Rightarrow>
             (case de_compress e of
                Inl err \<Rightarrow> (Some (CompressErr err), f1)
              | Inr z \<Rightarrow>
                  let f2 = f1\<lparr>fs_written := fs_written f1 @ [(encPath, de_flush e z)]\<rparr> in
                  (case de_close e of
                     Some err \<Rightarrow> (Some (CloseErr err), f2)
                   | None \<Rightarrow> gather_local localDir (remove_entry e f2) es))))"

text \<open>The loop of \<open>RequestRunCommandResult\<close> on the server; \<open>fs_written\<close> are the files of the reply.
  An error drops the reply.\<close>

primrec collect_files :: "string \<Rightarrow> files_state \<Rightarrow> dir_entry list \<Rightarrow> command_error option \<times> files_state" where
  "collect_files resultPath f [] = (None, f)"
| "collect_files resultPath f (e # es) =
     (if de_IsDir e then (Some (SubDirectory (filepath_Join resultPath (de_Name e))), f)
      else
        (case de_compress e of
           Inl err \<Rightarrow> (Some (CompressErr err), f)
         | Inr z \<Rightarrow> collect_files resultPath
             (remove_entry e (f\<lparr>fs_written := fs_written f @ [(de_Name e, z)]\<rparr>)) es))"

definition no_files :: files_state where
  "no_files = \<lparr>fs_written = [], fs_artifacts = [], fs_removed = []\<rparr>"

text \<open>\<open>RequestRunCommandResult\<close> once its channel has delivered the result directory: the answer and
  the files removed on the server. A result of another type fails the type assertion.\<close>

definition RequestRunCommandResult :: "any_result option \<Rightarrow> string + dir_entry list \<Rightarrow>
    ((command_error + (string \<times> u8 list) list) \<times> string list) panics" where
  "RequestRunCommandResult res readDir =
     (case res of
        Some (ResultDir resultPath) \<Rightarrow> Returns
          (case readDir of
             Inl e \<Rightarrow> (Inl (ReadDirErr e), [])
           | Inr entries \<Rightarrow>
               (case collect_files resultPath no_files entries of
                  (Some e, f) \<Rightarrow> (Inl e, fs_removed f)
                | (None, f) \<Rightarrow> (Inr (fs_written f), fs_removed f)))
      | _ \<Rightarrow> assertion_failed)"

text \<open>The loop of the remote branch of \<open>Gather\<close> over the files in the order the map yields them.\<close>

primrec gather_remote :: "string \<Rightarrow> (string \<Rightarrow> string option) \<Rightarrow> files_state \<Rightarrow> (string \<times> u8 list) list \<Rightarrow>
    command_error option \<times> files_state" where
  "gather_remote localDir writeErr f [] = (None, f)"
| "gather_remote localDir writeErr f (x # xs) =
     (let path = zst_path localDir (fst x);
          f1 = f\<lparr>fs_artifacts := fs_artifacts f @ [path]\<rparr>
      in case writeErr path of
        Some e \<Rightarrow> (Some (WriteFileErr e), f1)
      | None \<Rightarrow> gather_remote localDir writeErr (f1\<lparr>fs_written := fs_written f1 @ [(path, snd x)]\<rparr>) xs)"

text \<open>\<open>Gather\<close> of a command: the local directory or the answer of the server.\<close>

definition CommandClient_Gather :: "string + dir_entry list \<Rightarrow> ((string \<times> u8 list) list) rpc \<Rightarrow>
    (string \<Rightarrow> string option) \<Rightarrow> command_state \<Rightarrow> command_error option \<times> files_state \<times> command_state" where
  "CommandClient_Gather readDir call writeErr st =
     (let localDir = cc_LocalDir (cm_client st);
          r = (if cc_Local (cm_client st) then
                 (case readDir of
                    Inl e \<Rightarrow> (Some (ReadDirErr e), no_files)
                  | Inr entries \<Rightarrow> gather_local localDir no_files entries)
               else
                 (case callCtx call of
                    Inl e \<Rightarrow> (Some (CmdCallErr e), no_files)
                  | Inr files \<Rightarrow> gather_remote localDir writeErr no_files files))
      in (fst r, snd r, st\<lparr>cm_Artifacts := cm_Artifacts st @ fs_artifacts (snd r)\<rparr>))"

section \<open>Properties\<close>

text \<open>An entry for which everything works.\<close>

definition entry_ok :: "dir_entry \<Rightarrow> bool" where
  "entry_ok e \<longleftrightarrow> \<not> de_IsDir e \<and> de_create e = None \<and> (\<exists>z. de_compress e = Inr z \<and> de_flush e z = z) \<and>
     de_close e = None \<and> de_remove_ok e"

definition entry_data :: "dir_entry \<Rightarrow> u8 list" where
  "entry_data e = (case de_compress e of Inr z \<Rightarrow> z | Inl _ \<Rightarrow> [])"

lemma gather_local_ok:
  "list_all entry_ok es \<Longrightarrow> gather_local localDir f es =
     (None, \<lparr>fs_written = fs_written f @ map (\<lambda>e. (zst_path localDir (de_Name e), entry_data e)) es,
             fs_artifacts = fs_artifacts f @ map (\<lambda>e. zst_path localDir (de_Name e)) es,
             fs_removed = fs_removed f @ map de_Name es\<rparr>)"
  by (induction es arbitrary: f) (auto simp: entry_ok_def entry_data_def remove_entry_def Let_def)

lemma collect_files_ok:
  "list_all entry_ok es \<Longrightarrow> collect_files dir f (es @ rest) =
     collect_files dir (f\<lparr>fs_written := fs_written f @ map (\<lambda>e. (de_Name e, entry_data e)) es,
             fs_removed := fs_removed f @ map de_Name es\<rparr>) rest"
  by (induction es arbitrary: f) (auto simp: entry_ok_def entry_data_def remove_entry_def)

lemma gather_remote_ok:
  "gather_remote localDir (\<lambda>_. None) f xs =
     (None, f\<lparr>fs_written := fs_written f @ map (\<lambda>x. (zst_path localDir (fst x), snd x)) xs,
              fs_artifacts := fs_artifacts f @ map (\<lambda>x. zst_path localDir (fst x)) xs\<rparr>)"
  by (induction xs arbitrary: f) (auto simp: Let_def)

lemma gather_local_kept:
  assumes "gather_local localDir f es = (err, f')"
    and "list_all (\<lambda>e. \<forall>z. de_flush e z = z) es"
  shows "\<exists>ws. fs_written f' = fs_written f @ ws \<and>
     (\<exists>done. fs_removed f' = fs_removed f @ map de_Name done \<and> set done \<subseteq> set es \<and>
        (\<forall>e \<in> set done. \<exists>z. de_compress e = Inr z \<and> (zst_path localDir (de_Name e), z) \<in> set ws))"
  using assms
proof (induction es arbitrary: f)
  case Nil
  then show ?case by (auto intro!: exI [of _ "[]"])
next
  case (Cons e es)
  let ?p = "zst_path localDir (de_Name e)"
  have stop: ?case if "fs_written f' = fs_written f @ w" "fs_removed f' = fs_removed f" for w
    using that by (intro exI [of _ w]) (auto intro!: exI [of _ "[]"])
  show ?case
  proof (cases "de_IsDir e")
    case True
    then have "gather_local localDir f es = (err, f')" using Cons.prems(1) by simp
    have flush: "list_all (\<lambda>e. \<forall>z. de_flush e z = z) es" using Cons.prems(2) by simp
    from Cons.IH [OF \<open>gather_local localDir f es = _\<close> flush] show ?thesis by (meson set_subset_Cons subset_trans)
  next
    case False
    show ?thesis
    proof (cases "de_create e = None \<and> de_close e = None \<and> (\<exists>z. de_compress e = Inr z)")
      case True
      then obtain z where z: "de_create e = None" "de_close e = None" "de_compress e = Inr z" by blast
      let ?f = "remove_entry e (f\<lparr>fs_artifacts := fs_artifacts f @ [?p], fs_written := fs_written f @ [(?p, z)]\<rparr>)"
      have "gather_local localDir ?f es = (err, f')"
        using Cons.prems z False by (simp add: Let_def)
      from Cons.IH [OF this] Cons.prems(2) obtain ws dn where
        ws: "fs_written f' = fs_written f @ (?p, z) # ws"
        and dn: "fs_removed f' = fs_removed ?f @ map de_Name dn" "set dn \<subseteq> set es"
          "\<forall>e \<in> set dn. \<exists>z. de_compress e = Inr z \<and> (zst_path localDir (de_Name e), z) \<in> set ws"
        by (auto simp: remove_entry_def split: if_splits)
      have "fs_removed ?f = fs_removed f @ map de_Name (if de_remove_ok e then [e] else [])"
        by (simp add: remove_entry_def)
      then show ?thesis
        using ws dn z(3)
        by (intro exI [of _ "(?p, z) # ws"] conjI exI [of _ "(if de_remove_ok e then [e] else []) @ dn"]) auto
    next
      case no: False
      then have "(\<exists>w. fs_written f' = fs_written f @ w) \<and> fs_removed f' = fs_removed f"
        using Cons.prems(1) False by (auto simp: Let_def split: option.splits sum.splits)
      then show ?thesis using stop by blast
    qed
  qed
qed


text \<open>C21. Local and remote commands deliver the same files: when every file can be read, compressed,
  written and removed, the server answers with all files, and the client, in whatever order it
  iterates over the reply, writes the same files with the same contents as for a local command
  with that directory; on both ends the directory is emptied.\<close>

theorem remote_files_as_local:
  assumes "list_all entry_ok es" and "mset order = mset (map (\<lambda>e. (de_Name e, entry_data e)) es)"
  shows "RequestRunCommandResult (Some (ResultDir dir)) (Inr es) =
       Returns (Inr (map (\<lambda>e. (de_Name e, entry_data e)) es), map de_Name es) \<and>
     (case (gather_local localDir no_files es, gather_remote localDir (\<lambda>_. None) no_files order) of
        ((None, l), (None, r)) \<Rightarrow> fs_removed l = map de_Name es \<and>
           mset (fs_written l) = mset (fs_written r) \<and> mset (fs_artifacts l) = mset (fs_artifacts r)
      | _ \<Rightarrow> False)"
proof -
  have written: "mset (map (\<lambda>x. (zst_path localDir (fst x), snd x)) order) =
      mset (map (\<lambda>e. (zst_path localDir (de_Name e), entry_data e)) es)"
    unfolding mset_map assms(2) by (simp add: image_mset.compositionality comp_def)
  have paths: "mset (map (\<lambda>x. zst_path localDir (fst x)) order) = mset (map (\<lambda>e. zst_path localDir (de_Name e)) es)"
    unfolding mset_map assms(2) by (simp add: image_mset.compositionality comp_def)
  show ?thesis
    using collect_files_ok [OF assms(1), of dir no_files "[]"] gather_local_ok [OF assms(1), of localDir no_files]
      written paths
    by (simp add: RequestRunCommandResult_def gather_remote_ok no_files_def del: mset_map)
qed

definition example_entry :: "string \<Rightarrow> dir_entry" where
  "example_entry n = \<lparr>de_Name = n, de_IsDir = False, de_create = None, de_compress = Inr [40, 181], de_flush = (\<lambda>z. z),
     de_close = None, de_remove_ok = True\<rparr>"

theorem remote_files_as_local_witness:
  "RequestRunCommandResult (Some (ResultDir ''/tmp/x'')) (Inr [example_entry ''a'', example_entry ''b'']) =
     Returns (Inr [(''a'', [40, 181]), (''b'', [40, 181])], [''a'', ''b'']) \<and>
   fs_removed (snd (gather_local ''out'' no_files [example_entry ''a'', example_entry ''b''])) = [''a'', ''b'']"
proof -
  have ok: "list_all entry_ok [example_entry ''a'', example_entry ''b'']"
    by (simp add: entry_ok_def example_entry_def)
  have order: "mset [(''b'', [40, 181]), (''a'', [40, 181])] =
      mset (map (\<lambda>e. (de_Name e, entry_data e)) [example_entry ''a'', example_entry ''b''])"
    by (simp add: example_entry_def entry_data_def)
  from remote_files_as_local [OF ok order, of "''/tmp/x''" "''out''"] show ?thesis
    by (auto simp: example_entry_def entry_data_def split: prod.splits option.splits)
qed

text \<open>Files when something fails. A local gathering whose buffers are flushed removes only files
  whose compressed copy has been written, whatever fails. The server has no such guarantee: when an
  entry is a directory or cannot be compressed, the request fails without files although all
  entries before it have already been removed.\<close>

theorem files_on_failure:
  assumes "list_all (\<lambda>e. \<forall>z. de_flush e z = z) es" and "list_all entry_ok pre"
    and "de_IsDir bad \<or> (\<exists>err. de_compress bad = Inl err)"
  shows "(case gather_local localDir no_files es of
        (err, f) \<Rightarrow> \<forall>n \<in> set (fs_removed f). \<exists>e \<in> set es. \<exists>z. de_Name e = n \<and> de_compress e = Inr z \<and>
           (zst_path localDir n, z) \<in> set (fs_written f)) \<and>
     (\<exists>e. RequestRunCommandResult (Some (ResultDir dir)) (Inr (pre @ bad # post)) = Returns (Inl e, map de_Name pre))"
proof
  obtain err f where f: "gather_local localDir no_files es = (err, f)" by fastforce
  from gather_local_kept [OF f assms(1)] show "case gather_local localDir no_files es of
        (err, f) \<Rightarrow> \<forall>n \<in> set (fs_removed f). \<exists>e \<in> set es. \<exists>z. de_Name e = n \<and> de_compress e = Inr z \<and>
           (zst_path localDir n, z) \<in> set (fs_written f)"
    unfolding f by (fastforce simp: no_files_def)
  show "\<exists>e. RequestRunCommandResult (Some (ResultDir dir)) (Inr (pre @ bad # post)) = Returns (Inl e, map de_Name pre)"
    using collect_files_ok [OF assms(2), of dir no_files "bad # post"] assms(3)
    by (auto simp: RequestRunCommandResult_def no_files_def)
qed

theorem files_on_failure_witness:
  "\<exists>e. RequestRunCommandResult (Some (ResultDir ''/tmp/x''))
       (Inr ([example_entry ''a''] @ (example_entry ''d'')\<lparr>de_IsDir := True\<rparr> # [])) = Returns (Inl e, [''a''])"
proof -
  have flush: "list_all (\<lambda>e. \<forall>z. de_flush e z = z) [example_entry ''a'']"
    and ok: "list_all entry_ok [example_entry ''a'']" by (simp_all add: entry_ok_def example_entry_def)
  have bad: "de_IsDir ((example_entry ''d'')\<lparr>de_IsDir := True\<rparr>) \<or>
      (\<exists>err. de_compress ((example_entry ''d'')\<lparr>de_IsDir := True\<rparr>) = Inl err)" by simp
  have "map de_Name [example_entry ''a''] = [''a'']" by (simp add: example_entry_def)
  then show ?thesis using files_on_failure [OF flush ok bad, of "''out''" "''/tmp/x''" "[]"] by metis
qed

end
