(* ===== verification/Manifest.thy ===== *)
theory Manifest
  imports Procedures Test_Handlers Measurement_Client
begin

text \<open>
  The executor of one procedure invocation and the manifest it keeps (\<open>cmd/scalpel-exp/experiment\<close>:
  \<open>configuration.go\<close>, \<open>executor.go\<close>, \<open>manifest.go\<close>). Status values are the strings of the source.
  The goroutines an errgroup runs are sequences of events, one per critical section, in the order the
  mutex admits them. Clock, file system, identifiers and the clients' runs answer through arguments.
\<close>

section \<open>Configuration\<close>

datatype configuration = Configuration
  (cf_DurationNS: int) (cf_PacketCount: "u64 option") (cf_PaddingBytes: "u64 option")
  (cf_IntervalNS: "int option") (cf_PacketsPerSecond: "u64 option") (cf_PayloadSizeBytes: "u64 option")
  (cf_Bytes: "u64 option") (cf_CongestionControl: string) (cf_ClientEchoID: "u16 option")
  (cf_SenderEchoID: "u16 option") (cf_Windows: "configuration list") (cf_Name: string) (cf_Filter: string)

text \<open>\<open>senderConfiguration\<close> of one window (\<open>RateParams\<close>).\<close>

definition windowConfiguration :: "rate_params \<Rightarrow> configuration" where
  "windowConfiguration p = Configuration (rate_GetDuration p) None None (Some (Interval p)) (Some (Pps p))
     (Some (PayloadSize p)) None [] None None [] [] []"

fun senderConfiguration :: "sender \<Rightarrow> configuration panics" where
  "senderConfiguration (BurstSender p) =
     Returns (Configuration (b_Timeout p) (Some (b_Num p)) (Some (b_Pad p)) None None None None [] None None [] [] [])"
| "senderConfiguration (PeriodicSender p) =
     Returns (Configuration (pe_Duration p) None (Some (pe_Pad p)) (Some (pe_Interval p)) None None None [] None None [] [] [])"
| "senderConfiguration (RateSender ws) =
     Returns (Configuration (rateW_GetDuration ws) None None None None None None [] None None
       (map windowConfiguration ws) [] [])"
| "senderConfiguration (TCPSender p) =
     panics_bind (cca_String (t_CCA p)) (\<lambda>cca.
       Returns (Configuration (t_Duration p) None None None None None (Some (t_Bytes p)) cca None None [] [] []))"
| "senderConfiguration (QUICSender p) =
     Returns (Configuration (q_Duration p) None None None None None (Some (q_Bytes p)) [] None None [] [] [])"
| "senderConfiguration (ICMPSender p) =
     Returns (Configuration (i_Duration p) None None (Some (i_Interval p)) None None None [] (Some (i_ClientEchoID p))
       (Some (i_SenderEchoID p)) [] [] [])"

definition commandConfiguration :: "tcpdump_params \<Rightarrow> configuration" where
  "commandConfiguration p = Configuration (td_Timeout p) None None None None None None [] None None [] (td_Name p) (td_Filter p)"

definition manifest_value :: "pvalue \<Rightarrow> pvalue panics" where
  "manifest_value v =
     (case v of
        PTCPCCA c \<Rightarrow> panics_bind (cca_String c) (\<lambda>s. Returns (PString s))
      | PTCPCCAs cs \<Rightarrow> panics_bind (panics_map cca_String cs) (\<lambda>names. Returns (PStrings names))
      | _ \<Rightarrow> Returns v)"

text \<open>\<open>ManifestParameters\<close> for the names of the map in the order it yields them.\<close>

fun ManifestParameters :: "param_map \<Rightarrow> string list \<Rightarrow> param_map panics" where
  "ManifestParameters params [] = Returns Map.empty"
| "ManifestParameters params (name # names) =
     (case params name of
        None \<Rightarrow> ManifestParameters params names
      | Some v \<Rightarrow> panics_bind (manifest_value v) (\<lambda>v'.
          panics_bind (ManifestParameters params names) (\<lambda>m. Returns (m(name \<mapsto> v')))))"

section \<open>Measurements\<close>

record exec_error =
  er_Time :: gtime
  er_Endpoint :: string
  er_Phase :: string
  er_Code :: string
  er_Message :: string

definition errorRecord :: "gtime \<Rightarrow> string \<Rightarrow> string \<Rightarrow> string \<Rightarrow> exec_error" where
  "errorRecord now endpoint phase msg =
     \<lparr>er_Time = now, er_Endpoint = endpoint, er_Phase = phase, er_Code = phase @ ''_failed'', er_Message = msg\<rparr>"

record measurement =
  ms_ID :: string
  ms_Kind :: string
  ms_Direction :: string
  ms_Endpoint :: string
  ms_Peer :: string
  ms_Configuration :: configuration
  ms_ScheduledStart :: gtime
  ms_ScheduledEnd :: gtime
  ms_ExecutionStart :: "gtime option"
  ms_ExecutionEnd :: "gtime option"
  ms_Status :: string
  ms_GatherStatus :: string
  ms_Artifacts :: "string list"
  ms_ExpectedArtifacts :: "string list"
  ms_Summary :: string
  ms_Errors :: "exec_error list"

definition new_measurement :: "string \<Rightarrow> string \<Rightarrow> string \<Rightarrow> string \<Rightarrow> string \<Rightarrow> configuration \<Rightarrow> gtime \<Rightarrow> gtime \<Rightarrow> measurement" where
  "new_measurement i kind dir endpoint peer conf start stop =
     \<lparr>ms_ID = i, ms_Kind = kind, ms_Direction = dir, ms_Endpoint = endpoint, ms_Peer = peer, ms_Configuration = conf,
      ms_ScheduledStart = start, ms_ScheduledEnd = stop, ms_ExecutionStart = None, ms_ExecutionEnd = None,
      ms_Status = ''scheduled'', ms_GatherStatus = ''not_gathered'', ms_Artifacts = [], ms_ExpectedArtifacts = [],
      ms_Summary = [], ms_Errors = []\<rparr>"

text \<open>\<open>describe\<close>: \<open>i\<close> is the identifier of the client, generated when it has none, and \<open>echo\<close> the
  echo identifier chosen when an ICMP sender has none.\<close>

definition describe :: "string \<Rightarrow> u16 \<Rightarrow> client \<Rightarrow> measurement panics" where
  "describe i echo client =
     (case client of
        SenderClient c \<Rightarrow>
          panics_bind (mode_String (SenderMode (sc_Sender c))) (\<lambda>kind.
          panics_bind (senderConfiguration (GetParams echo (sc_Sender c))) (\<lambda>conf.
            Returns (new_measurement i kind (direction_String (sc_Direction c)) ''client'' (sc_IP c) conf (sc_StartAt c)
              (sc_StartAt c + GetDuration (sc_Sender c)))))
      | CommandClient c \<Rightarrow>
          Returns (new_measurement i ''command'' [] (if cc_Local c then ''client'' else ''server'') []
            (commandConfiguration (cc_Params c)) (cc_StartAt c) (cc_StartAt c + td_Timeout (cc_Params c))))"

section \<open>Manifest and executor\<close>

text \<open>Metadata and load of the endpoints (packages \<open>metadata\<close>, \<open>hostinfo\<close>) are opaque strings here.\<close>

record manifest =
  mf_ExperimentID :: string
  mf_InvocationID :: string
  mf_Round :: nat
  mf_Procedure :: string
  mf_Parameters :: param_map
  mf_ReferenceTime :: gtime
  mf_ScheduledStart :: gtime
  mf_ScheduledEnd :: gtime
  mf_ExecutionStart :: "gtime option"
  mf_ExecutionEnd :: "gtime option"
  mf_Status :: string
  mf_ClientMetadata :: "string option"
  mf_ClientAfter :: "string option"
  mf_ServerMetadata :: "string option"
  mf_ServerAfter :: "string option"
  mf_Measurements :: "measurement list"
  mf_Warnings :: "string list"
  mf_Errors :: "exec_error list"

definition empty_manifest :: "string \<Rightarrow> manifest" where
  "empty_manifest status =
     \<lparr>mf_ExperimentID = [], mf_InvocationID = [], mf_Round = 0, mf_Procedure = [], mf_Parameters = Map.empty,
      mf_ReferenceTime = 0, mf_ScheduledStart = 0, mf_ScheduledEnd = 0, mf_ExecutionStart = None, mf_ExecutionEnd = None,
      mf_Status = status, mf_ClientMetadata = None, mf_ClientAfter = None, mf_ServerMetadata = None,
      mf_ServerAfter = None, mf_Measurements = [], mf_Warnings = [], mf_Errors = []\<rparr>"

text \<open>\<open>ex_G\<close> are the clients handed to the errgroup, in order; \<open>ex_info\<close> is the content of
  \<open>info.json\<close>.\<close>

record executor =
  ex_Clients :: "client list"
  ex_records :: "measurement list"
  ex_DryRun :: bool
  ex_DeferStart :: bool
  ex_Started :: bool
  ex_Manifest :: "manifest option"
  ex_G :: "nat list"
  ex_info :: "manifest option"

definition NewExecutor :: executor where
  "NewExecutor = \<lparr>ex_Clients = [], ex_records = [], ex_DryRun = False, ex_DeferStart = False, ex_Started = False,
     ex_Manifest = None, ex_G = [], ex_info = None\<rparr>"

definition launch :: "nat \<Rightarrow> executor \<Rightarrow> executor" where
  "launch i e = e\<lparr>ex_Started := True, ex_G := ex_G e @ [i]\<rparr>"

definition RunClient :: "(string \<times> u16) \<times> client \<Rightarrow> executor \<Rightarrow> executor panics" where
  "RunClient x e =
     panics_bind (describe (fst (fst x)) (snd (fst x)) (snd x)) (\<lambda>m.
       let e' = e\<lparr>ex_Clients := ex_Clients e @ [snd x], ex_records := ex_records e @ [m]\<rparr> in
       Returns
         (if ex_DryRun e then e'
          else if \<not> ex_DeferStart e then launch (length (ex_Clients e)) e'
          else e'))"

definition Start :: "executor \<Rightarrow> executor" where
  "Start e = (if ex_DryRun e \<or> ex_Started e then e
     else fold launch [0..<length (ex_Clients e)] (e\<lparr>ex_Started := True\<rparr>))"

text \<open>The critical sections of the goroutines started by \<open>launch\<close> and by \<open>GatherResults\<close>, each for
  the record of its client.\<close>

definition run_begin :: "gtime \<Rightarrow> measurement \<Rightarrow> measurement" where
  "run_begin now m = m\<lparr>ms_ExecutionStart := Some now, ms_Status := ''running''\<rparr>"

definition run_end :: "gtime \<Rightarrow> string option \<Rightarrow> bool \<Rightarrow> measurement \<Rightarrow> measurement" where
  "run_end now err ctxErr m =
     (case err of
        None \<Rightarrow> m\<lparr>ms_ExecutionEnd := Some now, ms_Status := ''ran''\<rparr>
      | Some e \<Rightarrow> m\<lparr>ms_ExecutionEnd := Some now, ms_Status := (if ctxErr then ''cancelled'' else ''failed''),
                   ms_Errors := ms_Errors m @ [errorRecord now (ms_Endpoint m) ''run'' e]\<rparr>)"

definition gather_end :: "gtime \<Rightarrow> string option \<Rightarrow> measurement \<Rightarrow> measurement" where
  "gather_end now err m =
     (case err of
        Some e \<Rightarrow> m\<lparr>ms_GatherStatus := ''failed'',
                   ms_Status := (if ms_Status m \<noteq> ''cancelled'' then ''failed'' else ms_Status m),
                   ms_Errors := ms_Errors m @ [errorRecord now (ms_Endpoint m) ''gather'' e]\<rparr>
      | None \<Rightarrow> m\<lparr>ms_GatherStatus := ''complete'',
                  ms_Status := (if ms_Status m = ''ran'' then ''complete'' else ms_Status m)\<rparr>)"

datatype exec_event =
    RunBegin nat gtime | RunEnd nat gtime "string option" bool | GatherEnd nat gtime "string option"

fun ev_client :: "exec_event \<Rightarrow> nat" where
  "ev_client (RunBegin i now) = i"
| "ev_client (RunEnd i now err ctxErr) = i"
| "ev_client (GatherEnd i now err) = i"

fun ev_record :: "exec_event \<Rightarrow> measurement \<Rightarrow> measurement" where
  "ev_record (RunBegin i now) = run_begin now"
| "ev_record (RunEnd i now err ctxErr) = run_end now err ctxErr"
| "ev_record (GatherEnd i now err) = gather_end now err"

fun ev_err :: "exec_event \<Rightarrow> string option" where
  "ev_err (RunBegin i now) = None"
| "ev_err (RunEnd i now err ctxErr) = err"
| "ev_err (GatherEnd i now err) = err"

definition exec_events :: "exec_event list \<Rightarrow> executor \<Rightarrow> executor" where
  "exec_events evs e = e\<lparr>ex_records :=
     fold (\<lambda>ev rs. rs[ev_client ev := ev_record ev (rs ! ev_client ev)]) evs (ex_records e)\<rparr>"

text \<open>\<open>errgroup.Group.Wait\<close>: the first error in time.\<close>

definition first_error :: "exec_event list \<Rightarrow> string option" where
  "first_error evs = (case List.map_filter ev_err evs of [] \<Rightarrow> None | e # _ \<Rightarrow> Some e)"

definition AddError :: "gtime \<Rightarrow> string \<Rightarrow> string \<Rightarrow> string \<Rightarrow> executor \<Rightarrow> executor" where
  "AddError now endpoint phase msg e = e\<lparr>ex_Manifest :=
     map_option (\<lambda>m. m\<lparr>mf_Errors := mf_Errors m @ [errorRecord now endpoint phase msg]\<rparr>) (ex_Manifest e)\<rparr>"

definition finalize_record :: "measurement \<Rightarrow> measurement" where
  "finalize_record r =
     (if ms_Status r = ''scheduled'' \<or> ms_Status r = ''ran'' \<or> ms_Status r = ''running''
      then r\<lparr>ms_Status := ''cancelled''\<rparr> else r)"

definition Finalize :: "gtime \<Rightarrow> bool \<Rightarrow> executor \<Rightarrow> executor" where
  "Finalize now ctxErr e =
     (case ex_Manifest e of
        None \<Rightarrow> e
      | Some m \<Rightarrow>
          let status = (if mf_Errors m \<noteq> [] then ''failed'' else ''complete'');
              status = (if \<exists>r \<in> set (ex_records e). ms_Status r \<noteq> ''complete'' then ''failed'' else status)
          in if ctxErr
             then e\<lparr>ex_Manifest := Some (m\<lparr>mf_ExecutionEnd := Some now, mf_Status := ''cancelled''\<rparr>),
                    ex_records := map finalize_record (ex_records e)\<rparr>
             else e\<lparr>ex_Manifest := Some (m\<lparr>mf_ExecutionEnd := Some now, mf_Status := status\<rparr>)\<rparr>)"

section \<open>Writing the manifest\<close>

record write_env =
  we_summary :: "nat \<Rightarrow> string"
  we_artifacts :: "nat \<Rightarrow> string list"
  we_exists :: "string \<Rightarrow> bool"
  we_rel :: "string \<Rightarrow> string option"
  we_marshal :: "string option"
  we_create :: "string option"
  we_write :: "string option"
  we_close :: "string option"
  we_rename :: "string option"

definition expected_artifacts :: "write_env \<Rightarrow> client \<Rightarrow> string list" where
  "expected_artifacts env c =
     (case c of
        SenderClient s \<Rightarrow>
          if sc_Out s \<noteq> [] then (case we_rel env (sc_Out s) of Some rel \<Rightarrow> [rel] | None \<Rightarrow> []) else []
      | CommandClient k \<Rightarrow> [td_Name (cc_Params k) @ ''.pcap.zst''])"

definition client_paths :: "write_env \<Rightarrow> nat \<Rightarrow> client \<Rightarrow> string list" where
  "client_paths env i c = (case c of SenderClient s \<Rightarrow> [sc_Out s] | CommandClient k \<Rightarrow> we_artifacts env i)"

definition write_record :: "write_env \<Rightarrow> nat \<Rightarrow> client \<Rightarrow> measurement \<Rightarrow> measurement" where
  "write_record env i c r =
     r\<lparr>ms_Summary := (if ms_ExecutionEnd r \<noteq> None then we_summary env i else ms_Summary r),
       ms_ExpectedArtifacts := expected_artifacts env c,
       ms_Artifacts := List.map_filter (we_rel env) (filter (we_exists env) (client_paths env i c))\<rparr>"

text \<open>The scheduled interval of the manifest over the records.\<close>

fun scheduled_interval :: "gtime \<times> gtime \<Rightarrow> measurement list \<Rightarrow> gtime \<times> gtime" where
  "scheduled_interval (s, t) [] = (s, t)"
| "scheduled_interval (s, t) (r # rs) =
     scheduled_interval
       (if IsZero s \<or> ms_ScheduledStart r < s then ms_ScheduledStart r else s,
        if ms_ScheduledEnd r > t then ms_ScheduledEnd r else t) rs"

definition first_some :: "string option list \<Rightarrow> string option" where
  "first_some xs = (case List.map_filter id xs of [] \<Rightarrow> None | e # _ \<Rightarrow> Some e)"

definition WriteInfo :: "write_env \<Rightarrow> executor \<Rightarrow> string option \<times> executor" where
  "WriteInfo env e =
     (let m = (case ex_Manifest e of None \<Rightarrow> empty_manifest ''unknown'' | Some m \<Rightarrow> m);
          start = (if ex_records e \<noteq> [] then (0, 0) else (mf_ScheduledStart m, mf_ScheduledEnd m));
          records = map (\<lambda>i. write_record env i (ex_Clients e ! i) (ex_records e ! i)) [0..<length (ex_Clients e)];
          (s, t) = scheduled_interval start records;
          m' = m\<lparr>mf_Measurements := records, mf_ScheduledStart := s, mf_ScheduledEnd := t\<rparr>;
          e' = e\<lparr>ex_Manifest := Some m', ex_records := records\<rparr>
      in case first_some [we_marshal env, we_create env, we_write env, we_close env, we_rename env] of
           Some err \<Rightarrow> (Some err, e')
         | None \<Rightarrow> (None, e'\<lparr>ex_info := Some m'\<rparr>))"

section \<open>Interleaved goroutines\<close>

text \<open>The mutex makes each section atomic, and each section touches the record of its own client: a
  record only depends on the events of its client.\<close>

lemma exec_events_length [simp]: "length (ex_records (exec_events evs e)) = length (ex_records e)"
proof -
  have "length (fold (\<lambda>ev rs. rs[ev_client ev := ev_record ev (rs ! ev_client ev)]) evs rs) = length rs" for rs
    by (induction evs arbitrary: rs) simp_all
  then show ?thesis by (simp add: exec_events_def)
qed

lemma exec_events_nth:
  assumes "i < length (ex_records e)"
  shows "ex_records (exec_events evs e) ! i =
     fold ev_record (filter (\<lambda>ev. ev_client ev = i) evs) (ex_records e ! i)"
proof -
  have "fold (\<lambda>ev rs. rs[ev_client ev := ev_record ev (rs ! ev_client ev)]) evs rs ! i =
      fold ev_record (filter (\<lambda>ev. ev_client ev = i) evs) (rs ! i)" if "i < length rs" for rs
    using that by (induction evs arbitrary: rs) (auto simp: nth_list_update)
  then show ?thesis using assms by (simp add: exec_events_def)
qed

lemma exec_events_simps [simp]:
  "ex_Clients (exec_events evs e) = ex_Clients e" "ex_Manifest (exec_events evs e) = ex_Manifest e"
  "ex_Started (exec_events evs e) = ex_Started e" "ex_info (exec_events evs e) = ex_info e"
  "ex_G (exec_events evs e) = ex_G e"
  by (simp_all add: exec_events_def)

lemma first_error_None: "first_error evs = None \<longleftrightarrow> list_all (\<lambda>ev. ev_err ev = None) evs"
proof -
  have "List.map_filter ev_err evs = [] \<longleftrightarrow> list_all (\<lambda>ev. ev_err ev = None) evs"
    by (induction evs) (auto simp: List.map_filter_simps split: option.splits)
  then show ?thesis by (cases "List.map_filter ev_err evs") (auto simp: first_error_def)
qed

section \<open>The scheduled interval\<close>

lemma scheduled_interval_bounds:
  assumes "list_all (\<lambda>r. 0 < ms_ScheduledStart r) rs" and "scheduled_interval (s, t) rs = (s', t')" and "0 \<le> s"
  shows "(if s = 0 then if rs = [] then s' = 0 else s' = Min (ms_ScheduledStart ` set rs)
      else s' = Min (insert s (ms_ScheduledStart ` set rs))) \<and>
     t' = Max (insert t (ms_ScheduledEnd ` set rs))"
  using assms
proof (induction rs arbitrary: s t)
  case (Cons r rs)
  let ?s = "if IsZero s \<or> ms_ScheduledStart r < s then ms_ScheduledStart r else s"
  let ?t = "if ms_ScheduledEnd r > t then ms_ScheduledEnd r else t"
  have pos: "0 < ms_ScheduledStart r" "0 < ?s" using Cons.prems(1,3) by (auto simp: IsZero_def)
  have IH: "s' = Min (insert ?s (ms_ScheduledStart ` set rs))" "t' = Max (insert ?t (ms_ScheduledEnd ` set rs))"
    using Cons.IH [of ?s ?t] Cons.prems pos(2) by simp_all
  have "?t = max t (ms_ScheduledEnd r)" by (simp add: max_def)
  then have "t' = Max (insert t (insert (ms_ScheduledEnd r) (ms_ScheduledEnd ` set rs)))"
    unfolding IH(2) by (cases "rs = []") (simp_all add: max.assoc max.commute max.left_commute)
  moreover have "s' = Min (insert (ms_ScheduledStart r) (ms_ScheduledStart ` set rs))" if "s = 0"
    unfolding IH(1) using that by (simp add: IsZero_def)
  moreover have "s' = Min (insert s (insert (ms_ScheduledStart r) (ms_ScheduledStart ` set rs)))" if "s \<noteq> 0"
  proof -
    have "?s = min s (ms_ScheduledStart r)" using that by (simp add: min_def IsZero_def)
    then show ?thesis unfolding IH(1) by (cases "rs = []") (simp_all add: min.assoc min.commute min.left_commute)
  qed
  ultimately show ?case by simp
qed simp

section \<open>Properties\<close>

text \<open>Two senders whose parameters agree in everything the manifest reports.\<close>

fun same_params :: "sender \<Rightarrow> sender \<Rightarrow> bool" where
  "same_params (ICMPSender i) (ICMPSender j) =
     (i\<lparr>i_ICMPType := 0, i_punch := False\<rparr> = j\<lparr>i_ICMPType := 0, i_punch := False\<rparr>)"
| "same_params s s' = (s = s')"

lemma windowConfiguration_inj: "windowConfiguration p = windowConfiguration q \<Longrightarrow> p = q"
  by (cases p; cases q) (simp add: windowConfiguration_def rate_GetDuration_def)

lemma map_windows_inj: "map windowConfiguration ps = map windowConfiguration qs \<Longrightarrow> ps = qs"
  using inj_mapI [OF injI, of windowConfiguration] windowConfiguration_inj by (meson injD)

lemma cca_String_inj: "cca_String c = Returns s \<Longrightarrow> cca_String d = Returns s \<Longrightarrow> c = d"
  using ParseTCPCCA_String [of c s] ParseTCPCCA_String [of d s] by simp

text \<open>The manifest loses no parameter of a measurement: two senders of the same kind with the same
  reported configuration have the same parameters (for ICMP up to the message type, which the
  direction gives).\<close>

theorem senderConfiguration_determines:
  assumes "senderConfiguration s = Returns conf" and "senderConfiguration s' = Returns conf"
    and "SenderMode s = SenderMode s'"
  shows "same_params s s'"
proof (cases s)
  case (RateSender ps)
  then obtain qs where qs: "s' = RateSender qs" using assms(3) by (cases s') simp_all
  have "cf_Windows conf = map windowConfiguration ps" using assms(1) RateSender by auto
  moreover have "cf_Windows conf = map windowConfiguration qs" using assms(2) qs by auto
  ultimately show ?thesis using map_windows_inj [of ps qs] RateSender qs by simp
next
  case (TCPSender p)
  then obtain q where "s' = TCPSender q" using assms(3) by (cases s') simp_all
  then show ?thesis using assms(1,2) TCPSender cca_String_inj [of "t_CCA p" _ "t_CCA q"]
    by (cases p; cases q) (auto simp: panics_bind_Returns)
next
  case (ICMPSender p)
  then obtain q where "s' = ICMPSender q" using assms(3) by (cases s') simp_all
  then show ?thesis using assms(1,2) ICMPSender by (cases p; cases q) auto
next
  case (BurstSender p)
  then obtain q where "s' = BurstSender q" using assms(3) by (cases s') simp_all
  then show ?thesis using assms(1,2) BurstSender by (cases p; cases q) auto
next
  case (PeriodicSender p)
  then obtain q where "s' = PeriodicSender q" using assms(3) by (cases s') simp_all
  then show ?thesis using assms(1,2) PeriodicSender by (cases p; cases q) auto
next
  case (QUICSender p)
  then obtain q where "s' = QUICSender q" using assms(3) by (cases s') simp_all
  then show ?thesis using assms(1,2) QUICSender by (cases p; cases q) auto
qed

theorem senderConfiguration_determines_witness:
  "same_params (sc_Sender burst_client) (BurstSender \<lparr>b_Timeout = second, b_Num = 3, b_Pad = 0\<rparr>)"
  using senderConfiguration_determines [of "sc_Sender burst_client"
      "Configuration second (Some 3) (Some 0) None None None None [] None None [] [] []"
      "BurstSender \<lparr>b_Timeout = second, b_Num = 3, b_Pad = 0\<rparr>"] by (simp add: burst_client_def)


definition example_write :: write_env where
  "example_write = \<lparr>we_summary = (\<lambda>i. []), we_artifacts = (\<lambda>i. []), we_exists = (\<lambda>p. True), we_rel = Some,
     we_marshal = None, we_create = None, we_write = None, we_close = None, we_rename = None\<rparr>"

definition example_measurement :: measurement where
  "example_measurement = new_measurement ''m'' ''SendBurst'' ''DL'' ''client'' ''srv''
     (Configuration second (Some 3) (Some 0) None None None None [] None None [] [] []) 100 200"

definition example_planned :: executor where
  "example_planned = NewExecutor\<lparr>ex_Clients := [SenderClient burst_client], ex_records := [example_measurement],
     ex_Manifest := Some (empty_manifest ''scheduled'')\<rparr>"

lemma example_write_ok: "fst (WriteInfo example_write e) = None"
  by (simp add: WriteInfo_def Let_def example_write_def first_some_def List.map_filter_simps split: prod.split)


end
