(* ===== verification/Experiment_Run.thy ===== *)
theory Experiment_Run
  imports Manifest
begin

text \<open>
  The experiment client (\<open>cmd/scalpel-exp/client.go\<close>): scheduling one invocation of a procedure,
  finishing it, and the rounds of an experiment. Metadata, clocks, directories, RPC connections and
  the goroutines of the measurements answer through the environments.
\<close>

section \<open>Scheduling an invocation\<close>

text \<open>\<open>FetchMetadata\<close>: the server's metadata and version, or an error and whether it is an exceeded
  deadline.\<close>

datatype meta_result = MetaOk string string | MetaErr string bool

datatype sched_error =
    ReconnectErr string | PrepareErr prep_error | MkResultErr string | ScheduleErr proc_error | ManifestErr string

record sched_env =
  se_local :: string
  se_localVersion :: string
  se_remote :: meta_result
  se_ctx_err :: bool
  se_redial :: "string option"
  se_ord :: "string list"
  se_names :: "string list"
  se_now :: gtime
  se_format :: "gtime \<Rightarrow> string"
  se_mkdir :: "string option"
  se_experimentID :: string
  se_invocationID :: string
  se_proc :: proc_env
  se_rng :: rng
  se_ids :: "nat \<Rightarrow> string \<times> u16"
  se_err_text :: "proc_error \<Rightarrow> string"
  se_write :: write_env
  se_start :: gtime

fun meta_remote :: "meta_result \<Rightarrow> string option" where
  "meta_remote (MetaOk md v) = Some md"
| "meta_remote (MetaErr e t) = None"

definition meta_warnings :: "sched_env \<Rightarrow> string list" where
  "meta_warnings env =
     (case se_remote env of
        MetaErr e t \<Rightarrow> [''server metadata unavailable (older server may not support it): '' @ e]
      | MetaOk md v \<Rightarrow>
          if v \<noteq> se_localVersion env
          then [''client/server version mismatch: '' @ se_localVersion env @ '' / '' @ v] else [])"

text \<open>\<open>mkResultPath\<close>.\<close>

definition mkResultPath :: "sched_env \<Rightarrow> string \<Rightarrow> gtime \<Rightarrow> string \<Rightarrow> string + string" where
  "mkResultPath env base ts suffix =
     (case se_mkdir env of
        Some e \<Rightarrow> Inl e
      | None \<Rightarrow> Inr (filepath_Join base (se_format env ts @ suffix)))"

definition invocation_name :: "string \<Rightarrow> param_map \<Rightarrow> string panics" where
  "invocation_name procedure params =
     (case params ''direction'' of
        None \<Rightarrow> Returns (''_'' @ procedure)
      | Some (PString d) \<Rightarrow> Returns (''_'' @ procedure @ ''_'' @ to_lower d)
      | Some _ \<Rightarrow> Panics ''interface conversion'')"

definition initial_manifest :: "sched_env \<Rightarrow> nat \<Rightarrow> string \<Rightarrow> param_map \<Rightarrow> gtime \<Rightarrow> manifest" where
  "initial_manifest env round name params ri =
     (empty_manifest ''scheduled'')\<lparr>mf_ExperimentID := se_experimentID env, mf_InvocationID := se_invocationID env,
        mf_Round := round + 1, mf_Procedure := name, mf_Parameters := params, mf_ReferenceTime := ri,
        mf_ScheduledStart := ri, mf_ClientMetadata := Some (se_local env),
        mf_ServerMetadata := meta_remote (se_remote env), mf_Warnings := meta_warnings env\<rparr>"

text \<open>The run of the procedure: it hands its clients to \<open>RunClient\<close>, in order. \<open>None\<close> is a
  procedure that does not return.\<close>

definition run_procedure :: "sched_env \<Rightarrow> procedure_func \<Rightarrow> gtime \<Rightarrow> string \<Rightarrow> param_map \<Rightarrow> executor \<Rightarrow>
    (proc_error option \<times> executor) option panics" where
  "run_procedure env f ri resultPath params e =
     (case f (se_proc env) ri resultPath params (se_rng env) of
        (out, clients, g) \<Rightarrow>
          panics_bind (panics_fold RunClient (zip (map (se_ids env) [0..<length clients]) clients) e) (\<lambda>e'.
            case out of
              Done \<Rightarrow> Returns (Some (None, e'))
            | ProcErr err \<Rightarrow> Returns (Some (Some err, e'))
            | ProcPanic msg \<Rightarrow> Panics msg
            | NoReturn \<Rightarrow> Returns None))"

text \<open>After a successful run of the procedure: the manifest, then the measurements.\<close>

definition start_measurements :: "sched_env \<Rightarrow> executor \<Rightarrow> sched_error option \<times> executor" where
  "start_measurements env e =
     (case WriteInfo (se_write env) e of
        (Some err, e') \<Rightarrow> (Some (ManifestErr err), AddError (se_now env) ''client'' ''manifest'' err e')
      | (None, e') \<Rightarrow>
          (None, Start (e'\<lparr>ex_Manifest :=
             map_option (\<lambda>m. m\<lparr>mf_ExecutionStart := Some (se_start env), mf_Status := ''running''\<rparr>) (ex_Manifest e')\<rparr>)))"

text \<open>What \<open>scheduleProcedureInvocation\<close> does before the procedure runs: reconnecting, parameters,
  reference instant, result directory and manifest.\<close>

definition prepare_invocation :: "sched_env \<Rightarrow> string \<Rightarrow> nat \<Rightarrow> string \<Rightarrow> gtime \<Rightarrow> procedure_func procedure \<Rightarrow>
    param_map \<Rightarrow> (sched_error + gtime \<times> string \<times> param_map \<times> manifest) panics" where
  "prepare_invocation env results round procedure ts proc overrides =
     (case (case se_remote env of MetaErr _ timeout \<Rightarrow> if timeout \<and> \<not> se_ctx_err env then se_redial env else None | _ \<Rightarrow> None) of
        Some err \<Rightarrow> Returns (Inl (ReconnectErr err))
      | None \<Rightarrow>
          (case PrepareParams proc overrides (se_ord env) of
             Inl err \<Rightarrow> Returns (Inl (PrepareErr err))
           | Inr params \<Rightarrow>
               let ri = NextRI (if se_now env > ts then se_now env else ts) in
               panics_bind (invocation_name procedure params) (\<lambda>name.
               case mkResultPath env results ri name of
                 Inl err \<Rightarrow> Returns (Inl (MkResultErr err))
               | Inr resultPath \<Rightarrow>
                   panics_bind (ManifestParameters params (se_names env)) (\<lambda>mparams.
                     Returns (Inr (ri, resultPath, params, initial_manifest env round (p_Name proc) mparams ri))))))"

text \<open>\<open>scheduleProcedureInvocation\<close>: the result path (empty when there is none), the error and the
  executor.\<close>

definition scheduleProcedureInvocation :: "sched_env \<Rightarrow> string \<Rightarrow> nat \<Rightarrow> string \<Rightarrow> gtime \<Rightarrow> procedure_func procedure \<Rightarrow>
    param_map \<Rightarrow> executor \<Rightarrow> (string \<times> sched_error option \<times> executor) option panics" where
  "scheduleProcedureInvocation env results round procedure ts proc overrides e0 =
     (let e = e0\<lparr>ex_DeferStart := True\<rparr> in
      panics_bind (prepare_invocation env results round procedure ts proc overrides) (\<lambda>prep.
      case prep of
        Inl err \<Rightarrow> Returns (Some ([], Some err, e))
      | Inr (ri, resultPath, params, m) \<Rightarrow>
          (case p_Run proc of
             None \<Rightarrow> Panics ''nil pointer dereference''
           | Some f \<Rightarrow>
               panics_bind (run_procedure env f ri resultPath params (e\<lparr>ex_Manifest := Some m\<rparr>)) (\<lambda>r.
               case r of
                 None \<Rightarrow> Returns None
               | Some (Some err, e2) \<Rightarrow>
                   Returns (Some (resultPath, Some (ScheduleErr err),
                     AddError (se_now env) ''client'' ''schedule'' (se_err_text env err) e2))
               | Some (None, e2) \<Rightarrow>
                   (case start_measurements env e2 of
                      (err, e3) \<Rightarrow> Returns (Some (resultPath, err, e3)))))))"

section \<open>Finishing an invocation\<close>

record finish_env =
  fe_now :: gtime
  fe_setup :: "string option"
  fe_runs :: "exec_event list"
  fe_ctx :: bool
  fe_abort :: "string option"
  fe_gathers :: "exec_event list"
  fe_log :: "string option"
  fe_ctx_final :: bool
  fe_load :: string
  fe_remote :: "string + string"
  fe_write :: write_env

definition add_opt :: "finish_env \<Rightarrow> string \<Rightarrow> string \<Rightarrow> string option \<Rightarrow> executor \<Rightarrow> executor" where
  "add_opt env endpoint phase err e =
     (case err of None \<Rightarrow> e | Some msg \<Rightarrow> AddError (fe_now env) endpoint phase msg e)"

definition opt_err :: "string option \<Rightarrow> string list" where
  "opt_err err = (case err of None \<Rightarrow> [] | Some e \<Rightarrow> [e])"

text \<open>From \<open>Wait\<close> to the server log: the joined errors, whether the server may be asked again, and the
  executor.\<close>

definition finish_started :: "finish_env \<Rightarrow> executor \<Rightarrow> string list \<times> bool \<times> executor" where
  "finish_started env e0 =
     (let waitErr = first_error (fe_runs env);
          e1 = add_opt env ''client'' ''run'' waitErr (exec_events (fe_runs env) e0)
      in if fe_ctx env
         then (opt_err waitErr @ [''context canceled''], True, add_opt env ''server'' ''abort'' (fe_abort env) e1)
         else
           let gatherErr = first_error (fe_gathers env);
               e2 = add_opt env ''client'' ''gather'' gatherErr (exec_events (fe_gathers env) e1);
               e3 = add_opt env ''server'' ''server_log'' (fe_log env) e2
           in (opt_err waitErr @ opt_err gatherErr @ opt_err (fe_log env), gatherErr = None, e3))"

text \<open>The deferred part: final status, load of the endpoints, final manifest.\<close>

definition finish_after :: "finish_env \<Rightarrow> bool \<Rightarrow> manifest \<Rightarrow> manifest" where
  "finish_after env safe m =
     (let m1 = m\<lparr>mf_ClientAfter := Some (fe_load env)\<rparr> in
      if \<not> fe_ctx_final env \<and> safe then
        (case fe_remote env of
           Inr load \<Rightarrow> m1\<lparr>mf_ServerAfter := Some load\<rparr>
         | Inl e \<Rightarrow> m1\<lparr>mf_Warnings := mf_Warnings m1 @ [''server AFTER metadata unavailable: '' @ e]\<rparr>)
      else m1\<lparr>mf_Warnings := mf_Warnings m1 @
             [''server AFTER metadata skipped: cancellation or remote completion unconfirmed'']\<rparr>)"

definition finish_deferred :: "finish_env \<Rightarrow> string list \<times> bool \<times> executor \<Rightarrow> string list \<times> executor" where
  "finish_deferred env r =
     (case r of (errs, safe, e0) \<Rightarrow>
        let e1 = Finalize (fe_now env) (fe_ctx_final env) e0;
            e2 = e1\<lparr>ex_Manifest := map_option (finish_after env safe) (ex_Manifest e1)\<rparr>
        in case WriteInfo (fe_write env) e2 of
             (None, e3) \<Rightarrow> (errs, e3)
           | (Some err, e3) \<Rightarrow>
               let e4 = AddError (fe_now env) ''client'' ''manifest_final'' err e3 in
               (errs @ [''final manifest: '' @ err],
                e4\<lparr>ex_Manifest := map_option
                   (\<lambda>m. if mf_Status m \<noteq> ''cancelled'' then m\<lparr>mf_Status := ''failed''\<rparr> else m) (ex_Manifest e4)\<rparr>))"

definition finishProcedureInvocation :: "finish_env \<Rightarrow> executor \<Rightarrow> string list \<times> executor" where
  "finishProcedureInvocation env e0 =
     (let e1 = (if ex_Manifest e0 = None then e0\<lparr>ex_Manifest := Some (empty_manifest ''running'')\<rparr> else e0);
          e2 = add_opt env ''client'' ''log_setup'' (fe_setup env) e1
      in finish_deferred env
           (if \<not> ex_Started e2
            then (opt_err (fe_setup env) @
                  (if map_option mf_Errors (ex_Manifest e2) \<noteq> Some [] then [''invocation setup failed''] else []), True, e2)
            else (case finish_started env e2 of (errs, safe, e3) \<Rightarrow> (opt_err (fe_setup env) @ errs, safe, e3))))"

section \<open>Rounds\<close>

record inv_env =
  iv_ctx :: bool
  iv_dial :: "string option"
  iv_ctx2 :: bool
  iv_ts :: gtime
  iv_sched :: sched_env
  iv_finish :: finish_env

datatype run_error =
    CtxError | DialError string | InvocationFailed "sched_error option" "string list"

text \<open>One turn of the inner loop of \<open>Run\<close>: the error that ends the loop and the executor of the
  invocation.\<close>

definition run_invocation :: "inv_env \<Rightarrow> string \<Rightarrow> string \<Rightarrow> procedure_func procedure \<Rightarrow> nat \<times> param_map \<Rightarrow>
    (run_error option \<times> executor list) option panics" where
  "run_invocation env results procedure proc x =
     (if iv_ctx env then Returns (Some (Some CtxError, []))
      else case iv_dial env of
        Some e \<Rightarrow> Returns (Some (Some (DialError e), []))
      | None \<Rightarrow>
          if iv_ctx2 env then Returns (Some (Some CtxError, []))
          else
            panics_bind (scheduleProcedureInvocation (iv_sched env) results (fst x) procedure (iv_ts env) proc (snd x)
                NewExecutor) (\<lambda>r.
            case r of
              None \<Rightarrow> Returns None
            | Some (resultPath, schedErr, e) \<Rightarrow>
                (case (if resultPath \<noteq> [] then finishProcedureInvocation (iv_finish env) e else ([], e)) of
                   (finishErr, e') \<Rightarrow>
                     Returns (Some
                       (if schedErr = None \<and> finishErr = [] then None else Some (InvocationFailed schedErr finishErr),
                        [e'])))))"

primrec run_loop :: "(nat \<Rightarrow> inv_env) \<Rightarrow> string \<Rightarrow> string \<Rightarrow> procedure_func procedure \<Rightarrow> nat \<Rightarrow> executor list \<Rightarrow>
    (nat \<times> param_map) list \<Rightarrow> (run_error option \<times> executor list) option panics" where
  "run_loop env results procedure proc k acc [] = Returns (Some (None, acc))"
| "run_loop env results procedure proc k acc (x # xs) =
     panics_bind (run_invocation (env k) results procedure proc x) (\<lambda>r.
     case r of
       None \<Rightarrow> Returns None
     | Some (Some err, es) \<Rightarrow> Returns (Some (Some err, acc @ es))
     | Some (None, es) \<Rightarrow> run_loop env results procedure proc (Suc k) (acc @ es) xs)"

text \<open>\<open>Client.Run\<close> for a number of rounds: an error of the log file, of the parameters, or the
  outcome of the rounds.\<close>

datatype client_run =
    LogErr string | Refused "Procedure_Registry.client_error" | Ran "(run_error option \<times> executor list) option panics"

definition Client_Run :: "string option \<Rightarrow> (nat \<Rightarrow> inv_env) \<Rightarrow> string \<Rightarrow> procedure_func registry \<Rightarrow> string \<Rightarrow>
    param_map \<Rightarrow> (nat \<Rightarrow> string list) \<Rightarrow> nat \<Rightarrow> client_run" where
  "Client_Run logErr env results reg procedure params ord rounds =
     (case logErr of
        Some e \<Rightarrow> LogErr e
      | None \<Rightarrow>
          (case prepareOverrides reg procedure params ord of
             Inl e \<Rightarrow> Refused e
           | Inr (proc, paramsSet) \<Rightarrow>
               Ran (run_loop env results procedure proc 0 []
                 (List.product [0..<rounds] paramsSet))))"

section \<open>Planning and launching\<close>

definition planned :: "executor \<Rightarrow> bool" where
  "planned e \<longleftrightarrow> \<not> ex_DryRun e \<and> ex_DeferStart e \<and> \<not> ex_Started e \<and> ex_G e = [] \<and>
     length (ex_records e) = length (ex_Clients e) \<and> list_all (\<lambda>r. ms_Status r = ''scheduled'') (ex_records e)"

text \<open>All measurements were launched, and the manifest on disk was written before.\<close>

definition launched :: "executor \<Rightarrow> bool" where
  "launched e \<longleftrightarrow> ex_Started e \<and> ex_G e = [0..<length (ex_Clients e)] \<and>
     length (ex_records e) = length (ex_Clients e) \<and> list_all (\<lambda>r. ms_Status r = ''scheduled'') (ex_records e) \<and>
     (\<exists>m. ex_Manifest e = Some m \<and> mf_Errors m = []) \<and>
     (\<exists>m. ex_info e = Some m \<and> mf_Status m = ''scheduled'' \<and> mf_Measurements m = ex_records e)"

lemma describe_scheduled: "describe i echo c = Returns m \<Longrightarrow> ms_Status m = ''scheduled''"
  by (cases c) (auto simp: describe_def new_measurement_def panics_bind_Returns)

lemma RunClient_planned:
  assumes "RunClient x e = Returns e'" and "planned e"
  shows "planned e' \<and> ex_Manifest e' = ex_Manifest e \<and> ex_info e' = ex_info e"
proof -
  obtain m where m: "describe (fst (fst x)) (snd (fst x)) (snd x) = Returns m"
    and e': "e' = e\<lparr>ex_Clients := ex_Clients e @ [snd x], ex_records := ex_records e @ [m]\<rparr>"
    using assms by (auto simp: RunClient_def panics_bind_Returns planned_def Let_def)
  then show ?thesis using assms(2) describe_scheduled [OF m] by (simp add: planned_def)
qed

lemma RunClient_fold_planned:
  "panics_fold RunClient xs e = Returns e' \<Longrightarrow> planned e \<Longrightarrow>
   planned e' \<and> ex_Manifest e' = ex_Manifest e \<and> ex_info e' = ex_info e"
proof (induction xs arbitrary: e)
  case (Cons x xs)
  then obtain e1 where e1: "RunClient x e = Returns e1" "panics_fold RunClient xs e1 = Returns e'"
    by (auto simp: panics_bind_Returns)
  from RunClient_planned [OF e1(1) Cons.prems(2)] Cons.IH [OF e1(2)] show ?case by simp
qed simp

lemma run_procedure_planned:
  assumes "run_procedure env f ri path params e = Returns (Some (err, e'))" and "planned e"
  shows "planned e' \<and> ex_Manifest e' = ex_Manifest e \<and> ex_info e' = ex_info e"
proof -
  obtain out clients g where f: "f (se_proc env) ri path params (se_rng env) = (out, clients, g)" by (metis prod_cases3)
  then have "panics_fold RunClient (zip (map (se_ids env) [0..<length clients]) clients) e = Returns e'"
    using assms(1) by (cases out) (auto simp: run_procedure_def panics_bind_Returns)
  from RunClient_fold_planned [OF this assms(2)] show ?thesis .
qed

lemma WriteInfo_frame:
  assumes "WriteInfo env e = (err, e')"
  shows "ex_Clients e' = ex_Clients e \<and> ex_Started e' = ex_Started e \<and> ex_DryRun e' = ex_DryRun e \<and> ex_G e' = ex_G e \<and>
     length (ex_records e') = length (ex_Clients e) \<and>
     (\<exists>m. ex_Manifest e' = Some m \<and> mf_Measurements m = ex_records e' \<and>
        ex_info e' = (if err = None then Some m else ex_info e) \<and>
        (\<forall>m0. ex_Manifest e = Some m0 \<longrightarrow> mf_Errors m = mf_Errors m0 \<and> mf_Status m = mf_Status m0))"
  using assms by (auto simp: WriteInfo_def Let_def split: option.splits prod.splits)

lemma WriteInfo_status:
  assumes "WriteInfo env e = (err, e')" and "length (ex_records e) = length (ex_Clients e)"
  shows "map ms_Status (ex_records e') = map ms_Status (ex_records e)"
proof -
  have "ex_records e' = map (\<lambda>i. write_record env i (ex_Clients e ! i) (ex_records e ! i)) [0..<length (ex_Clients e)]"
    using assms(1) by (auto simp: WriteInfo_def Let_def split: option.splits prod.splits)
  then show ?thesis using assms(2) by (intro nth_equalityI) (simp_all add: write_record_def)
qed

lemma list_all_map_eq: "map f xs = map f ys \<Longrightarrow> list_all (\<lambda>x. P (f x)) xs = list_all (\<lambda>x. P (f x)) ys"
  by (metis list.pred_map comp_def list.pred_cong)

lemma launch_fold:
  "fold launch is e = e\<lparr>ex_Started := (is \<noteq> [] \<or> ex_Started e), ex_G := ex_G e @ is\<rparr>"
  by (induction "is" arbitrary: e) (simp_all add: launch_def)

lemma start_measurements_launched:
  assumes "start_measurements env e = (err, e')" and "planned e"
    and "ex_Manifest e = Some m" and "mf_Errors m = []" and "mf_Status m = ''scheduled''"
  shows "if err = None then launched e' else ex_G e' = [] \<and> \<not> ex_Started e'"
proof -
  obtain werr e1 where w: "WriteInfo (se_write env) e = (werr, e1)" by fastforce
  note frame = WriteInfo_frame [OF w]
  have recs: "length (ex_records e) = length (ex_Clients e)" using assms(2) by (simp add: planned_def)
  obtain m1 where m1: "ex_Manifest e1 = Some m1" "mf_Measurements m1 = ex_records e1"
    "ex_info e1 = (if werr = None then Some m1 else ex_info e)" "mf_Errors m1 = []" "mf_Status m1 = ''scheduled''"
    using frame assms(3-5) by auto
  have "list_all (\<lambda>r. ms_Status r = ''scheduled'') (ex_records e1)"
    using list_all_map_eq [OF WriteInfo_status [OF w recs], of "\<lambda>s. s = ''scheduled''"] assms(2)
    by (simp add: planned_def)
  then show ?thesis
    using assms(1,2) w frame m1 recs
    by (auto simp: start_measurements_def planned_def launched_def Start_def launch_fold AddError_def
        split: option.splits)
qed

lemma prepare_invocation_manifest:
  assumes "prepare_invocation env results round procedure ts proc overrides = Returns (Inr (ri, path, params, m))"
  shows "mf_Errors m = [] \<and> mf_Status m = ''scheduled''"
proof -
  let ?ri = "NextRI (if se_now env > ts then se_now env else ts)"
  obtain ps where ps: "PrepareParams proc overrides (se_ord env) = Inr ps"
    using assms by (auto simp: prepare_invocation_def split: option.splits sum.splits)
  then obtain name where name: "invocation_name procedure ps = Returns name"
    using assms by (cases "invocation_name procedure ps") (auto simp: prepare_invocation_def Let_def split: option.splits)
  show ?thesis
    using assms ps name
    by (cases "mkResultPath env results ?ri name"; cases "ManifestParameters ps (se_names env)")
      (auto simp: prepare_invocation_def Let_def initial_manifest_def empty_manifest_def split: option.splits)
qed

lemma run_procedure_launched:
  assumes "run_procedure env f ri path params (NewExecutor\<lparr>ex_DeferStart := True, ex_Manifest := Some m\<rparr>) =
      Returns (Some (perr, e2))" and "mf_Errors m = [] \<and> mf_Status m = ''scheduled''"
    and "(case perr of
        Some err \<Rightarrow> (Some (ScheduleErr err), AddError (se_now env) ''client'' ''schedule'' (se_err_text env err) e2)
      | None \<Rightarrow> start_measurements env e2) = (serr, e)"
  shows "if serr = None then launched e else ex_G e = [] \<and> \<not> ex_Started e"
proof -
  have "planned (NewExecutor\<lparr>ex_DeferStart := True, ex_Manifest := Some m\<rparr>)"
    by (simp add: planned_def NewExecutor_def)
  from run_procedure_planned [OF assms(1) this] have e2: "planned e2" "ex_Manifest e2 = Some m" by simp_all
  show ?thesis
  proof (cases perr)
    case None
    then have "start_measurements env e2 = (serr, e)" using assms(3) by simp
    from start_measurements_launched [OF this e2] show ?thesis using assms(2) by simp
  next
    case (Some err)
    then show ?thesis using assms(3) e2(1) by (auto simp: AddError_def planned_def)
  qed
qed

section \<open>Finishing\<close>

text \<open>The goroutines of an invocation, in any interleaving: each client runs once and is gathered once.\<close>

definition complete_runs :: "nat \<Rightarrow> exec_event list \<Rightarrow> bool" where
  "complete_runs n evs \<longleftrightarrow> list_all (\<lambda>ev. ev_client ev < n) evs \<and>
     list_all (\<lambda>i. \<exists>a b err c. filter (\<lambda>ev. ev_client ev = i) evs = [RunBegin i a, RunEnd i b err c]) [0..<n]"

definition complete_gathers :: "nat \<Rightarrow> exec_event list \<Rightarrow> bool" where
  "complete_gathers n evs \<longleftrightarrow> list_all (\<lambda>ev. ev_client ev < n) evs \<and>
     list_all (\<lambda>i. \<exists>t err. filter (\<lambda>ev. ev_client ev = i) evs = [GatherEnd i t err]) [0..<n]"

lemma complete_runsD:
  "complete_runs n evs \<Longrightarrow> i < n \<Longrightarrow> \<exists>a b err c. filter (\<lambda>ev. ev_client ev = i) evs = [RunBegin i a, RunEnd i b err c]"
  by (simp add: complete_runs_def list_all_iff)

lemma complete_gathersD:
  "complete_gathers n evs \<Longrightarrow> i < n \<Longrightarrow> \<exists>t err. filter (\<lambda>ev. ev_client ev = i) evs = [GatherEnd i t err]"
  by (simp add: complete_gathers_def list_all_iff)

lemma run_status:
  assumes "complete_runs (length (ex_records e)) evs" and "i < length (ex_records e)"
  shows "ms_Status (ex_records (exec_events evs e) ! i) = ''ran'' \<longleftrightarrow>
     list_all (\<lambda>ev. ev_client ev = i \<longrightarrow> ev_err ev = None) evs"
proof -
  obtain a b err c where evs: "filter (\<lambda>ev. ev_client ev = i) evs = [RunBegin i a, RunEnd i b err c]"
    using complete_runsD [OF assms] by blast
  have "list_all (\<lambda>ev. ev_client ev = i \<longrightarrow> ev_err ev = None) evs \<longleftrightarrow>
      list_all (\<lambda>ev. ev_err ev = None) (filter (\<lambda>ev. ev_client ev = i) evs)" by (auto simp: list_all_iff)
  then show ?thesis
    unfolding exec_events_nth [OF assms(2)] evs by (auto simp: run_end_def split: option.split)
qed

lemma gather_status:
  assumes "complete_gathers (length (ex_records e)) evs" and "i < length (ex_records e)"
  shows "ms_Status (ex_records (exec_events evs e) ! i) = ''complete'' \<longleftrightarrow>
     (ms_Status (ex_records e ! i) = ''ran'' \<or> ms_Status (ex_records e ! i) = ''complete'') \<and>
     list_all (\<lambda>ev. ev_client ev = i \<longrightarrow> ev_err ev = None) evs"
proof -
  obtain t err where evs: "filter (\<lambda>ev. ev_client ev = i) evs = [GatherEnd i t err]"
    using complete_gathersD [OF assms] by blast
  have "list_all (\<lambda>ev. ev_client ev = i \<longrightarrow> ev_err ev = None) evs \<longleftrightarrow>
      list_all (\<lambda>ev. ev_err ev = None) (filter (\<lambda>ev. ev_client ev = i) evs)" by (auto simp: list_all_iff)
  then show ?thesis
    unfolding exec_events_nth [OF assms(2)] evs by (auto simp: gather_end_def split: option.split)
qed

lemma errors_by_client:
  "list_all (\<lambda>ev. ev_client ev < n) evs \<Longrightarrow>
   list_all (\<lambda>ev. ev_err ev = None) evs \<longleftrightarrow> (\<forall>i < n. list_all (\<lambda>ev. ev_client ev = i \<longrightarrow> ev_err ev = None) evs)"
  by (auto simp: list_all_iff)

lemma run_end_status: "ms_Status (run_end t err c m) = ''complete'' \<longleftrightarrow> False"
  by (simp add: run_end_def split: option.split)

lemma run_not_complete:
  assumes "complete_runs (length (ex_records e)) evs" and "i < length (ex_records e)"
  shows "ms_Status (ex_records (exec_events evs e) ! i) \<noteq> ''complete''"
proof -
  obtain a b err c where evs: "filter (\<lambda>ev. ev_client ev = i) evs = [RunBegin i a, RunEnd i b err c]"
    using complete_runsD [OF assms] by blast
  show ?thesis unfolding exec_events_nth [OF assms(2)] evs by (simp add: run_end_status)
qed

lemma add_opt_simps [simp]:
  "ex_records (add_opt env endpoint phase err e) = ex_records e" "ex_Started (add_opt env endpoint phase err e) = ex_Started e"
  "ex_info (add_opt env endpoint phase err e) = ex_info e" "ex_Clients (add_opt env endpoint phase err e) = ex_Clients e"
  "exec_events evs (add_opt env endpoint phase err e) = add_opt env endpoint phase err (exec_events evs e)"
  by (simp_all add: add_opt_def AddError_def exec_events_def split: option.split)

lemma add_opt_manifest:
  "ex_Manifest e = Some m \<Longrightarrow> \<exists>m'. ex_Manifest (add_opt env endpoint phase err e) = Some m' \<and>
     (mf_Errors m' = [] \<longleftrightarrow> mf_Errors m = [] \<and> err = None)"
  by (auto simp: add_opt_def AddError_def split: option.split)

lemma all_records: "list_all P rs \<longleftrightarrow> (\<forall>i < length rs. P (rs ! i))"
  by (simp add: list_all_length)

lemma runs_and_gathers:
  assumes "complete_runs (length (ex_records e)) runs" and "complete_gathers (length (ex_records e)) gathers"
  shows "list_all (\<lambda>r. ms_Status r = ''complete'') (ex_records (exec_events gathers (exec_events runs e))) \<longleftrightarrow>
     first_error runs = None \<and> first_error gathers = None"
proof -
  let ?n = "length (ex_records e)"
  have g: "complete_gathers (length (ex_records (exec_events runs e))) gathers" using assms(2) by simp
  have "ms_Status (ex_records (exec_events gathers (exec_events runs e)) ! i) = ''complete'' \<longleftrightarrow>
      list_all (\<lambda>ev. ev_client ev = i \<longrightarrow> ev_err ev = None) runs \<and>
      list_all (\<lambda>ev. ev_client ev = i \<longrightarrow> ev_err ev = None) gathers" if "i < ?n" for i
    using gather_status [OF g, of i] run_status [OF assms(1) that] run_not_complete [OF assms(1) that] that by simp
  then have "list_all (\<lambda>r. ms_Status r = ''complete'') (ex_records (exec_events gathers (exec_events runs e))) \<longleftrightarrow>
      (\<forall>i < ?n. list_all (\<lambda>ev. ev_client ev = i \<longrightarrow> ev_err ev = None) runs) \<and>
      (\<forall>i < ?n. list_all (\<lambda>ev. ev_client ev = i \<longrightarrow> ev_err ev = None) gathers)"
    by (simp only: all_records [of "\<lambda>r. ms_Status r = ''complete''"] exec_events_length) blast
  moreover have "list_all (\<lambda>ev. ev_client ev < ?n) runs" "list_all (\<lambda>ev. ev_client ev < ?n) gathers"
    using assms by (simp_all add: complete_runs_def complete_gathers_def)
  ultimately show ?thesis unfolding first_error_None by (simp only: errors_by_client)
qed

lemma finish_started_result:
  assumes "ex_Manifest e = Some m" and "complete_runs (length (ex_records e)) (fe_runs env)"
    and "complete_gathers (length (ex_records e)) (fe_gathers env)" and "\<not> fe_ctx env"
    and "finish_started env e = (errs, safe, e')"
  shows "\<exists>m'. ex_Manifest e' = Some m' \<and> length (ex_records e') = length (ex_records e) \<and>
     ex_Clients e' = ex_Clients e \<and> ex_info e' = ex_info e \<and>
     (mf_Errors m' = [] \<and> list_all (\<lambda>r. ms_Status r = ''complete'') (ex_records e') \<longleftrightarrow> mf_Errors m = [] \<and> errs = [])"
proof -
  let ?runs = "first_error (fe_runs env)" and ?gathers = "first_error (fe_gathers env)"
  define g where "g = exec_events (fe_gathers env) (exec_events (fe_runs env) e)"
  have e': "e' = add_opt env ''server'' ''server_log'' (fe_log env) (add_opt env ''client'' ''gather'' ?gathers
      (add_opt env ''client'' ''run'' ?runs g))"
    and errs: "errs = opt_err ?runs @ opt_err ?gathers @ opt_err (fe_log env)"
    using assms(4,5) by (auto simp: finish_started_def Let_def g_def)
  have "ex_Manifest g = Some m" using assms(1) by (simp add: g_def)
  from add_opt_manifest [OF this, of env "''client''" "''run''" ?runs] obtain m1 where
    m1: "ex_Manifest (add_opt env ''client'' ''run'' ?runs g) = Some m1" "mf_Errors m1 = [] \<longleftrightarrow> mf_Errors m = [] \<and> ?runs = None"
    by blast
  from add_opt_manifest [OF m1(1), of env "''client''" "''gather''" ?gathers] obtain m2 where
    m2: "ex_Manifest (add_opt env ''client'' ''gather'' ?gathers (add_opt env ''client'' ''run'' ?runs g)) = Some m2"
      "mf_Errors m2 = [] \<longleftrightarrow> mf_Errors m1 = [] \<and> ?gathers = None" by blast
  from add_opt_manifest [OF m2(1), of env "''server''" "''server_log''" "fe_log env"] obtain m' where
    "ex_Manifest e' = Some m'"
    "mf_Errors m' = [] \<longleftrightarrow> mf_Errors m = [] \<and> ?runs = None \<and> ?gathers = None \<and> fe_log env = None"
    unfolding e' using m1(2) m2(2) by blast
  moreover have "list_all (\<lambda>r. ms_Status r = ''complete'') (ex_records e') \<longleftrightarrow> ?runs = None \<and> ?gathers = None"
    using runs_and_gathers [OF assms(2,3)] by (simp add: e' g_def)
  moreover have "errs = [] \<longleftrightarrow> ?runs = None \<and> ?gathers = None \<and> fe_log env = None"
    unfolding errs by (auto simp: opt_err_def split: option.split)
  ultimately show ?thesis by (auto simp: e' g_def)
qed

lemma finish_after_status [simp]: "mf_Status (finish_after env safe m) = mf_Status m"
  by (simp add: finish_after_def Let_def split: sum.split)

lemma Finalize_status:
  assumes "ex_Manifest e = Some m"
  shows "\<exists>m1. ex_Manifest (Finalize now c e) = Some m1 \<and> (mf_Status m1 = ''complete'' \<longleftrightarrow>
     \<not> c \<and> mf_Errors m = [] \<and> list_all (\<lambda>r. ms_Status r = ''complete'') (ex_records e))"
proof -
  have "(\<exists>r \<in> set (ex_records e). ms_Status r \<noteq> ''complete'') \<longleftrightarrow>
      \<not> list_all (\<lambda>r. ms_Status r = ''complete'') (ex_records e)" by (simp add: list_all_iff)
  then show ?thesis using assms by (cases c) (simp_all add: Finalize_def Let_def)
qed

text \<open>What is on disk after the deferred part.\<close>

lemma finish_deferred_status:
  assumes "ex_Manifest e = Some m" and "length (ex_records e) = length (ex_Clients e)"
    and "ex_info e = Some m0" and "mf_Status m0 \<noteq> ''complete''"
    and "finish_deferred env (errs, safe, e) = (errs', e')"
  shows "(\<exists>m'. ex_info e' = Some m' \<and> mf_Status m' = ''complete'') \<longleftrightarrow>
     errs' = errs \<and> \<not> fe_ctx_final env \<and> mf_Errors m = [] \<and> list_all (\<lambda>r. ms_Status r = ''complete'') (ex_records e)"
proof -
  define e1 where "e1 = Finalize (fe_now env) (fe_ctx_final env) e"
  define e2 where "e2 = e1\<lparr>ex_Manifest := map_option (finish_after env safe) (ex_Manifest e1)\<rparr>"
  obtain m1 where m1: "ex_Manifest e1 = Some m1" "mf_Status m1 = ''complete'' \<longleftrightarrow>
      \<not> fe_ctx_final env \<and> mf_Errors m = [] \<and> list_all (\<lambda>r. ms_Status r = ''complete'') (ex_records e)"
    using Finalize_status [OF assms(1), of "fe_now env" "fe_ctx_final env"] unfolding e1_def by blast
  then obtain m2 where m2: "ex_Manifest e2 = Some m2" "mf_Status m2 = mf_Status m1" by (simp add: e2_def)
  have info: "ex_info e2 = Some m0" using assms(1,3) by (simp add: e2_def e1_def Finalize_def Let_def)
  obtain werr e3 where w: "WriteInfo (fe_write env) e2 = (werr, e3)" by fastforce
  from WriteInfo_frame [OF w] m2(1) obtain m3 where m3: "ex_info e3 = (if werr = None then Some m3 else ex_info e2)"
    "mf_Status m3 = mf_Status m2" by auto
  show ?thesis
  proof (cases werr)
    case None
    then have "errs' = errs" "e' = e3"
      using assms(5) w by (simp_all add: finish_deferred_def Let_def e1_def [symmetric] e2_def [symmetric])
    then show ?thesis using m3 m2(2) m1(2) None by simp
  next
    case (Some err)
    then have "errs' \<noteq> errs" "ex_info e' = Some m0"
      using assms(5) w m3 info
      by (auto simp: finish_deferred_def Let_def e1_def [symmetric] e2_def [symmetric] AddError_def)
    then show ?thesis using assms(4) by simp
  qed
qed

lemma schedule_launches:
  "case scheduleProcedureInvocation env results round procedure ts proc overrides NewExecutor of
     Returns (Some (path, err, e)) \<Rightarrow> if err = None then launched e else ex_G e = [] \<and> \<not> ex_Started e
   | _ \<Rightarrow> True"
proof (cases "prepare_invocation env results round procedure ts proc overrides")
  case prep: (Returns prep)
  show ?thesis
  proof (cases prep)
    case (Inl err)
    then show ?thesis using prep by (simp add: scheduleProcedureInvocation_def NewExecutor_def)
  next
    case (Inr y)
    obtain ri path params m where y: "y = (ri, path, params, m)" by (metis prod_cases4)
    show ?thesis
    proof (cases "p_Run proc")
      case f: (Some f)
      let ?run = "run_procedure env f ri path params (NewExecutor\<lparr>ex_DeferStart := True, ex_Manifest := Some m\<rparr>)"
      show ?thesis
      proof (cases "\<exists>perr e2. ?run = Returns (Some (perr, e2))")
        case True
        then obtain perr e2 where run: "?run = Returns (Some (perr, e2))" by blast
        obtain serr e where fin: "(case perr of
            Some err \<Rightarrow> (Some (ScheduleErr err), AddError (se_now env) ''client'' ''schedule'' (se_err_text env err) e2)
          | None \<Rightarrow> start_measurements env e2) = (serr, e)" by fastforce
        have "scheduleProcedureInvocation env results round procedure ts proc overrides NewExecutor =
            Returns (Some (path, serr, e))"
          using prep Inr y f run fin by (cases perr) (simp_all add: scheduleProcedureInvocation_def)
        then show ?thesis
          using run_procedure_launched [OF run prepare_invocation_manifest [OF prep [unfolded Inr y]] fin] by simp
      next
        case False
        then have "?run = Returns None \<or> (\<exists>msg. ?run = Panics msg)"
          by (cases ?run) (auto, metis option.exhaust surj_pair)
        then show ?thesis using prep Inr y f by (auto simp: scheduleProcedureInvocation_def)
      qed
    qed (simp add: prep Inr y scheduleProcedureInvocation_def)
  qed
qed (simp add: scheduleProcedureInvocation_def)

text \<open>C13. Nothing is measured before it is documented. Scheduling an invocation either fails, and then
  no measurement was launched; or every client of the procedure was launched, exactly once and in
  order, and before that \<open>info.json\<close> was written with the complete list of measurements, all of them
  still scheduled and without errors. This holds for every procedure and every answer of the
  environment.\<close>

theorem manifest_before_launch:
  "case scheduleProcedureInvocation env results round procedure ts proc overrides NewExecutor of
     Returns (Some (path, err, e)) \<Rightarrow> if err = None then launched e else ex_G e = [] \<and> \<not> ex_Started e
   | _ \<Rightarrow> True"
  by (rule schedule_launches)

lemma finish_status:
  assumes "launched e" and "complete_runs (length (ex_records e)) (fe_runs env)"
    and "complete_gathers (length (ex_records e)) (fe_gathers env)" and "fe_ctx env \<longrightarrow> fe_ctx_final env"
    and "finishProcedureInvocation env e = (errs, e')"
  shows "(\<exists>m. ex_info e' = Some m \<and> mf_Status m = ''complete'') \<longleftrightarrow> errs = [] \<and> \<not> fe_ctx_final env"
proof -
  obtain m0 mi where e: "ex_Manifest e = Some m0" "mf_Errors m0 = []" "ex_info e = Some mi" "mf_Status mi = ''scheduled''"
    "ex_Started e" "length (ex_records e) = length (ex_Clients e)" using assms(1) by (auto simp: launched_def)
  define e2 where "e2 = add_opt env ''client'' ''log_setup'' (fe_setup env) e"
  obtain errs1 safe e3 where fin: "finish_started env e2 = (errs1, safe, e3)" by (metis prod_cases3)
  have dfr: "finish_deferred env (opt_err (fe_setup env) @ errs1, safe, e3) = (errs, e')"
    using assms(5) e(1,5) fin by (simp add: finishProcedureInvocation_def Let_def e2_def)
  obtain errs2 where errs: "errs = (opt_err (fe_setup env) @ errs1) @ errs2"
    using dfr by (auto simp: finish_deferred_def Let_def split: prod.splits option.splits)
  obtain m2 where m2: "ex_Manifest e2 = Some m2" "mf_Errors m2 = [] \<longleftrightarrow> fe_setup env = None"
    using add_opt_manifest [OF e(1)] e(2) unfolding e2_def by metis
  have runs: "complete_runs (length (ex_records e2)) (fe_runs env)" "complete_gathers (length (ex_records e2)) (fe_gathers env)"
    using assms(2,3) by (simp_all add: e2_def)
  have no_setup: "opt_err (fe_setup env) = [] \<longleftrightarrow> fe_setup env = None" by (simp add: opt_err_def split: option.split)
  show ?thesis
  proof (cases "fe_ctx env")
    case True
    then have e3: "ex_records e3 = ex_records (exec_events (fe_runs env) e2)" "ex_info e3 = ex_info e2" "ex_Clients e3 = ex_Clients e2"
      "\<exists>m. ex_Manifest e3 = Some m"
      using fin m2(1) add_opt_manifest by (auto simp: finish_started_def Let_def) (metis exec_events_simps(2))
    then obtain m3 where "ex_Manifest e3 = Some m3" by blast
    from finish_deferred_status [OF this _ _ _ dfr, of mi] show ?thesis
      using assms(4) True e e3 by (simp add: e2_def)
  next
    case False
    obtain m3 where m3: "ex_Manifest e3 = Some m3" "length (ex_records e3) = length (ex_records e2)"
      "ex_Clients e3 = ex_Clients e2" "ex_info e3 = ex_info e2"
      and ok: "mf_Errors m3 = [] \<and> list_all (\<lambda>r. ms_Status r = ''complete'') (ex_records e3) \<longleftrightarrow> mf_Errors m2 = [] \<and> errs1 = []"
      using finish_started_result [OF m2(1) runs False fin] by blast
    have "(\<exists>m. ex_info e' = Some m \<and> mf_Status m = ''complete'') \<longleftrightarrow>
        errs = opt_err (fe_setup env) @ errs1 \<and> \<not> fe_ctx_final env \<and> mf_Errors m3 = [] \<and>
        list_all (\<lambda>r. ms_Status r = ''complete'') (ex_records e3)"
      using finish_deferred_status [OF m3(1) _ _ _ dfr, of mi] m3 e by (simp add: e2_def)
    also have "\<dots> \<longleftrightarrow> errs = opt_err (fe_setup env) @ errs1 \<and> \<not> fe_ctx_final env \<and> fe_setup env = None \<and> errs1 = []"
      using ok m2(2) by blast
    also have "\<dots> \<longleftrightarrow> errs = [] \<and> \<not> fe_ctx_final env" using errs no_setup by auto
    finally show ?thesis .
  qed
qed

text \<open>C8. The verdict of an invocation. For launched measurements, in every interleaving of their
  goroutines and for every answer of the environment: \<open>info.json\<close> ends up with the status
  \<open>complete\<close> exactly when \<open>finishProcedureInvocation\<close> reports no error and the context has not been
  cancelled by then.\<close>

theorem complete_iff_no_error:
  assumes "launched e" and "complete_runs (length (ex_records e)) (fe_runs env)"
    and "complete_gathers (length (ex_records e)) (fe_gathers env)" and "fe_ctx env \<longrightarrow> fe_ctx_final env"
    and "finishProcedureInvocation env e = (errs, e')"
  shows "(\<exists>m. ex_info e' = Some m \<and> mf_Status m = ''complete'') \<longleftrightarrow> errs = [] \<and> \<not> fe_ctx_final env"
  using assms by (rule finish_status)

definition example_launched :: executor where
  "example_launched = Start (snd (WriteInfo example_write example_planned))"

definition example_finish :: finish_env where
  "example_finish = \<lparr>fe_now = 500, fe_setup = None, fe_runs = [RunBegin 0 100, RunEnd 0 200 None False], fe_ctx = False,
     fe_abort = None, fe_gathers = [GatherEnd 0 300 None], fe_log = None, fe_ctx_final = False, fe_load = [],
     fe_remote = Inr [], fe_write = example_write\<rparr>"

lemma example_launched_ok: "launched example_launched" "length (ex_records example_launched) = 1"
proof -
  obtain e1 where w: "WriteInfo example_write example_planned = (None, e1)" by (metis example_write_ok prod.collapse)
  have planned: "length (ex_records example_planned) = length (ex_Clients example_planned)"
    by (simp add: example_planned_def)
  have "list_all (\<lambda>r. ms_Status r = ''scheduled'') (ex_records e1)"
    using list_all_map_eq [OF WriteInfo_status [OF w planned], of "\<lambda>s. s = ''scheduled''"]
    by (simp add: example_planned_def example_measurement_def new_measurement_def)
  then show "launched example_launched" "length (ex_records example_launched) = 1"
    using WriteInfo_frame [OF w] w
    by (auto simp: example_launched_def launched_def Start_def launch_def example_planned_def NewExecutor_def
        empty_manifest_def)
qed

theorem complete_iff_no_error_witness:
  "\<exists>m. ex_info (snd (finishProcedureInvocation example_finish example_launched)) = Some m \<and> mf_Status m = ''complete''"
proof -
  let ?r = "finishProcedureInvocation example_finish example_launched"
  have runs: "complete_runs (length (ex_records example_launched)) (fe_runs example_finish)"
    "complete_gathers (length (ex_records example_launched)) (fe_gathers example_finish)"
    "fe_ctx example_finish \<longrightarrow> fe_ctx_final example_finish" "\<not> fe_ctx_final example_finish"
    by (auto simp: complete_runs_def complete_gathers_def example_finish_def example_launched_ok)
  have deferred: "fst (finish_deferred example_finish (errs, safe, e)) = errs" for errs safe e
    using example_write_ok by (simp add: finish_deferred_def Let_def case_prod_beta example_finish_def)
  have fields: "fe_setup example_finish = None" "fe_ctx example_finish = False" "fe_log example_finish = None"
    "first_error (fe_runs example_finish) = None" "first_error (fe_gathers example_finish) = None"
    by (simp_all add: example_finish_def first_error_def List.map_filter_simps)
  have "ex_Started example_launched" "ex_Manifest example_launched \<noteq> None"
    using example_launched_ok(1) by (auto simp: launched_def)
  then have "fst ?r = []"
    by (simp add: finishProcedureInvocation_def finish_started_def Let_def fields deferred add_opt_def opt_err_def)
  then have "?r = ([], snd ?r)" by (metis prod.collapse)
  from complete_iff_no_error [OF example_launched_ok(1) runs(1-3) this] show ?thesis using runs(4) by simp
qed

section \<open>Rounds\<close>

text \<open>The first \<open>j\<close> invocations of a list succeed, each with its executor.\<close>

definition invocations_ok :: "(nat \<Rightarrow> inv_env) \<Rightarrow> string \<Rightarrow> string \<Rightarrow> procedure_func procedure \<Rightarrow> (nat \<times> param_map) list \<Rightarrow>
    executor list \<Rightarrow> nat \<Rightarrow> bool" where
  "invocations_ok env results procedure proc xs es j \<longleftrightarrow>
     list_all (\<lambda>i. run_invocation (env i) results procedure proc (xs ! i) = Returns (Some (None, [es ! i]))) [0..<j]"

lemma run_invocation_ok:
  assumes "run_invocation env results procedure proc x = Returns (Some (None, es))"
  shows "\<exists>e. es = [e]"
proof -
  have go: "\<not> iv_ctx env" "iv_dial env = None" "\<not> iv_ctx2 env"
    using assms by (auto simp: run_invocation_def split: if_splits option.splits)
  let ?r = "scheduleProcedureInvocation (iv_sched env) results (fst x) procedure (iv_ts env) proc (snd x) NewExecutor"
  show ?thesis
  proof (cases ?r)
    case (Returns r)
    show ?thesis
    proof (cases r)
      case (Some y)
      obtain path err e where "y = (path, err, e)" by (cases y) auto
      then show ?thesis
        using assms go Returns Some by (auto simp: run_invocation_def split: if_splits prod.splits)
    qed (use assms go Returns in \<open>simp add: run_invocation_def\<close>)
  qed (use assms go in \<open>simp add: run_invocation_def\<close>)
qed

lemma run_loop_outcome:
  assumes "run_loop env results procedure proc k acc xs = Returns (Some (err, es))"
  shows "\<exists>fs j. es = acc @ fs \<and> invocations_ok (\<lambda>i. env (k + i)) results procedure proc xs fs j \<and>
     (case err of
        None \<Rightarrow> j = length xs \<and> length fs = length xs
      | Some e \<Rightarrow> j < length xs \<and> j \<le> length fs \<and>
          run_invocation (env (k + j)) results procedure proc (xs ! j) = Returns (Some (Some e, drop j fs)))"
  using assms
proof (induction xs arbitrary: k acc)
  case Nil
  then show ?case by (auto simp: invocations_ok_def intro: exI [of _ 0])
next
  case (Cons x xs)
  obtain r0 where r0: "run_invocation (env k) results procedure proc x = Returns r0"
    using Cons.prems by (auto simp: panics_bind_Returns)
  then obtain e0 fs0 where "r0 = Some (e0, fs0)" using Cons.prems by (cases r0) auto
  with r0 have r: "run_invocation (env k) results procedure proc x = Returns (Some (e0, fs0))" by simp
  show ?case
  proof (cases e0)
    case (Some e)
    then show ?thesis
      using Cons.prems r by (intro exI [of _ fs0] exI [of _ 0]) (auto simp: invocations_ok_def)
  next
    case None
    obtain f where f: "fs0 = [f]" using run_invocation_ok r None by blast
    have "run_loop env results procedure proc (Suc k) (acc @ [f]) xs = Returns (Some (err, es))"
      using Cons.prems r None f by simp
    from Cons.IH [OF this] obtain fs j where IH: "es = (acc @ [f]) @ fs"
      "invocations_ok (\<lambda>i. env (Suc k + i)) results procedure proc xs fs j"
      "case err of None \<Rightarrow> j = length xs \<and> length fs = length xs
        | Some e \<Rightarrow> j < length xs \<and> j \<le> length fs \<and>
            run_invocation (env (Suc k + j)) results procedure proc (xs ! j) = Returns (Some (Some e, drop j fs))" by blast
    have range: "[0..<Suc j] = 0 # map Suc [0..<j]" by (simp add: map_Suc_upt upt_conv_Cons del: upt_Suc)
    have "invocations_ok (\<lambda>i. env (k + i)) results procedure proc (x # xs) (f # fs) (Suc j)"
      unfolding invocations_ok_def range using r None f IH(2)
      by (simp add: invocations_ok_def list.pred_map comp_def del: map_Suc_upt)
    then show ?thesis
      using IH(1,3) by (intro exI [of _ "f # fs"] exI [of _ "Suc j"]) (auto split: option.splits)
  qed
qed

text \<open>The events of an invocation are those of all the measurements it launched.\<close>

definition settles :: "inv_env \<Rightarrow> string \<Rightarrow> string \<Rightarrow> procedure_func procedure \<Rightarrow> nat \<times> param_map \<Rightarrow> bool" where
  "settles env results procedure proc x \<longleftrightarrow>
     (case scheduleProcedureInvocation (iv_sched env) results (fst x) procedure (iv_ts env) proc (snd x) NewExecutor of
        Returns (Some (path, None, e)) \<Rightarrow>
          complete_runs (length (ex_records e)) (fe_runs (iv_finish env)) \<and>
          complete_gathers (length (ex_records e)) (fe_gathers (iv_finish env)) \<and>
          (fe_ctx (iv_finish env) \<longrightarrow> fe_ctx_final (iv_finish env))
      | _ \<Rightarrow> True)"

lemma clean_segs_nonempty: "[] \<notin> set acc \<Longrightarrow> [] \<notin> set (clean_segs rooted acc xs)"
  by (induction rooted acc xs rule: clean_segs.induct) (auto split: list.splits)

lemma filepath_Clean_nonempty: "filepath_Clean p \<noteq> []"
proof -
  have "join_with ''/'' segs \<noteq> []" if "segs \<noteq> []" "[] \<notin> set segs" for segs
    using that by (cases segs rule: remdups_adj.cases) auto
  then show ?thesis using clean_segs_nonempty [of "[]"] by (auto simp: filepath_Clean_def Let_def)
qed

lemma filepath_Join_nonempty: "b \<noteq> [] \<Longrightarrow> filepath_Join a b \<noteq> []"
  by (simp add: filepath_Join_def filepath_Clean_nonempty)

lemma invocation_name_nonempty: "invocation_name procedure params = Returns name \<Longrightarrow> name \<noteq> []"
  by (auto simp: invocation_name_def split: option.splits pvalue.splits)

lemma scheduled_path:
  assumes "scheduleProcedureInvocation env results round procedure ts proc overrides e0 = Returns (Some (path, None, e))"
  shows "path \<noteq> []"
proof -
  note defs = scheduleProcedureInvocation_def Let_def
  obtain y where y: "prepare_invocation env results round procedure ts proc overrides = Returns y"
    using assms by (cases "prepare_invocation env results round procedure ts proc overrides") (simp_all add: defs)
  obtain ri path' params m where y2: "y = Inr (ri, path', params, m)"
    using assms y by (cases y) (auto simp: defs)
  obtain f where f: "p_Run proc = Some f" using assms y y2 by (cases "p_Run proc") (simp_all add: defs)
  obtain r where r: "run_procedure env f ri path' params (e0\<lparr>ex_DeferStart := True, ex_Manifest := Some m\<rparr>) = Returns (Some r)"
    using assms y y2 f
    by (cases "run_procedure env f ri path' params (e0\<lparr>ex_DeferStart := True, ex_Manifest := Some m\<rparr>)")
      (simp_all add: defs split: option.splits)
  obtain perr e2 where "r = (perr, e2)" by (cases r)
  then have "path' = path" using assms y y2 f r by (cases perr) (simp_all add: defs split: prod.splits)
  then have "prepare_invocation env results round procedure ts proc overrides = Returns (Inr (ri, path, params, m))"
    using y y2 by simp
  then obtain name ri' where "invocation_name procedure params = Returns name" "mkResultPath env results ri' name = Inr path"
    by (auto simp: prepare_invocation_def panics_bind_Returns Let_def split: option.splits sum.splits)
      (metis sum.exhaust)
  then show ?thesis
    using invocation_name_nonempty [of procedure params name]
    by (auto simp: mkResultPath_def filepath_Join_nonempty split: option.splits)
qed

lemma run_invocation_complete:
  assumes "run_invocation env results procedure proc x = Returns (Some (None, [e]))"
    and "settles env results procedure proc x"
  shows "(\<exists>m. ex_info e = Some m \<and> mf_Status m = ''complete'') \<longleftrightarrow> \<not> fe_ctx_final (iv_finish env)"
proof -
  let ?s = "scheduleProcedureInvocation (iv_sched env) results (fst x) procedure (iv_ts env) proc (snd x) NewExecutor"
  have "\<not> iv_ctx env" "iv_dial env = None" "\<not> iv_ctx2 env"
    using assms(1) by (auto simp: run_invocation_def split: if_splits option.splits)
  then have run: "panics_bind ?s (\<lambda>r. case r of None \<Rightarrow> Returns None
      | Some (path, serr, e1) \<Rightarrow>
          (case (if path \<noteq> [] then finishProcedureInvocation (iv_finish env) e1 else ([], e1)) of (errs, e') \<Rightarrow>
             Returns (Some (if serr = None \<and> errs = [] then None else Some (InvocationFailed serr errs), [e'])))) =
      Returns (Some (None, [e]))"
    using assms(1) by (simp add: run_invocation_def)
  then obtain path serr e1 where s: "?s = Returns (Some (path, serr, e1))"
    by (cases ?s) (auto split: option.splits)
  then have fin: "(if path \<noteq> [] then finishProcedureInvocation (iv_finish env) e1 else ([], e1)) = ([], e)"
    and sched: "?s = Returns (Some (path, None, e1))"
    using run by (auto split: prod.splits if_splits)
  have "finishProcedureInvocation (iv_finish env) e1 = ([], e)" using fin scheduled_path [OF sched] by simp
  moreover have "launched e1"
    using schedule_launches [of "iv_sched env" results "fst x" procedure "iv_ts env" proc "snd x"] unfolding sched by simp
  ultimately show ?thesis using assms(2) finish_status [of e1 "iv_finish env" "[]" e] unfolding settles_def sched by auto
qed

text \<open>C38. The rounds of an experiment: \<open>Run\<close> performs the invocations of a procedure round after
  round, in each round in the order of \<open>prepareOverrides\<close> (downlink before uplink). Without an
  error it has performed exactly all of them; otherwise all invocations before one were
  successful, that one reports the error, and nothing is invoked after it. Nothing runs at all when
  the parameters are refused.\<close>

theorem Client_Run_rounds:
  "case Client_Run None env results reg name params ord rounds of
     LogErr e \<Rightarrow> False
   | Refused e \<Rightarrow> prepareOverrides reg name params ord = Inl e
   | Ran (Returns (Some (err, es))) \<Rightarrow>
       (\<exists>proc j. prepareOverrides reg name params ord = Inr (proc, invocations proc params) \<and>
          list_all (\<lambda>i. run_invocation (env i) results name proc
              (i div length (invocations proc params), invocations proc params ! (i mod length (invocations proc params))) =
            Returns (Some (None, [es ! i]))) [0..<j] \<and>
          (case err of
             None \<Rightarrow> j = rounds * length (invocations proc params) \<and> length es = j
           | Some e \<Rightarrow> j < rounds * length (invocations proc params) \<and>
               run_invocation (env j) results name proc
                 (j div length (invocations proc params), invocations proc params ! (j mod length (invocations proc params))) =
               Returns (Some (Some e, drop j es))))
   | _ \<Rightarrow> True"
proof (cases "prepareOverrides reg name params ord")
  case (Inr p)
  then obtain proc where p: "p = (proc, invocations proc params)"
    by (auto simp: prepareOverrides_def split: option.splits prod.splits)
  let ?ps = "invocations proc params"
  let ?xs = "List.product [0..<rounds] ?ps"
  have nth: "?xs ! i = (i div length ?ps, ?ps ! (i mod length ?ps))" if "i < rounds * length ?ps" for i
  proof -
    have "0 < length ?ps" using that by (cases "length ?ps") auto
    then have "i div length ?ps < rounds" using that by (simp add: less_mult_imp_div_less)
    then show ?thesis using that List.product_nth [of i "[0..<rounds]" ?ps] by simp
  qed
  show ?thesis
  proof (cases "\<exists>err es. run_loop env results name proc 0 [] ?xs = Returns (Some (err, es))")
    case True
    then obtain err es where run: "run_loop env results name proc 0 [] ?xs = Returns (Some (err, es))" by blast
    from run_loop_outcome [OF run, unfolded append_Nil add_0] obtain j where ok: "invocations_ok env results name proc ?xs es j"
      and out: "case err of None \<Rightarrow> j = length ?xs \<and> length es = length ?xs
        | Some e \<Rightarrow> j < length ?xs \<and> j \<le> length es \<and>
            run_invocation (env j) results name proc (?xs ! j) = Returns (Some (Some e, drop j es))" by blast
    have "j \<le> rounds * length ?ps" using out by (auto split: option.splits)
    then have "list_all (\<lambda>i. run_invocation (env i) results name proc (i div length ?ps, ?ps ! (i mod length ?ps)) =
        Returns (Some (None, [es ! i]))) [0..<j]"
      using ok nth by (simp add: invocations_ok_def list_all_iff)
    moreover have "case err of None \<Rightarrow> j = rounds * length ?ps \<and> length es = j
        | Some e \<Rightarrow> j < rounds * length ?ps \<and>
            run_invocation (env j) results name proc (j div length ?ps, ?ps ! (j mod length ?ps)) =
            Returns (Some (Some e, drop j es))"
      using out nth [of j] by (auto split: option.splits)
    ultimately show ?thesis using Inr p run by (simp add: Client_Run_def) blast
  next
    case False
    then have "run_loop env results name proc 0 [] ?xs = Returns None \<or> (\<exists>m. run_loop env results name proc 0 [] ?xs = Panics m)"
      by (cases "run_loop env results name proc 0 [] ?xs") (auto, metis option.exhaust surj_pair)
    then show ?thesis using Inr p by (auto simp: Client_Run_def)
  qed
qed (simp add: Client_Run_def)

end
