(* ===== verification/Udp_Endpoints.thy ===== *)
theory Udp_Endpoints
  imports Measurement_Client "HOL-Library.Signed_Division"
begin

text \<open>
  The UDP senders and the UDP receiver (\<open>pkg/udp.go\<close>) around the paced sender: the burst sender, the
  periodic sender, the receiver with its grace period, the listener that hands out one connection,
  and the choice between own and kernel timestamps (\<open>selectMsgsSent\<close> of \<open>pkg/txtsreader.go\<close>). Clock,
  context and the kernel answer through events; \<open>enc\<close> is the packet encoder of the paced sender.
\<close>

section \<open>The listener\<close>

text \<open>The channel of a \<open>DummyListener\<close>: the connection until it is accepted, and whether it is closed.
  \<open>None\<close> is an \<open>Accept\<close> that blocks.\<close>

type_synonym 'c listener = "'c list \<times> bool"

definition NewDummyListener :: "'c \<Rightarrow> 'c listener" where
  "NewDummyListener conn = ([conn], False)"

fun Accept :: "'c listener \<Rightarrow> ((string + 'c) \<times> 'c listener) option" where
  "Accept (conn # cs, closed) = Some (Inr conn, (cs, closed))"
| "Accept ([], True) = Some (Inl ''DummyListener closed'', ([], True))"
| "Accept ([], False) = None"

definition Close :: "'c listener \<Rightarrow> 'c listener" where
  "Close l = (fst l, True)"

section \<open>Burst sender\<close>

datatype udp_error = UdpEncodeErr encode_error | UdpSendErr

text \<open>The messages prepared before anything is sent, with the random offset of each padding.\<close>

fun burst_prepare :: "encoder \<Rightarrow> (nat \<Rightarrow> nat) \<Rightarrow> u64 \<Rightarrow> nat \<Rightarrow> nat \<Rightarrow> udp_error + (u8 list \<times> msg_sent) list" where
  "burst_prepare enc draws pad i 0 = Inr []"
| "burst_prepare enc draws pad i (Suc left) =
     (case enc (draws i) (of_nat i) pad of
        Inl e \<Rightarrow> Inl (UdpEncodeErr e)
      | Inr buf \<Rightarrow>
          (case burst_prepare enc draws pad (Suc i) left of
             Inl e \<Rightarrow> Inl e
           | Inr rest \<Rightarrow> Inr ((buf, \<lparr>s_Seq = of_nat i, s_TsSent = 0, s_Len = 8 + pad\<rparr>) # rest)))"

text \<open>The answer of \<open>SendMsgs\<close>: how many messages were sent, or also an error and whether it is a
  time-out.\<close>

datatype burst_answer = BurstSent nat | BurstErr int bool

record burst_round =
  br_ctx_err :: bool
  br_now :: gtime
  br_send :: "nat \<Rightarrow> burst_answer"

definition stamp :: "nat \<Rightarrow> nat \<Rightarrow> gtime \<Rightarrow> msg_sent list \<Rightarrow> msg_sent list" where
  "stamp from n now msgs =
     map (\<lambda>i. if from \<le> i \<and> i < from + n then (msgs ! i)\<lparr>s_TsSent := now\<rparr> else msgs ! i) [0..<length msgs]"

text \<open>\<open>msgsSent[:n]\<close> of a slice whose length is its capacity.\<close>

definition reslice :: "nat \<Rightarrow> 'a list \<Rightarrow> 'a list panics" where
  "reslice n xs = (if n \<le> length xs then Returns (take n xs) else Panics ''slice bounds out of range'')"

text \<open>The result is \<open>msgsSent\<close> with the datagrams the socket took.\<close>

type_synonym udp_output = "msg_sent list \<times> u8 list list"

definition burst_return :: "nat \<Rightarrow> msg_sent list \<Rightarrow> u8 list list \<Rightarrow> (udp_error + udp_output) panics" where
  "burst_return sentN msgs out = panics_bind (reslice sentN msgs) (\<lambda>ms. Returns (Inr (ms, out)))"

function burst_send_loop :: "(nat \<Rightarrow> burst_round) \<Rightarrow> u8 list list \<Rightarrow> nat \<Rightarrow> nat \<Rightarrow> nat \<Rightarrow> msg_sent list \<Rightarrow>
    u8 list list \<Rightarrow> (udp_error + udp_output) panics" where
  "burst_send_loop env bufs i num sentN msgs out =
     (if sentN < num then
        if br_ctx_err (env i) then burst_return sentN msgs out
        else
          let numRound = min 1024 (num - sentN);
              msgs' = stamp sentN numRound (br_now (env i)) msgs;
              tx = take numRound (drop sentN bufs)
          in (case br_send (env i) numRound of
                BurstErr n timeout \<Rightarrow>
                  let sentN' = (if n > 0 then sentN + nat n else sentN) in
                  if timeout then burst_return sentN' msgs' (out @ take (nat n) tx)
                  else Returns (Inl UdpSendErr)
              | BurstSent n \<Rightarrow>
                  if n \<noteq> numRound then burst_return (sentN + n) msgs' (out @ take n tx)
                  else burst_send_loop env bufs (Suc i) num (sentN + n) msgs' (out @ take n tx))
      else burst_return sentN msgs out)"
  by pat_completeness auto
termination
  by (relation "measure (\<lambda>(env, bufs, i, num, sentN, msgs, out). num - sentN)") auto

definition BurstSender_run :: "encoder \<Rightarrow> (nat \<Rightarrow> nat) \<Rightarrow> (nat \<Rightarrow> burst_round) \<Rightarrow> burst_params \<Rightarrow>
    (udp_error + udp_output) panics" where
  "BurstSender_run enc draws env p =
     (case burst_prepare enc draws (b_Pad p) 0 (unat (b_Num p)) of
        Inl e \<Rightarrow> Returns (Inl e)
      | Inr ms \<Rightarrow> burst_send_loop env (map fst ms) 0 (unat (b_Num p)) 0 (map snd ms) [])"

section \<open>Periodic sender\<close>

text \<open>\<open>1e9/p.Interval.Nanoseconds()\<close> divides integers; the product with the seconds is a floating-point
  number whose use as a capacity is not modelled.\<close>

definition periodic_rate :: "periodic_params \<Rightarrow> int panics" where
  "periodic_rate p = (if pe_Interval p = 0 then Panics ''integer divide by zero''
     else Returns (1000000000 sdiv pe_Interval p))"

datatype periodic_event = PeriodicTick gtime write_outcome | PeriodicEnd

primrec periodic_loop :: "encoder \<Rightarrow> (nat \<Rightarrow> nat) \<Rightarrow> u64 \<Rightarrow> nat \<Rightarrow> msg_sent list \<Rightarrow> u8 list list \<Rightarrow> periodic_event list \<Rightarrow>
    (udp_error + udp_output) option" where
  "periodic_loop enc draws pad seq msgs out [] = None"
| "periodic_loop enc draws pad seq msgs out (ev # evs) =
     (case ev of
        PeriodicEnd \<Rightarrow> Some (Inr (msgs, out))
      | PeriodicTick now w \<Rightarrow>
          (case enc (draws seq) (of_nat seq) pad of
             Inl e \<Rightarrow> Some (Inl (UdpEncodeErr e))
           | Inr buf \<Rightarrow>
               (case w of
                  WriteOk \<Rightarrow> periodic_loop enc draws pad (Suc seq)
                    (msgs @ [\<lparr>s_Seq = of_nat seq, s_TsSent = now, s_Len = 8 + pad\<rparr>]) (out @ [buf]) evs
                | WriteTimeout \<Rightarrow> Some (Inr (msgs, out))
                | WriteFail e \<Rightarrow> Some (Inl UdpSendErr))))"

definition PeriodicSender_run :: "encoder \<Rightarrow> (nat \<Rightarrow> nat) \<Rightarrow> periodic_params \<Rightarrow> periodic_event list \<Rightarrow>
    (udp_error + udp_output) option panics" where
  "PeriodicSender_run enc draws p evs =
     panics_bind (periodic_rate p) (\<lambda>_.
       if pe_Interval p \<le> 0 then Panics ''non-positive interval for NewTicker''
       else Returns (periodic_loop enc draws (pe_Pad p) 0 [] [] evs))"

section \<open>Receiver\<close>

text \<open>A received message: its bytes and the kernel timestamps of its control messages, in order
  (the control messages are parsed by \<open>golang.org/x/sys/unix\<close>).\<close>

record udp_packet =
  up_data :: "u8 list"
  up_stamps :: "gtime list"

primrec udp_batch :: "bool \<Rightarrow> gtime \<Rightarrow> msg_rcvd list \<Rightarrow> udp_packet list \<Rightarrow> msg_rcvd list panics" where
  "udp_batch tsEnabled now msgs [] = Returns msgs"
| "udp_batch tsEnabled now msgs (p # ps) =
     (if up_data p = [] then udp_batch tsEnabled now msgs ps
      else
        panics_bind (Decode \<lparr>m_Seq = 0, m_PadN = 0\<rparr> (up_data p)) (\<lambda>m.
          let ts = (if tsEnabled then fold (\<lambda>t _. t) (up_stamps p) now else now) in
          udp_batch tsEnabled now
            (msgs @ [\<lparr>r_Seq = m_Seq m, r_TsRcvd = ts, r_Len = of_nat (length (up_data p))\<rparr>]) ps))"

datatype ctx_state = CtxOpen | CtxDeadline | CtxCanceled

text \<open>One \<open>RecvMsgs\<close>: a batch with the time after it, a time-out with the state of the context and
  the time then, or another error.\<close>

datatype recv_event = RecvBatch "udp_packet list" gtime | RecvTimeout ctx_state gtime | RecvFail string

primrec udp_receive :: "bool \<Rightarrow> gtime \<Rightarrow> msg_rcvd list \<Rightarrow> recv_event list \<Rightarrow> (string + msg_rcvd list) option panics" where
  "udp_receive tsEnabled tsRcvd msgs [] = Returns None"
| "udp_receive tsEnabled tsRcvd msgs (ev # evs) =
     (case ev of
        RecvFail e \<Rightarrow> Returns (Some (Inl e))
      | RecvTimeout ctx now \<Rightarrow>
          if ctx = CtxOpen then udp_receive tsEnabled tsRcvd msgs evs
          else if ctx = CtxDeadline \<and> time_Sub now tsRcvd < 250 * millisecond
          then udp_receive tsEnabled tsRcvd msgs evs
          else Returns (Some (Inr msgs))
      | RecvBatch ps now \<Rightarrow>
          panics_bind (udp_batch tsEnabled now msgs ps) (\<lambda>msgs'. udp_receive tsEnabled now msgs' evs))"

definition UDPReceiver_Run :: "bool \<Rightarrow> recv_event list \<Rightarrow> (string + msg_rcvd list) option panics" where
  "UDPReceiver_Run tsEnabled evs = udp_receive tsEnabled 0 [] evs"

section \<open>Kernel transmission timestamps\<close>

text \<open>A message of the error queue of the socket: its length, flags, control length, capacity of the
  control buffer, and its control messages as \<open>golang.org/x/sys/unix\<close> parses them one by one (level,
  type and data, or an error). Constants and layout are those of 64-bit little-endian Linux.\<close>

type_synonym cmsg = "int \<times> int \<times> u8 list"

record queue_msg =
  qm_N :: nat
  qm_Flags :: u32
  qm_NN :: int
  qm_cap :: nat
  qm_cmsgs :: "(string + cmsg) list"

datatype oob_error = OobTruncated | OobLength int | OobParse string | OobShortTimestamp | OobNanoseconds int
  | OobShortErr | OobMissing

definition le_at :: "nat \<Rightarrow> nat \<Rightarrow> u8 list \<Rightarrow> nat" where
  "le_at from n data = le_val (take n (drop from data))"

primrec oob_loop :: "msg_sent \<Rightarrow> bool \<Rightarrow> bool \<Rightarrow> (string + cmsg) list \<Rightarrow> oob_error + msg_sent" where
  "oob_loop sentMsg tsSet seqSet [] = (if \<not> tsSet \<or> \<not> seqSet then Inl OobMissing else Inr sentMsg)"
| "oob_loop sentMsg tsSet seqSet (c # cs) =
     (case c of
        Inl e \<Rightarrow> Inl (OobParse e)
      | Inr (level, typ, data) \<Rightarrow>
          if level = 1 \<and> typ = 37 then
            if length data < 3 * 16 then Inl OobShortTimestamp
            else
              let sec = sint (of_nat (le_at 0 8 data) :: u64); nsec = sint (of_nat (le_at 8 8 data) :: u64) in
              if nsec < 0 \<or> nsec \<ge> second then Inl (OobNanoseconds nsec)
              else oob_loop (sentMsg\<lparr>s_TsSent := sec * second + nsec\<rparr>) True seqSet cs
          else if level = 0 \<and> typ = 11 \<or> level = 41 \<and> typ = 25 then
            if length data < 16 then Inl OobShortErr
            else if le_at 0 4 data = 42 \<and> data ! 4 = 4
            then oob_loop (sentMsg\<lparr>s_Seq := of_nat (le_at 12 4 data)\<rparr>) tsSet True cs
            else oob_loop sentMsg tsSet seqSet cs
          else oob_loop sentMsg tsSet seqSet cs)"

definition parseOOB :: "queue_msg \<Rightarrow> oob_error + msg_sent" where
  "parseOOB m =
     (if bit (qm_Flags m) 3 then Inl OobTruncated
      else if qm_NN m < 0 \<or> qm_NN m > int (qm_cap m) then Inl (OobLength (qm_NN m))
      else oob_loop \<lparr>s_Seq = 0, s_TsSent = 0, s_Len = of_nat (qm_N m)\<rparr> False False (qm_cmsgs m))"

text \<open>One \<open>RecvMsgs\<close> of the reader: a batch, a closed connection, a deadline and whether the context is
  over, or another error; with an error, the number of messages.\<close>

datatype queue_event = QueueBatch "queue_msg list" | QueueClosed nat | QueueDeadline nat bool | QueueFail nat string

text \<open>\<open>TxTsReader.Run\<close>: the error it returns and what its deferred call puts into the channel.\<close>

primrec TxTsReader_Run :: "msg_sent list \<Rightarrow> queue_event list \<Rightarrow> (string option \<times> msg_sent list) option panics" where
  "TxTsReader_Run sentMsgs [] = Returns None"
| "TxTsReader_Run sentMsgs (ev # evs) =
     (case ev of
        QueueBatch ms \<Rightarrow> TxTsReader_Run (sentMsgs @ concat (map (\<lambda>m. case parseOOB m of Inl e \<Rightarrow> [] | Inr s \<Rightarrow> [s]) ms)) evs
      | QueueClosed n \<Rightarrow> if n > 0 then Panics ''n != 0'' else Returns (Some (None, sentMsgs))
      | QueueDeadline n over \<Rightarrow>
          if n > 0 then Panics ''n != 0''
          else if over then Returns (Some (None, sentMsgs)) else TxTsReader_Run sentMsgs evs
      | QueueFail n e \<Rightarrow> if n > 0 then Panics ''n != 0'' else Returns (Some (Some e, sentMsgs)))"

section \<open>Own or kernel timestamps\<close>

primrec first_different :: "u64 \<Rightarrow> nat \<Rightarrow> msg_sent list \<Rightarrow> int" where
  "first_different len i [] = -1"
| "first_different len i (m # ms) = (if s_Len m \<noteq> len then int i else first_different len (Suc i) ms)"

definition firstDifferentLen :: "msg_sent list \<Rightarrow> int" where
  "firstDifferentLen msgs = (case msgs of [] \<Rightarrow> -1 | m # _ \<Rightarrow> first_different (s_Len m) 0 msgs)"

text \<open>\<open>selectMsgsSent\<close>: \<open>None\<close> is a sender without timestamp reader.\<close>

definition selectMsgsSent :: "msg_sent list option \<Rightarrow> msg_sent list \<Rightarrow> msg_sent list" where
  "selectMsgsSent reader sentMsgs =
     (case reader of
        None \<Rightarrow> sentMsgs
      | Some tsMsgs \<Rightarrow>
          if length sentMsgs \<noteq> length tsMsgs then sentMsgs
          else if firstDifferentLen sentMsgs \<noteq> -1 then sentMsgs
          else map (\<lambda>m. m\<lparr>s_Len := s_Len (sentMsgs ! 0)\<rparr>) tsMsgs)"

section \<open>What the senders promise\<close>

text \<open>Records numbered from 0, and one datagram for each that carries its number and has its length.\<close>

definition udp_sent :: "msg_sent list \<Rightarrow> u8 list list \<Rightarrow> bool" where
  "udp_sent msgs ds \<longleftrightarrow>
     map s_Seq msgs = map of_nat [0..<length msgs] \<and>
     map (\<lambda>d. (get_be 8 d, of_nat (length d))) ds = map (\<lambda>m. (Some (s_Seq m), s_Len m)) msgs"

lemma udp_sent_iff:
  "udp_sent msgs ds \<longleftrightarrow> length ds = length msgs \<and>
     (\<forall>k < length msgs. s_Seq (msgs ! k) = of_nat k \<and> get_be 8 (ds ! k) = Some (of_nat k :: u64) \<and>
        s_Len (msgs ! k) = of_nat (length (ds ! k)))"
  unfolding udp_sent_def list_eq_iff_nth_eq by (auto simp: nth_map)

lemma udp_sent_take: "udp_sent msgs ds \<Longrightarrow> udp_sent (take n msgs) (take n ds)"
  by (auto simp: udp_sent_iff)

lemma udp_sent_snoc:
  "udp_sent msgs ds \<Longrightarrow> get_be 8 d = Some (of_nat (length msgs) :: u64) \<Longrightarrow>
   udp_sent (msgs @ [\<lparr>s_Seq = of_nat (length msgs), s_TsSent = t, s_Len = of_nat (length d)\<rparr>]) (ds @ [d])"
  by (auto simp: udp_sent_iff nth_append less_Suc_eq)

lemma udp_sent_stamp: "udp_sent msgs ds \<Longrightarrow> udp_sent (stamp from n t msgs) ds"
  by (auto simp: udp_sent_iff stamp_def)

lemma length_stamp [simp]: "length (stamp from n t msgs) = length msgs"
  by (simp add: stamp_def)

lemma sent_ok_udp_sent: "sent_ok r \<Longrightarrow> udp_sent (rs_msgs r) (map snd (rs_wire r))"
  unfolding udp_sent_def sent_ok_def by (auto simp: case_prod_beta' comp_def)


text \<open>The documented behaviour of \<open>SendMsgs\<close>: it never sends more messages than it was given.\<close>

definition burst_contract :: "(nat \<Rightarrow> burst_round) \<Rightarrow> bool" where
  "burst_contract env \<longleftrightarrow> (\<forall>i m. case br_send (env i) m of BurstSent n \<Rightarrow> n \<le> m | BurstErr n t \<Rightarrow> n \<le> int m)"

lemma burst_contract_dest:
  "burst_contract env \<Longrightarrow> br_send (env i) m = BurstSent k \<Longrightarrow> k \<le> m"
  "burst_contract env \<Longrightarrow> br_send (env i) m = BurstErr j t \<Longrightarrow> j \<le> int m"
  unfolding burst_contract_def by (drule spec [of _ i], drule spec [of _ m], simp)+

context packet_encoder begin

lemma burst_prepare_numbers:
  assumes "burst_prepare enc draws pad i n = Inr ms"
  shows "length ms = n \<and> (\<forall>k < n. get_be 8 (fst (ms ! k)) = Some (of_nat (i + k) :: u64) \<and>
     s_Seq (snd (ms ! k)) = of_nat (i + k) \<and> s_Len (snd (ms ! k)) = of_nat (length (fst (ms ! k))))"
  using assms
proof (induction n arbitrary: i ms)
  case (Suc n)
  obtain buf rest where e: "enc (draws i) (of_nat i) pad = Inr buf" and r: "burst_prepare enc draws pad (Suc i) n = Inr rest"
    and ms: "ms = (buf, \<lparr>s_Seq = of_nat i, s_TsSent = 0, s_Len = 8 + pad\<rparr>) # rest"
    using Suc.prems by (auto split: sum.splits)
  have "of_nat (length buf) = 8 + pad" using enc_length [OF e] by simp
  then show ?case
    using Suc.IH [OF r] enc_seq [OF e] by (auto simp: ms nth_Cons' less_Suc_eq_0_disj)
qed simp

lemma burst_prepare_sent:
  "burst_prepare enc draws pad 0 n = Inr ms \<Longrightarrow> udp_sent (map snd ms) (map fst ms) \<and> length ms = n"
  using burst_prepare_numbers [of draws pad 0 n ms] by (auto simp: udp_sent_iff)

end

lemma burst_return_sent:
  assumes "udp_sent msgs bufs" and "sentN \<le> length msgs" and "out = take sentN bufs"
  shows "\<exists>ms ds. burst_return sentN msgs out = Returns (Inr (ms, ds)) \<and> udp_sent ms ds \<and> length ms = sentN"
  using assms udp_sent_take [OF assms(1), of sentN]
  by (auto simp: burst_return_def reslice_def)

lemma burst_send_loop_sent:
  assumes "burst_contract env" and "udp_sent msgs bufs" and "length msgs = num" and "sentN \<le> num"
  shows "(\<exists>e. burst_send_loop env bufs i num sentN msgs (take sentN bufs) = Returns (Inl e)) \<or>
     (\<exists>ms ds. burst_send_loop env bufs i num sentN msgs (take sentN bufs) = Returns (Inr (ms, ds)) \<and>
        udp_sent ms ds \<and> sentN \<le> length ms \<and> length ms \<le> num)"
  using assms(2-)
proof (induction "num - sentN" arbitrary: i sentN msgs rule: less_induct)
  case less
  let ?n = "min 1024 (num - sentN)" and ?m = "stamp sentN (min 1024 (num - sentN)) (br_now (env i)) msgs"
  have m: "udp_sent ?m bufs" "length ?m = num" using less.prems by (simp_all add: udp_sent_stamp)
  have ret: "\<exists>ms ds. burst_return (sentN + k) ms0 (take (sentN + k) bufs) = Returns (Inr (ms, ds)) \<and> udp_sent ms ds \<and>
      sentN \<le> length ms \<and> length ms \<le> num" if "udp_sent ms0 bufs" "length ms0 = num" "sentN + k \<le> num" for k ms0
    using burst_return_sent [of ms0 bufs "sentN + k"] that by fastforce
  show ?case
  proof (cases "sentN < num \<and> \<not> br_ctx_err (env i)")
    case False
    then show ?thesis using ret [OF less.prems(1,2), of 0] less.prems(3) by (subst burst_send_loop.simps) auto
  next
    case live: True
    show ?thesis
    proof (cases "br_send (env i) ?n")
      case (BurstSent k)
      then have k: "k \<le> ?n" by (rule burst_contract_dest [OF assms(1)])
      then have fits: "sentN + k \<le> num" "min k ?n = k" using live by auto
      show ?thesis
      proof (cases "k = ?n")
        case True
        with live have less_n: "num - (sentN + k) < num - sentN" by auto
        have "burst_send_loop env bufs i num sentN msgs (take sentN bufs) =
            burst_send_loop env bufs (Suc i) num (sentN + k) ?m (take (sentN + k) bufs)"
          using live BurstSent True fits(2)
          by (subst burst_send_loop.simps) (simp add: Let_def flip: take_add del: burst_send_loop.simps)
        then show ?thesis using less.hyps [OF less_n m fits(1), of "Suc i"] by (auto simp del: burst_send_loop.simps)
      next
        case False
        then have "burst_send_loop env bufs i num sentN msgs (take sentN bufs) =
            burst_return (sentN + k) ?m (take (sentN + k) bufs)"
          using live BurstSent fits(2)
          by (subst burst_send_loop.simps) (simp add: Let_def flip: take_add del: burst_send_loop.simps)
        then show ?thesis using ret [OF m fits(1)] by simp
      qed
    next
      case (BurstErr k timeout)
      then have "k \<le> int ?n" by (rule burst_contract_dest [OF assms(1)])
      then have fits: "sentN + nat k \<le> num" "min (nat k) ?n = nat k" using live by auto
      show ?thesis
      proof (cases timeout)
        case True
        then have "burst_send_loop env bufs i num sentN msgs (take sentN bufs) =
            burst_return (sentN + nat k) ?m (take (sentN + nat k) bufs)"
          using live BurstErr fits(2)
          by (subst burst_send_loop.simps) (simp add: Let_def flip: take_add del: burst_send_loop.simps)
        then show ?thesis using ret [OF m fits(1)] by simp
      next
        case False
        then show ?thesis using live BurstErr
          by (subst burst_send_loop.simps) (simp add: Let_def del: burst_send_loop.simps)
      qed
    qed
  qed
qed

lemma periodic_loop_sent:
  assumes "packet_encoder enc cap" and "udp_sent msgs out"
    and "periodic_loop enc draws pad (length msgs) msgs out evs = Some (Inr (ms, ds))"
  shows "udp_sent ms ds"
  using assms(2-)
proof (induction evs arbitrary: msgs out)
  case (Cons ev evs)
  show ?case
  proof (cases ev)
    case (PeriodicTick now w)
    show ?thesis
    proof (cases "enc (draws (length msgs)) (of_nat (length msgs)) pad")
      case (Inr buf)
      have len: "8 + pad = of_nat (length buf)" using packet_encoder.enc_length [OF assms(1) Inr] by simp
      show ?thesis
        using Cons PeriodicTick Inr udp_sent_snoc [OF Cons.prems(1) packet_encoder.enc_seq [OF assms(1) Inr], of now]
        by (cases w) (auto simp: len)
    qed (use Cons PeriodicTick in simp)
  qed (use Cons in simp)
qed simp

section \<open>What the receiver makes of what it reads\<close>

datatype recv_end = StillReading | Stopped | Failed string

definition stops :: "gtime \<Rightarrow> ctx_state \<Rightarrow> gtime \<Rightarrow> bool" where
  "stops prev ctx now \<longleftrightarrow> ctx \<noteq> CtxOpen \<and> \<not> (ctx = CtxDeadline \<and> time_Sub now prev < 250 * millisecond)"

text \<open>The packets read, each with the time of its batch, until the receiver stops.\<close>

primrec packets_read :: "gtime \<Rightarrow> recv_event list \<Rightarrow> (udp_packet \<times> gtime) list \<times> recv_end" where
  "packets_read prev [] = ([], StillReading)"
| "packets_read prev (ev # evs) =
     (case ev of
        RecvFail e \<Rightarrow> ([], Failed e)
      | RecvTimeout ctx now \<Rightarrow> if stops prev ctx now then ([], Stopped) else packets_read prev evs
      | RecvBatch ps now \<Rightarrow> (case packets_read now evs of (qs, e) \<Rightarrow> (map (\<lambda>p. (p, now)) ps @ qs, e)))"

definition is_probe :: "udp_packet \<times> gtime \<Rightarrow> bool" where
  "is_probe = (\<lambda>(p, t). up_data p = [])"

definition undecodable :: "udp_packet \<times> gtime \<Rightarrow> bool" where
  "undecodable = (\<lambda>(p, t). up_data p \<noteq> [] \<and> length (up_data p) < 8)"

definition record_of :: "bool \<Rightarrow> udp_packet \<times> gtime \<Rightarrow> msg_rcvd" where
  "record_of tsEnabled = (\<lambda>(p, t).
     \<lparr>r_Seq = the (get_be 8 (up_data p)),
      r_TsRcvd = (if tsEnabled then last (t # up_stamps p) else t),
      r_Len = of_nat (length (up_data p))\<rparr>)"

definition records_of :: "bool \<Rightarrow> (udp_packet \<times> gtime) list \<Rightarrow> msg_rcvd list" where
  "records_of tsEnabled ps = map (record_of tsEnabled) (filter (\<lambda>p. \<not> is_probe p) ps)"

lemma fold_last: "fold (\<lambda>t _. t) ts t0 = last (t0 # ts)"
  by (induction ts arbitrary: t0) auto

lemma decode_record:
  "8 \<le> length bs \<Longrightarrow> \<exists>s. get_be 8 bs = Some s \<and> Decode m bs = Returns (m\<lparr>m_Seq := s\<rparr>)"
  using be64.dec_total [of bs] by (auto simp: Decode_def)

lemma decode_short: "length bs < 8 \<Longrightarrow> Decode m bs = Panics ''index out of range''"
  using be64.dec_short [of bs] by (simp add: Decode_def)

lemma udp_batch_records:
  "udp_batch tsEnabled now msgs ps =
     (if list_ex (\<lambda>p. undecodable (p, now)) ps then Panics ''index out of range''
      else Returns (msgs @ records_of tsEnabled (map (\<lambda>p. (p, now)) ps)))"
proof (induction ps arbitrary: msgs)
  case (Cons p ps)
  consider "up_data p = []" | "up_data p \<noteq> []" "length (up_data p) < 8" | "8 \<le> length (up_data p)" by linarith
  then show ?case
  proof cases
    case 1
    then show ?thesis by (simp add: Cons undecodable_def records_of_def is_probe_def)
  next
    case 2
    then show ?thesis by (simp add: undecodable_def decode_short)
  next
    case 3
    then obtain s where "get_be 8 (up_data p) = Some s" "Decode \<lparr>m_Seq = 0, m_PadN = 0\<rparr> (up_data p) = Returns \<lparr>m_Seq = s, m_PadN = 0\<rparr>"
      using decode_record [OF 3, of "\<lparr>m_Seq = 0, m_PadN = 0\<rparr>"] by auto
    moreover have "up_data p \<noteq> []" using 3 by auto
    ultimately show ?thesis
      using 3 by (simp add: Cons undecodable_def records_of_def is_probe_def record_of_def fold_last Let_def)
  qed
qed (simp add: records_of_def)

lemma udp_receive_reads:
  "udp_receive tsEnabled tsRcvd msgs evs =
     (case packets_read tsRcvd evs of (ps, e) \<Rightarrow>
        if list_ex undecodable ps then Panics ''index out of range''
        else case e of
          StillReading \<Rightarrow> Returns None
        | Failed m \<Rightarrow> Returns (Some (Inl m))
        | Stopped \<Rightarrow> Returns (Some (Inr (msgs @ records_of tsEnabled ps))))"
proof (induction evs arbitrary: tsRcvd msgs)
  case (Cons ev evs)
  show ?case
  proof (cases ev)
    case (RecvBatch ps now)
    obtain qs e where r: "packets_read now evs = (qs, e)" by fastforce
    show ?thesis
    proof (cases "list_ex (\<lambda>p. undecodable (p, now)) ps")
      case True
      then have "list_ex undecodable (map (\<lambda>p. (p, now)) ps @ qs)" by (auto simp: list_ex_iff)
      then show ?thesis using RecvBatch r True by (simp add: udp_batch_records)
    next
      case False
      then have "list_ex undecodable (map (\<lambda>p. (p, now)) ps @ qs) = list_ex undecodable qs"
        by (auto simp: list_ex_iff)
      then show ?thesis using RecvBatch r Cons.IH [of now] False
        by (cases e) (simp_all add: udp_batch_records records_of_def)
    qed
  qed (auto simp: Cons.IH stops_def records_of_def)
qed simp

lemma records_of_nth:
  assumes "map (up_data \<circ> fst) (filter (\<lambda>p. \<not> is_probe p) ps) = map ((!) ds) ks"
  shows "map r_Seq (records_of tsEnabled ps) = map (\<lambda>k. the (get_be 8 (ds ! k))) ks"
    and "map r_Len (records_of tsEnabled ps) = map (\<lambda>k. of_nat (length (ds ! k))) ks"
proof -
  have "map r_Seq (records_of tsEnabled ps) =
      map (\<lambda>d. the (get_be 8 d)) (map (up_data \<circ> fst) (filter (\<lambda>p. \<not> is_probe p) ps))"
    by (simp add: records_of_def record_of_def case_prod_beta)
  then show "map r_Seq (records_of tsEnabled ps) = map (\<lambda>k. the (get_be 8 (ds ! k))) ks"
    unfolding assms by simp
  have "map r_Len (records_of tsEnabled ps) =
      map (\<lambda>d. of_nat (length d)) (map (up_data \<circ> fst) (filter (\<lambda>p. \<not> is_probe p) ps))"
    by (simp add: records_of_def record_of_def case_prod_beta)
  then show "map r_Len (records_of tsEnabled ps) = map (\<lambda>k. of_nat (length (ds ! k))) ks"
    unfolding assms by simp
qed

section \<open>Choosing the timestamps keeps the shape\<close>

lemma first_different_none: "first_different len i ms = -1 \<longleftrightarrow> (\<forall>m \<in> set ms. s_Len m = len)"
  by (induction ms arbitrary: i) auto

lemma selectMsgsSent_length [simp]: "length (selectMsgsSent reader msgs) = length msgs"
  by (auto simp: selectMsgsSent_def split: option.splits)

lemma selectMsgsSent_Len: "k < length msgs \<Longrightarrow> s_Len (selectMsgsSent reader msgs ! k) = s_Len (msgs ! k)"
proof (cases reader)
  case (Some ts)
  assume k: "k < length msgs"
  show ?thesis
  proof (cases "length msgs = length ts \<and> firstDifferentLen msgs = -1")
    case True
    moreover have "s_Len (msgs ! k) = s_Len (msgs ! 0)"
      using True k nth_mem [OF k] by (cases msgs) (auto simp: firstDifferentLen_def first_different_none)
    ultimately show ?thesis using k Some by (simp add: selectMsgsSent_def)
  qed (auto simp: selectMsgsSent_def Some)
qed (simp add: selectMsgsSent_def)

section \<open>Any sender with any receiver\<close>

text \<open>Deliveries: the packets read that are not empty probes are datagrams of the sender, in any order,
  any of them lost or duplicated; \<open>ks\<close> are their numbers.\<close>

definition udp_delivered :: "u8 list list \<Rightarrow> nat list \<Rightarrow> (udp_packet \<times> gtime) list \<Rightarrow> bool" where
  "udp_delivered ds ks ps \<longleftrightarrow> list_all (\<lambda>k. k < length ds) ks \<and>
     map (up_data \<circ> fst) (filter (\<lambda>p. \<not> is_probe p) ps) = map ((!) ds) ks"

locale udp_sender =
  fixes runs :: "msg_sent list \<Rightarrow> u8 list list \<Rightarrow> bool"
  assumes runs_sent: "runs msgs ds \<Longrightarrow> udp_sent msgs ds"
begin

lemma datagram_length:
  assumes "runs msgs ds" and "k < length ds"
  shows "8 \<le> length (ds ! k)"
proof -
  have "get_be 8 (ds ! k) = Some (of_nat k :: u64)" using runs_sent [OF assms(1)] assms(2) by (simp add: udp_sent_iff)
  then show ?thesis using be64.dec_short [of "ds ! k"] by (cases "length (ds ! k) < 8") auto
qed

lemma none_undecodable:
  assumes "runs msgs ds" and "udp_delivered ds ks ps"
  shows "\<not> list_ex undecodable ps"
proof
  assume "list_ex undecodable ps"
  then obtain p where p: "p \<in> set ps" "undecodable p" by (auto simp: list_ex_iff)
  then have "p \<in> set (filter (\<lambda>p. \<not> is_probe p) ps)" by (auto simp: undecodable_def is_probe_def)
  then have "(up_data \<circ> fst) p \<in> set (map (up_data \<circ> fst) (filter (\<lambda>p. \<not> is_probe p) ps))" by simp
  then obtain k where "k \<in> set ks" "up_data (fst p) = ds ! k"
    using assms(2) unfolding udp_delivered_def by auto
  moreover have "8 \<le> length (ds ! k)" if "k \<in> set ks" for k
    using datagram_length [OF assms(1)] assms(2) that by (simp add: udp_delivered_def list_all_iff)
  ultimately show False using p(2) by (fastforce simp: undecodable_def case_prod_beta)
qed

lemma received_records:
  assumes "runs msgs ds" and "udp_delivered ds ks ps"
  shows "map r_Seq (records_of tsEnabled ps) = map of_nat ks"
    and "map r_Len (records_of tsEnabled ps) = map (\<lambda>k. s_Len (msgs ! k)) ks"
proof -
  have small: "\<forall>k \<in> set ks. k < length msgs"
    and eq: "map (up_data \<circ> fst) (filter (\<lambda>p. \<not> is_probe p) ps) = map ((!) ds) ks"
    using assms runs_sent [OF assms(1)] by (simp_all add: udp_delivered_def list_all_iff udp_sent_iff)
  show "map r_Seq (records_of tsEnabled ps) = map of_nat ks"
    unfolding records_of_nth(1) [OF eq] using small runs_sent [OF assms(1)] by (simp add: udp_sent_iff)
  show "map r_Len (records_of tsEnabled ps) = map (\<lambda>k. s_Len (msgs ! k)) ks"
    unfolding records_of_nth(2) [OF eq] using small runs_sent [OF assms(1)] by (simp add: udp_sent_iff)
qed

lemma receiver_returns:
  assumes "runs msgs ds" and "packets_read 0 evs = (ps, Stopped)" and "udp_delivered ds ks ps"
  shows "UDPReceiver_Run tsEnabled evs = Returns (Some (Inr (records_of tsEnabled ps)))"
  using none_undecodable [OF assms(1,3)] assms(2) by (simp add: UDPReceiver_Run_def udp_receive_reads)

end

lemma copies_count:
  assumes "map r_Seq rcvd = map of_nat ks" and "\<forall>k \<in> set ks. k < 2 ^ 64" and "k < 2 ^ 64"
  shows "length (filter (\<lambda>m. r_Seq m = of_nat k) rcvd) = count_list ks k"
proof -
  have "length (filter (\<lambda>m. r_Seq m = of_nat k) rcvd) = length (filter (\<lambda>s. s = of_nat k) (map r_Seq rcvd))"
    by (simp add: filter_map comp_def)
  also have "\<dots> = length (filter (\<lambda>j. (of_nat j :: u64) = of_nat k) ks)"
    unfolding assms(1) by (simp add: filter_map comp_def)
  also have "filter (\<lambda>j. (of_nat j :: u64) = of_nat k) ks = filter (\<lambda>j. k = j) ks"
    using assms(2,3) by (intro filter_cong) (auto simp: of_nat_eq64)
  finally show ?thesis by (simp add: count_list_eq_length_filter)
qed

lemma row_copies:
  assumes "length msgs \<le> 2 ^ 64" and "k < length msgs"
  shows "let row = processUDP msgs rcvd ! k; n = length (filter (\<lambda>m. r_Seq m = of_nat k) rcvd) in
     Len row = s_Len (msgs ! k) \<and> (Lost row \<longleftrightarrow> n = 0) \<and> length (TsRcvdDups row) = n - 1"
proof -
  have len: "length (arrivals (of_nat k) rcvd) = length (filter (\<lambda>m. r_Seq m = of_nat k) rcvd)"
    by (simp add: arrivals_def)
  show ?thesis using len
    by (cases "arrivals (of_nat k) rcvd")
       (auto simp: processUDP_nth [OF assms] result_for_def lost_result_def rcvd_result_def Let_def)
qed

context udp_sender begin

lemma result_rows:
  assumes "runs msgs ds" and "length msgs \<le> 2 ^ 64" and "udp_delivered ds ks ps"
    and "length sel = length msgs" and "\<forall>k < length msgs. s_Len (sel ! k) = s_Len (msgs ! k)" and "k < length msgs"
  shows "let row = processUDP sel (records_of tsEnabled ps) ! k in
     Len row = s_Len (msgs ! k) \<and> (Lost row \<longleftrightarrow> k \<notin> set ks) \<and> length (TsRcvdDups row) = count_list ks k - 1"
proof -
  have "\<forall>j \<in> set ks. j < 2 ^ 64"
    using assms(2,3) runs_sent [OF assms(1)] by (auto simp: udp_delivered_def list_all_iff udp_sent_iff intro: less_le_trans)
  then have "length (filter (\<lambda>m. r_Seq m = of_nat k) (records_of tsEnabled ps)) = count_list ks k"
    using assms(2,6) by (intro copies_count received_records(1) [OF assms(1,3)]) auto
  then show ?thesis
    using row_copies [of sel k "records_of tsEnabled ps"] assms(2,4-6) by (simp add: Let_def count_list_0_iff)
qed

end

lemma burst_run_sent:
  assumes "burst_contract env"
  shows "case BurstSender_run (encode_packet (paddingPool pad_draws)) draws env p of
     Panics m \<Rightarrow> False
   | Returns (Inl e) \<Rightarrow> True
   | Returns (Inr (ms, ds)) \<Rightarrow> udp_sent ms ds \<and> length ms \<le> unat (b_Num p)"
proof (cases "burst_prepare (encode_packet (paddingPool pad_draws)) draws (b_Pad p) 0 (unat (b_Num p))")
  case (Inr ms)
  have prep: "udp_sent (map snd ms) (map fst ms)" "length ms = unat (b_Num p)"
    using pooled.burst_prepare_sent [OF Inr] by simp_all
  show ?thesis
    using burst_send_loop_sent [OF assms prep(1), of "unat (b_Num p)" 0 0] prep(2) Inr
    by (auto simp: BurstSender_run_def simp del: burst_send_loop.simps)
qed (simp add: BurstSender_run_def)

lemma burst_sender_sent:
  "burst_contract env \<Longrightarrow> BurstSender_run (encode_packet (paddingPool pad_draws)) draws env p = Returns (Inr (msgs, ds)) \<Longrightarrow>
   udp_sent msgs ds"
  by (drule burst_run_sent [where pad_draws = pad_draws and draws = draws and p = p], simp)

inductive udp_run :: "msg_sent list \<Rightarrow> u8 list list \<Rightarrow> bool" where
  burst_run: "burst_contract env \<Longrightarrow>
    BurstSender_run (encode_packet (paddingPool pad_draws)) draws env p = Returns (Inr (msgs, ds)) \<Longrightarrow> udp_run msgs ds"
| periodic_run: "PeriodicSender_run (encode_packet (paddingPool pad_draws)) draws p evs = Returns (Some (Inr (msgs, ds))) \<Longrightarrow>
    udp_run msgs ds"
| rate_run: "list_all segment_fits params \<Longrightarrow> \<forall>i. list_all event_ok (sg_events (ss_seg (env i))) \<Longrightarrow>
    runSegments (encode_packet (paddingPool pad_draws)) ctx env start params new_rate_sender = (res, r) \<Longrightarrow>
    udp_run (rs_msgs r) (map snd (rs_wire r))"

interpretation udp: udp_sender udp_run
proof
  fix msgs ds
  assume "udp_run msgs ds"
  then show "udp_sent msgs ds"
  proof cases
    case burst_run
    then show ?thesis by (rule burst_sender_sent)
  next
    case (periodic_run pad_draws draws p evs)
    then have "periodic_loop (encode_packet (paddingPool pad_draws)) draws (pe_Pad p) (length ([] :: msg_sent list)) [] [] evs =
        Some (Inr (msgs, ds))"
      by (auto simp: PeriodicSender_run_def periodic_rate_def split: if_splits)
    then show ?thesis by (rule periodic_loop_sent [OF pooled.packet_encoder_axioms, rotated]) (simp add: udp_sent_def)
  next
    case (rate_run params env pad_draws ctx start res r)
    then have "seg_post (Some (earlier ctx (start + total_duration params))) (total_budget params) new_rate_sender
        (runSegments_loop (encode_packet (paddingPool pad_draws)) ctx env 0 start params new_rate_sender)"
      by (intro pooled.runSegments_loop_post) simp_all
    then have "sent_ok r" using rate_run by (simp add: seg_post_def runSegments_def)
    then show ?thesis using rate_run by (simp add: sent_ok_udp_sent)
  qed
qed

section \<open>Properties\<close>

text \<open>C3. A UDP test end to end, for each of the three senders: whatever subset of its datagrams arrives,
  in whatever order and with whatever duplicates, and with empty probes in between, a receiver that stops
  returns exactly these packets with their numbers and lengths; and the result table, with own or kernel
  send times, has a row for each record, marks exactly the packets that did not arrive as lost and lists
  every further copy as a duplicate.\<close>

theorem udp_test_exact:
  assumes "udp_run msgs ds" and "length msgs \<le> 2 ^ 64" and "packets_read 0 evs = (ps, Stopped)"
    and "udp_delivered ds ks ps"
  shows "\<exists>rcvd. UDPReceiver_Run tsEnabled evs = Returns (Some (Inr rcvd)) \<and>
     map r_Seq rcvd = map of_nat ks \<and> map r_Len rcvd = map (\<lambda>k. s_Len (msgs ! k)) ks \<and>
     length (processUDP (selectMsgsSent reader msgs) rcvd) = length msgs \<and>
     (\<forall>k < length msgs. let row = processUDP (selectMsgsSent reader msgs) rcvd ! k in
        Len row = s_Len (msgs ! k) \<and> (Lost row \<longleftrightarrow> k \<notin> set ks) \<and> length (TsRcvdDups row) = count_list ks k - 1)"
proof -
  have "length (processUDP (selectMsgsSent reader msgs) (records_of tsEnabled ps)) = length msgs"
    using processUDP_length [of "selectMsgsSent reader msgs"] assms(2) by simp
  moreover have "\<forall>k < length msgs. let row = processUDP (selectMsgsSent reader msgs) (records_of tsEnabled ps) ! k in
        Len row = s_Len (msgs ! k) \<and> (Lost row \<longleftrightarrow> k \<notin> set ks) \<and> length (TsRcvdDups row) = count_list ks k - 1"
    using udp.result_rows [OF assms(1,2,4)] by (simp add: selectMsgsSent_Len)
  ultimately show ?thesis
    using udp.receiver_returns [OF assms(1,3,4), of tsEnabled] udp.received_records [OF assms(1,4), of tsEnabled] by blast
qed

text \<open>Three packets, of which the last arrives twice and the second never, in two batches.\<close>

definition example_periodic :: periodic_params where
  "example_periodic = \<lparr>pe_Interval = millisecond, pe_Duration = second, pe_Pad = 0\<rparr>"

definition example_datagrams :: "u8 list list" where
  "example_datagrams = [[0, 0, 0, 0, 0, 0, 0, 0], [0, 0, 0, 0, 0, 0, 0, 1], [0, 0, 0, 0, 0, 0, 0, 2]]"

definition example_events :: "recv_event list" where
  "example_events =
     [RecvBatch [\<lparr>up_data = example_datagrams ! 2, up_stamps = [70]\<rparr>, \<lparr>up_data = [], up_stamps = []\<rparr>] 75,
      RecvTimeout CtxOpen 76,
      RecvBatch [\<lparr>up_data = example_datagrams ! 0, up_stamps = []\<rparr>, \<lparr>up_data = example_datagrams ! 2, up_stamps = [80]\<rparr>] 85,
      RecvTimeout CtxDeadline 90, RecvTimeout CtxDeadline (300 * millisecond)]"

lemma example_header: "put_be 8 (of_nat 0 :: u64) = [0, 0, 0, 0, 0, 0, 0, 0]"
  "put_be 8 (of_nat 1 :: u64) = [0, 0, 0, 0, 0, 0, 0, 1]" "put_be 8 (of_nat 2 :: u64) = [0, 0, 0, 0, 0, 0, 0, 2]"
  by code_simp+

lemma example_encode: "encode_packet (paddingPool draws) d s 0 = Inr (put_be 8 s)"
proof -
  have "paddingPool draws \<noteq> []" by (metis length_paddingPool list.size(3) zero_neq_numeral)
  then show ?thesis using encode_packet_total [of "paddingPool draws" 0 d s] by simp
qed

lemma example_udp_run:
  "udp_run [\<lparr>s_Seq = 0, s_TsSent = 10, s_Len = 8\<rparr>, \<lparr>s_Seq = 1, s_TsSent = 20, s_Len = 8\<rparr>,
     \<lparr>s_Seq = 2, s_TsSent = 30, s_Len = 8\<rparr>] example_datagrams"
proof (rule periodic_run)
  show "PeriodicSender_run (encode_packet (paddingPool (\<lambda>_. 0))) (\<lambda>_. 0) example_periodic
      [PeriodicTick 10 WriteOk, PeriodicTick 20 WriteOk, PeriodicTick 30 WriteOk, PeriodicEnd] =
    Returns (Some (Inr ([\<lparr>s_Seq = 0, s_TsSent = 10, s_Len = 8\<rparr>, \<lparr>s_Seq = 1, s_TsSent = 20, s_Len = 8\<rparr>,
     \<lparr>s_Seq = 2, s_TsSent = 30, s_Len = 8\<rparr>], example_datagrams)))"
    using example_header
    by (simp add: PeriodicSender_run_def periodic_rate_def example_periodic_def example_encode example_datagrams_def)
qed

theorem udp_test_exact_witness:
  "\<exists>rcvd. UDPReceiver_Run True example_events = Returns (Some (Inr rcvd)) \<and> map r_Seq rcvd = [2, 0, 2] \<and>
     length (processUDP [\<lparr>s_Seq = 0, s_TsSent = 10, s_Len = 8\<rparr>, \<lparr>s_Seq = 1, s_TsSent = 20, s_Len = 8\<rparr>,
       \<lparr>s_Seq = 2, s_TsSent = 30, s_Len = 8\<rparr>] rcvd) = 3"
proof -
  obtain ps where ps: "packets_read 0 example_events = (ps, Stopped)" "udp_delivered example_datagrams [2, 0, 2] ps"
    by (simp add: example_events_def stops_def time_Sub_def udp_delivered_def is_probe_def example_datagrams_def)
  show ?thesis
    using udp_test_exact [OF example_udp_run _ ps, of True None] by (auto simp: selectMsgsSent_def)
qed

text \<open>C24. The UDP receiver on every sequence of reads: it panics exactly when a datagram of one to seven bytes
  arrives before it stops; otherwise it returns a record for every datagram that is not empty, stamped
  by the last kernel timestamp or else by the clock after its batch, or the error of a failed read.\<close>

theorem UDPReceiver_outcome:
  "UDPReceiver_Run tsEnabled evs =
     (let (ps, e) = packets_read 0 evs in
      if list_ex undecodable ps then Panics ''index out of range''
      else case e of
        StillReading \<Rightarrow> Returns None
      | Failed m \<Rightarrow> Returns (Some (Inl m))
      | Stopped \<Rightarrow> Returns (Some (Inr (records_of tsEnabled ps))))"
  by (simp add: UDPReceiver_Run_def udp_receive_reads Let_def split: prod.splits recv_end.splits)

end
