(* ===== verification/Tcp_Endpoints.thy ===== *)
theory Tcp_Endpoints
  imports Result_Rows Net_Modes Udp_Endpoints
begin

text \<open>
  The TCP sender and receiver (\<open>pkg/tcp.go\<close>): the monitor that samples the kernel's connection state,
  the rules by which monitor, transfer and context end a test, and the choice of the congestion
  control algorithm of a socket with the kernel-wide HyStart switch (\<open>pkg/sockets.go\<close>). The kernel, the
  ticker and the contexts answer through events; the third-party packages that decode
  the socket options answer with their results.
\<close>

section \<open>One sample\<close>

text \<open>What one call of \<open>queryTCPOnce\<close> reads: the clock, the answer for \<open>TCP_INFO\<close>, and for BBR the error of
  the socket option and the decoded values.\<close>

record ('st, 'ca) tcp_query =
  tq_now :: gtime
  tq_info :: "string + ('st, 'ca) tcp_info"
  tq_ccinfo :: "string option"
  tq_bbr :: "string + bbr_info"

definition queryTCPInfo :: "('st, 'ca) tcp_query \<Rightarrow> string + ('st, 'ca) tcp_info" where
  "queryTCPInfo q = tq_info q"

definition queryBBRInfo :: "('st, 'ca) tcp_query \<Rightarrow> string + bbr_info" where
  "queryBBRInfo q = (case tq_ccinfo q of Some e \<Rightarrow> Inl e | None \<Rightarrow> tq_bbr q)"

definition queryTCPOnce :: "bool \<Rightarrow> ('st, 'ca) tcp_query \<Rightarrow> string + ('st, 'ca) tcp_metric" where
  "queryTCPOnce bbrUsed q =
     (case queryTCPInfo q of
        Inl e \<Rightarrow> Inl e
      | Inr info \<Rightarrow>
          if bbrUsed then
            (case queryBBRInfo q of
               Inl e \<Rightarrow> Inl e
             | Inr b \<Rightarrow> Inr \<lparr>Time = tq_now q, Info = info, BBRInfo = Some b\<rparr>)
          else Inr \<lparr>Time = tq_now q, Info = info, BBRInfo = None\<rparr>)"

section \<open>The monitor\<close>

datatype cancel_cause = IODone | DeadlineReached | UserAbort

text \<open>The branch each \<open>select\<close> takes: while sampling, and while the send queue drains.\<close>

datatype ('st, 'ca) sample_event =
  SampleTick "('st, 'ca) tcp_query" | SampleDone cancel_cause "('st, 'ca) tcp_query"

datatype ('st, 'ca) drain_event = DrainTick "('st, 'ca) tcp_query" | DrainTimeout

text \<open>\<open>Res\<close> and \<open>Err\<close> when \<open>C\<close> is closed; \<open>None\<close> is a monitor that is still running.\<close>

type_synonym ('st, 'ca) monitor_result = "('st, 'ca) tcp_metric list \<times> string option"

definition queue_empty :: "'ca sys_info \<Rightarrow> bool" where
  "queue_empty s \<longleftrightarrow> UnackedSegs s = 0 \<and> NotSentBytes s = 0"

primrec monitor_drain :: "bool \<Rightarrow> ('st, 'ca) tcp_metric list \<Rightarrow> ('st, 'ca) drain_event list \<Rightarrow>
    ('st, 'ca) monitor_result option panics" where
  "monitor_drain bbrUsed res [] = Returns None"
| "monitor_drain bbrUsed res (ev # evs) =
     (case ev of
        DrainTimeout \<Rightarrow> Returns (Some (res, None))
      | DrainTick q \<Rightarrow>
          (case queryTCPOnce bbrUsed q of
             Inl e \<Rightarrow> Returns (Some (res, Some e))
           | Inr m \<Rightarrow>
               (case Sys (Info m) of
                  None \<Rightarrow> Panics ''nil pointer dereference''
                | Some s \<Rightarrow>
                    if queue_empty s then Returns (Some (res @ [m], None))
                    else monitor_drain bbrUsed (res @ [m]) evs)))"

primrec monitor_sample :: "bool \<Rightarrow> bool \<Rightarrow> ('st, 'ca) tcp_metric list \<Rightarrow> ('st, 'ca) drain_event list \<Rightarrow>
    ('st, 'ca) sample_event list \<Rightarrow> ('st, 'ca) monitor_result option panics" where
  "monitor_sample drainQueue bbrUsed res drain [] = Returns None"
| "monitor_sample drainQueue bbrUsed res drain (ev # evs) =
     (case ev of
        SampleTick q \<Rightarrow>
          (case queryTCPOnce bbrUsed q of
             Inl e \<Rightarrow> Returns (Some (res, Some e))
           | Inr m \<Rightarrow> monitor_sample drainQueue bbrUsed (res @ [m]) drain evs)
      | SampleDone cause q \<Rightarrow>
          (case queryTCPOnce bbrUsed q of
             Inl e \<Rightarrow> Returns (Some (res, Some e))
           | Inr m \<Rightarrow>
               if drainQueue \<and> (cause = IODone \<or> cause = DeadlineReached)
               then monitor_drain bbrUsed (res @ [m]) drain
               else Returns (Some (res @ [m], None))))"

record ('st, 'ca) monitor_env =
  mn_open :: "string option"
  mn_ccName :: "string + string"
  mn_first :: "('st, 'ca) tcp_query"
  mn_samples :: "('st, 'ca) sample_event list"
  mn_drain :: "('st, 'ca) drain_event list"

definition TCPMonitor_Run :: "bool \<Rightarrow> ('st, 'ca) monitor_env \<Rightarrow> ('st, 'ca) monitor_result option panics" where
  "TCPMonitor_Run drainQueue env =
     (case mn_open env of
        Some e \<Rightarrow> Returns (Some ([], Some e))
      | None \<Rightarrow>
          (case mn_ccName env of
             Inl e \<Rightarrow> Returns (Some ([], Some e))
           | Inr ccName \<Rightarrow>
               let bbrUsed = has_prefix ccName ''bbr'' in
               (case queryTCPOnce bbrUsed (mn_first env) of
                  Inl e \<Rightarrow> Returns (Some ([], Some e))
                | Inr m \<Rightarrow> monitor_sample drainQueue bbrUsed [m] (mn_drain env) (mn_samples env))))"

section \<open>Monitor and transfer\<close>

text \<open>The first source the \<open>select\<close> of \<open>runTCPMonitorAndIO\<close> takes, the transfer with its error.\<close>

datatype io_select = MonitorEnded | IOEnded "string option" | TestCtxDone

text \<open>\<open>None\<close> is a call that still waits for the monitor. A panic of the monitor's goroutine ends the program.\<close>

definition runTCPMonitorAndIO :: "io_select \<Rightarrow> ('st, 'ca) monitor_result option panics \<Rightarrow>
    (string + ('st, 'ca) tcp_metric list) option panics" where
  "runTCPMonitorAndIO sel mon =
     (case sel of
        IOEnded (Some ioErr) \<Rightarrow> Returns (Some (Inl ioErr))
      | _ \<Rightarrow> panics_bind mon (\<lambda>r.
          Returns (map_option (\<lambda>(res, err). case err of Some e \<Rightarrow> Inl e | None \<Rightarrow> Inr res) r)))"

section \<open>Socket options\<close>

text \<open>A callback on the raw connection: the error of \<open>SyscallConn\<close>, that of \<open>Control\<close>, and otherwise the error
  the callback stored.\<close>

definition raw_control :: "'e option \<Rightarrow> 'e option \<Rightarrow> 'e option \<Rightarrow> 'e option" where
  "raw_control connErr controlErr cbErr =
     (case connErr of Some e \<Rightarrow> Some e | None \<Rightarrow> (case controlErr of Some e \<Rightarrow> Some e | None \<Rightarrow> cbErr))"

text \<open>Setting an integer option and reading it back.\<close>

datatype option_error = SetOptErr string | GetOptErr string | NotAsExpected int int | RawErr string

definition set_and_check :: "string option \<Rightarrow> string + int \<Rightarrow> int \<Rightarrow> option_error option" where
  "set_and_check setErr got wanted =
     (case setErr of
        Some e \<Rightarrow> Some (SetOptErr e)
      | None \<Rightarrow> (case got of Inl e \<Rightarrow> Some (GetOptErr e)
                 | Inr v \<Rightarrow> if v \<noteq> wanted then Some (NotAsExpected wanted v) else None))"

definition TxTimestampingFlags :: int where
  "TxTimestampingFlags = 2 OR 1 OR 16 OR 64 OR 128 OR 2048"

definition enableTxTimestamping :: "option_error option \<Rightarrow> option_error option \<Rightarrow> string option \<Rightarrow> string + int \<Rightarrow>
    option_error option" where
  "enableTxTimestamping connErr controlErr setErr got =
     raw_control connErr controlErr (set_and_check setErr got TxTimestampingFlags)"

definition enableRxTimestamping :: "option_error option \<Rightarrow> option_error option \<Rightarrow> string option \<Rightarrow> option_error option" where
  "enableRxTimestamping connErr controlErr setErr = raw_control connErr controlErr (map_option SetOptErr setErr)"

definition LeoCCMSS :: int where
  "LeoCCMSS = 1400"

definition LimitTCPMSS :: "option_error option \<Rightarrow> string option \<Rightarrow> string + int \<Rightarrow> int \<Rightarrow> option_error option" where
  "LimitTCPMSS controlErr setErr got mss = raw_control None controlErr (set_and_check setErr got mss)"

text \<open>\<open>setTCPCC\<close>: the name read back is compared as a prefix of the 256-byte buffer.\<close>

datatype cc_error = CCOption option_error | NewCCDiffers string

definition setTCPCC :: "option_error option \<Rightarrow> option_error option \<Rightarrow> string option \<Rightarrow> string + string \<Rightarrow> string \<Rightarrow>
    cc_error option" where
  "setTCPCC connErr controlErr setErr got cc =
     raw_control (map_option CCOption connErr) (map_option CCOption controlErr)
       (case setErr of
          Some e \<Rightarrow> Some (CCOption (SetOptErr e))
        | None \<Rightarrow> (case got of Inl e \<Rightarrow> Some (CCOption (GetOptErr e))
                   | Inr buf \<Rightarrow> if \<not> has_prefix buf cc then Some (NewCCDiffers buf) else None))"

text \<open>The buffer sizes: the answers of \<open>getSocketBuffers\<close> before, after setting them, and after forcing them;
  the result says whether they were forced and whether a warning is logged.\<close>

definition udpBufferSize :: int where
  "udpBufferSize = 30000000"

definition setSocketBuffers :: "string option \<Rightarrow> string option \<Rightarrow> string + int \<times> int \<Rightarrow> string + int \<times> int \<Rightarrow> bool \<times> bool" where
  "setSocketBuffers errWrite errRead got forced =
     (let sizes = (\<lambda>g. case g of Inl e \<Rightarrow> (-1, -1) | Inr p \<Rightarrow> p);
          small = (\<lambda>p. fst p < udpBufferSize \<or> snd p < udpBufferSize)
      in if errWrite \<noteq> None \<or> errRead \<noteq> None \<or> (\<exists>e. got = Inl e) \<or> small (sizes got)
         then (True, small (sizes forced)) else (False, False))"

section \<open>HyStart\<close>

text \<open>The kernel parameter \<open>hystart\<close> of the CUBIC module is one value for all sockets; the state is the
  contents of its file, or the error of reading it.\<close>

datatype hystart_error = HystartRead string | HystartValue string | HystartOpen string | HystartWrite string

definition is_space :: "char \<Rightarrow> bool" where
  "is_space c \<longleftrightarrow> c \<in> {CHR '' '', CHR 0x09, CHR 0x0A, CHR 0x0B, CHR 0x0C, CHR 0x0D}"

definition TrimSpace :: "string \<Rightarrow> string" where
  "TrimSpace s = rev (dropWhile is_space (rev (dropWhile is_space s)))"

definition hystartEnabled :: "string + string \<Rightarrow> hystart_error + bool" where
  "hystartEnabled file =
     (case file of
        Inl e \<Rightarrow> Inl (HystartRead e)
      | Inr data \<Rightarrow>
          if TrimSpace data = ''1'' then Inr True
          else if TrimSpace data = ''0'' then Inr False
          else Inl (HystartValue (TrimSpace data)))"

text \<open>The errors of opening and writing the file; the kernel keeps what was written, with a line break.\<close>

definition enableHystart :: "string option \<Rightarrow> string option \<Rightarrow> bool \<Rightarrow> string + string \<Rightarrow>
    hystart_error option \<times> (string + string)" where
  "enableHystart openErr writeErr enable file =
     (case openErr of
        Some e \<Rightarrow> (Some (HystartOpen e), file)
      | None \<Rightarrow>
          (case writeErr of
             Some e \<Rightarrow> (Some (HystartWrite e), file)
           | None \<Rightarrow> (None, Inr ((if enable then ''1'' else ''0'') @ [CHR 0x0A]))))"

record cca_env =
  ca_available :: "string option"
  ca_conn :: "option_error option"
  ca_control :: "option_error option"
  ca_set :: "string option"
  ca_got :: "string + string"
  ca_hyOpen :: "string option"
  ca_hyWrite :: "string option"

datatype cca_error = NoKernelName string kernel_name_error | SetCCErr cc_error | HystartErr hystart_error

definition applyTCPCCA :: "cca_env \<Rightarrow> tcpcca \<Rightarrow> string + string \<Rightarrow> (cca_error option \<times> (string + string)) panics" where
  "applyTCPCCA env cca file =
     panics_bind (KernelName (ca_available env) cca) (\<lambda>k.
       case k of
         Inl e \<Rightarrow> panics_bind (cca_String cca) (\<lambda>n. Returns (Some (NoKernelName n e), file))
       | Inr kernelName \<Rightarrow>
           (case setTCPCC (ca_conn env) (ca_control env) (ca_set env) (ca_got env) kernelName of
              Some e \<Rightarrow> panics_bind (cca_String cca) (\<lambda>n. Returns (Some (SetCCErr e), file))
            | None \<Rightarrow>
                if cca = CUBIC \<or> cca = CUBIC_NO_HYSTART then
                  (case hystartEnabled file of
                     Inl e \<Rightarrow> Returns (Some (HystartErr e), file)
                   | Inr hy \<Rightarrow>
                       let (e1, file1) = (if cca = CUBIC \<and> \<not> hy
                             then enableHystart (ca_hyOpen env) (ca_hyWrite env) True file else (None, file))
                       in case e1 of
                            Some e \<Rightarrow> Returns (Some (HystartErr e), file1)
                          | None \<Rightarrow>
                              let (e2, file2) = (if cca = CUBIC_NO_HYSTART \<and> hy
                                    then enableHystart (ca_hyOpen env) (ca_hyWrite env) False file1 else (None, file1))
                              in Returns (map_option HystartErr e2, file2))
                else Returns (None, file)))"

section \<open>Sender and receiver\<close>

datatype copy_end = CopyDone | CopyDeadline | CopyReset | CopyFail string

record ('st, 'ca) tcp_env =
  te_cca :: cca_env
  te_linger :: "string option"
  te_copy :: "int \<Rightarrow> copy_end"
  te_select :: "string option \<Rightarrow> io_select"
  te_monitor :: "('st, 'ca) monitor_env"

text \<open>What the sending function reports: anything but the expected end by the deadline is an error.\<close>

definition send_report :: "copy_end \<Rightarrow> string option" where
  "send_report c = (case c of CopyDone \<Rightarrow> None | CopyDeadline \<Rightarrow> None | CopyReset \<Rightarrow> Some ''connection reset'' | CopyFail e \<Rightarrow> Some e)"

definition send_bytes :: "u64 \<Rightarrow> int" where
  "send_bytes bytes = (let n = sint bytes in if n = 0 then 2 ^ 62 else n)"

datatype tcp_error = SetupCCA cca_error | SetupLinger string | TestErr string

definition TCPSender_Run :: "('st, 'ca) tcp_env \<Rightarrow> tcp_params \<Rightarrow> string + string \<Rightarrow>
    ((tcp_error + ('st, 'ca) tcp_metric list) option \<times> (string + string)) panics" where
  "TCPSender_Run env p file =
     panics_bind (applyTCPCCA (te_cca env) (t_CCA p) file) (\<lambda>(err, file').
       case err of
         Some e \<Rightarrow> Returns (Some (Inl (SetupCCA e)), file')
       | None \<Rightarrow>
           (case te_linger env of
              Some e \<Rightarrow> Returns (Some (Inl (SetupLinger e)), file')
            | None \<Rightarrow>
                let drainQueue = t_Bytes p > 0;
                    report = send_report (te_copy env (send_bytes (t_Bytes p)))
                in panics_bind (runTCPMonitorAndIO (te_select env report) (TCPMonitor_Run drainQueue (te_monitor env))) (\<lambda>r.
                     Returns (map_option (\<lambda>x. case x of Inl e \<Rightarrow> Inl (TestErr e) | Inr ms \<Rightarrow> Inr ms) r, file'))))"

text \<open>\<open>TCPReceiver.run\<close>: a reset is expected, since the sender closes its connection with linger 0.\<close>

definition receive_report :: "copy_end \<Rightarrow> string option" where
  "receive_report c = (case c of CopyDone \<Rightarrow> None | CopyDeadline \<Rightarrow> None | CopyReset \<Rightarrow> None | CopyFail e \<Rightarrow> Some e)"

text \<open>\<open>Accept\<close> with its error, and whether the context had ended when it returned.\<close>

definition TCPReceiver_Run :: "(string option \<times> bool) \<Rightarrow> copy_end \<Rightarrow> (string option \<Rightarrow> io_select) \<Rightarrow>
    ('st, 'ca) monitor_env \<Rightarrow> (string + ('st, 'ca) tcp_metric list) option panics" where
  "TCPReceiver_Run accept copy sel mon =
     (case accept of
        (Some e, True) \<Rightarrow> Returns (Some (Inl ''Cancelled while waiting for TCP client''))
      | (Some e, False) \<Rightarrow> Returns (Some (Inl e))
      | (None, _) \<Rightarrow> runTCPMonitorAndIO (sel (receive_report copy)) (TCPMonitor_Run False mon))"

section \<open>What the monitor has sampled\<close>

text \<open>The queries of a run in order: the first one, one per tick until the test is over, one then, and one per
  tick while the queue drains.\<close>

fun until_done :: "('st, 'ca) sample_event list \<Rightarrow> ('st, 'ca) tcp_query list \<times> cancel_cause option" where
  "until_done [] = ([], None)"
| "until_done (SampleTick q # evs) = (case until_done evs of (qs, c) \<Rightarrow> (q # qs, c))"
| "until_done (SampleDone c q # evs) = ([q], Some c)"

fun drain_queries :: "('st, 'ca) drain_event list \<Rightarrow> ('st, 'ca) tcp_query list" where
  "drain_queries [] = []"
| "drain_queries (DrainTick q # evs) = q # drain_queries evs"
| "drain_queries (DrainTimeout # evs) = []"

definition asked :: "('st, 'ca) monitor_env \<Rightarrow> ('st, 'ca) tcp_query list" where
  "asked env = mn_first env # fst (until_done (mn_samples env)) @ drain_queries (mn_drain env)"

definition drains :: "bool \<Rightarrow> ('st, 'ca) sample_event list \<Rightarrow> bool" where
  "drains drainQueue evs \<longleftrightarrow> drainQueue \<and>
     (snd (until_done evs) = Some IODone \<or> snd (until_done evs) = Some DeadlineReached)"

text \<open>\<open>ms\<close> are the samples of the first queries, the next query fails if there is an error.\<close>

definition sampled :: "bool \<Rightarrow> ('st, 'ca) tcp_query list \<Rightarrow> ('st, 'ca) tcp_metric list \<Rightarrow> string option \<Rightarrow> bool" where
  "sampled b qs ms err \<longleftrightarrow> map (queryTCPOnce b) (take (length ms) qs) = map Inr ms \<and>
     (case err of None \<Rightarrow> True | Some e \<Rightarrow> length ms < length qs \<and> queryTCPOnce b (qs ! length ms) = Inl e)"

lemma sampled_Cons: "queryTCPOnce b q = Inr m \<Longrightarrow> sampled b (q # qs) (m # ms) err \<longleftrightarrow> sampled b qs ms err"
  by (simp add: sampled_def split: option.splits)

lemma sampled_fail: "queryTCPOnce b q = Inl e \<Longrightarrow> sampled b (q # qs) [] (Some e)"
  by (simp add: sampled_def)

lemma sampled_Nil: "sampled b qs [] None"
  by (simp add: sampled_def)

lemma sampled_append: "sampled b qs ms None \<Longrightarrow> length ms \<le> length qs \<Longrightarrow> sampled b (qs @ rs) ms None"
  by (simp add: sampled_def)

definition drained :: "('st, 'ca) tcp_metric list \<Rightarrow> bool" where
  "drained ms \<longleftrightarrow> ms \<noteq> [] \<and> (\<exists>s. Sys (Info (last ms)) = Some s \<and> queue_empty s)"

definition missing_Sys :: "bool \<Rightarrow> ('st, 'ca) tcp_query list \<Rightarrow> bool" where
  "missing_Sys b qs \<longleftrightarrow> (\<exists>q \<in> set qs. \<exists>m. queryTCPOnce b q = Inr m \<and> Sys (Info m) = None)"

lemma monitor_drain_sampled:
  "case monitor_drain b res evs of
     Panics m \<Rightarrow> missing_Sys b (drain_queries evs)
   | Returns None \<Rightarrow> DrainTimeout \<notin> set evs
   | Returns (Some (res', err)) \<Rightarrow> \<exists>ms. res' = res @ ms \<and> sampled b (drain_queries evs) ms err \<and>
       (err = None \<longrightarrow> drained ms \<or> DrainTimeout \<in> set evs)"
proof (induction evs arbitrary: res)
  case (Cons ev evs)
  show ?case
  proof (cases ev)
    case (DrainTick q)
    show ?thesis
    proof (cases "queryTCPOnce b q")
      case (Inl e)
      then show ?thesis using DrainTick by (simp add: sampled_fail)
    next
      case (Inr m)
      show ?thesis
      proof (cases "Sys (Info m)")
        case None
        then show ?thesis using DrainTick Inr by (auto simp: missing_Sys_def)
      next
        case (Some s)
        show ?thesis
        proof (cases "queue_empty s")
          case True
          then show ?thesis using DrainTick Inr Some
            by (auto simp: drained_def sampled_Cons sampled_Nil intro!: exI [of _ "[m]"])
        next
          case False
          then have step: "monitor_drain b res (ev # evs) = monitor_drain b (res @ [m]) evs"
            using DrainTick Inr Some by simp
          show ?thesis
          proof (cases "monitor_drain b (res @ [m]) evs")
            case (Panics msg)
            then show ?thesis using Cons.IH [of "res @ [m]"] DrainTick unfolding step
              by (auto simp: missing_Sys_def)
          next
            case (Returns r)
            show ?thesis
            proof (cases r)
              case None
              then show ?thesis using Cons.IH [of "res @ [m]"] Returns DrainTick unfolding step by simp
            next
              case (Some p)
              obtain res' err where p: "p = (res', err)" by (cases p)
              obtain ms where "res' = (res @ [m]) @ ms" "sampled b (drain_queries evs) ms err"
                "err = None \<longrightarrow> drained ms \<or> DrainTimeout \<in> set evs"
                using Cons.IH [of "res @ [m]"] Returns Some p by auto
              then show ?thesis using Returns Some p DrainTick Inr unfolding step
                by (auto simp: sampled_Cons drained_def intro!: exI [of _ "m # ms"])
            qed
          qed
        qed
      qed
    qed
  qed (simp add: sampled_Nil)
qed simp

text \<open>What a run of the sampling phase that ended means for the samples \<open>ms\<close> it added.\<close>

definition sample_post :: "bool \<Rightarrow> bool \<Rightarrow> ('st, 'ca) drain_event list \<Rightarrow> ('st, 'ca) sample_event list \<Rightarrow>
    ('st, 'ca) tcp_metric list \<Rightarrow> string option \<Rightarrow> bool" where
  "sample_post d b drain evs ms err \<longleftrightarrow>
     sampled b (fst (until_done evs) @ drain_queries drain) ms err \<and>
     (err = None \<longrightarrow> ms \<noteq> [] \<and>
        (if drains d evs then drained ms \<or> DrainTimeout \<in> set drain else length ms = length (fst (until_done evs))))"

lemma sample_post_tick:
  "queryTCPOnce b q = Inr m \<Longrightarrow> sample_post d b drain evs ms err \<Longrightarrow> sample_post d b drain (SampleTick q # evs) (m # ms) err"
  by (auto simp: sample_post_def sampled_Cons drains_def drained_def split: prod.split)

lemma monitor_sample_sampled:
  "case monitor_sample d b res drain evs of
     Panics m \<Rightarrow> drains d evs \<and> missing_Sys b (drain_queries drain)
   | Returns None \<Rightarrow> True
   | Returns (Some (res', err)) \<Rightarrow> \<exists>ms. res' = res @ ms \<and> sample_post d b drain evs ms err"
proof (induction evs arbitrary: res)
  case (Cons ev evs)
  show ?case
  proof (cases ev)
    case (SampleTick q)
    show ?thesis
    proof (cases "queryTCPOnce b q")
      case (Inl e)
      then show ?thesis using SampleTick by (auto simp: sample_post_def sampled_fail split: prod.split)
    next
      case (Inr m)
      then have step: "monitor_sample d b res drain (ev # evs) = monitor_sample d b (res @ [m]) drain evs"
        using SampleTick by simp
      show ?thesis
      proof (cases "monitor_sample d b (res @ [m]) drain evs")
        case (Panics msg)
        then show ?thesis using Cons.IH [of "res @ [m]"] SampleTick unfolding step
          by (auto simp: drains_def split: prod.split)
      next
        case (Returns r)
        show ?thesis
        proof (cases r)
          case (Some p)
          obtain res' err where p: "p = (res', err)" by (cases p)
          obtain ms where ms: "res' = (res @ [m]) @ ms" "sample_post d b drain evs ms err"
            using Cons.IH [of "res @ [m]"] Returns Some p by auto
          then show ?thesis using Returns Some p sample_post_tick [OF Inr ms(2)] SampleTick unfolding step by auto
        qed (simp only: step Returns, simp)
      qed
    qed
  next
    case (SampleDone cause q)
    show ?thesis
    proof (cases "queryTCPOnce b q")
      case (Inl e)
      then show ?thesis using SampleDone by (auto simp: sample_post_def sampled_fail)
    next
      case (Inr m)
      have dr: "drains d (ev # evs) \<longleftrightarrow> d \<and> (cause = IODone \<or> cause = DeadlineReached)"
        using SampleDone by (simp add: drains_def)
      show ?thesis
      proof (cases "drains d (ev # evs)")
        case False
        then show ?thesis using SampleDone Inr dr
          by (auto simp: sample_post_def sampled_Cons sampled_Nil intro!: exI [of _ "[m]"])
      next
        case True
        then have step: "monitor_sample d b res drain (ev # evs) = monitor_drain b (res @ [m]) drain"
          using SampleDone Inr dr by simp
        show ?thesis
        proof (cases "monitor_drain b (res @ [m]) drain")
          case (Panics msg)
          then show ?thesis using monitor_drain_sampled [where b = b and res = "res @ [m]" and evs = drain] True unfolding step by simp
        next
          case (Returns r)
          show ?thesis
          proof (cases r)
            case (Some p)
            obtain res' err where p: "p = (res', err)" by (cases p)
            obtain ms where ms: "res' = (res @ [m]) @ ms" "sampled b (drain_queries drain) ms err"
              "err = None \<longrightarrow> drained ms \<or> DrainTimeout \<in> set drain"
              using monitor_drain_sampled [where b = b and res = "res @ [m]" and evs = drain] Returns Some p by auto
            then show ?thesis using Returns Some p True SampleDone Inr unfolding step
              by (auto simp: sample_post_def sampled_Cons drained_def intro!: exI [of _ "m # ms"])
          qed (simp only: step Returns, simp)
        qed
      qed
    qed
  qed
qed simp

definition bbrUsed :: "('st, 'ca) monitor_env \<Rightarrow> bool" where
  "bbrUsed env = (case mn_ccName env of Inl e \<Rightarrow> False | Inr n \<Rightarrow> has_prefix n ''bbr'')"

lemma query_BBR: "queryTCPOnce b q = Inr m \<Longrightarrow> (BBRInfo m \<noteq> None) = b \<and> tq_info q = Inr (Info m)"
  by (auto simp: queryTCPOnce_def queryTCPInfo_def split: sum.splits if_splits)

lemma sampled_BBR: "sampled b qs ms err \<Longrightarrow> list_all (\<lambda>m. (BBRInfo m \<noteq> None) = b) ms"
proof (induction ms arbitrary: qs)
  case (Cons m ms)
  obtain q qs' where qs: "qs = q # qs'" using Cons.prems by (cases qs) (auto simp: sampled_def)
  have q: "queryTCPOnce b q = Inr m" using Cons.prems qs by (simp add: sampled_def)
  then show ?case using Cons qs query_BBR [OF q] by (simp add: sampled_Cons)
qed simp

definition info_complete :: "('st, 'ca) tcp_info \<Rightarrow> bool" where
  "info_complete i \<longleftrightarrow> FlowControl i \<noteq> None \<and> CongestionControl i \<noteq> None \<and> Sys i \<noteq> None"

text \<open>The decoder of \<open>TCP_INFO\<close> fills in all parts of what it returns.\<close>

definition complete_answers :: "('st, 'ca) tcp_query list \<Rightarrow> bool" where
  "complete_answers qs \<longleftrightarrow> list_all (\<lambda>q. case tq_info q of Inl e \<Rightarrow> True | Inr i \<Rightarrow> info_complete i) qs"

lemma sampled_complete: "sampled b qs ms err \<Longrightarrow> complete_answers qs \<Longrightarrow> list_all metric_complete ms"
proof (induction ms arbitrary: qs)
  case (Cons m ms)
  obtain q qs' where qs: "qs = q # qs'" using Cons.prems by (cases qs) (auto simp: sampled_def)
  have q: "queryTCPOnce b q = Inr m" using Cons.prems qs by (simp add: sampled_def)
  then have "metric_complete m"
    using Cons.prems(2) qs query_BBR [OF q] by (simp add: complete_answers_def metric_complete_def info_complete_def)
  then show ?case using Cons q qs by (simp add: sampled_Cons complete_answers_def)
qed simp

lemma monitor_result:
  assumes "runTCPMonitorAndIO sel mon = Returns (Some (Inr ms))"
  shows "mon = Returns (Some (ms, None))"
  using assms
  by (cases mon) (auto simp: runTCPMonitorAndIO_def split: io_select.splits option.splits prod.splits)

lemma sender_monitor:
  assumes "TCPSender_Run env p file = Returns (Some (Inr ms), file')"
  shows "TCPMonitor_Run (t_Bytes p > 0) (te_monitor env) = Returns (Some (ms, None))"
proof -
  obtain z where run: "runTCPMonitorAndIO (te_select env (send_report (te_copy env (send_bytes (t_Bytes p)))))
      (TCPMonitor_Run (t_Bytes p > 0) (te_monitor env)) = Returns (Some z)"
    and z: "(case z of Inl e \<Rightarrow> Inl (TestErr e) | Inr ms \<Rightarrow> Inr ms) = Inr ms"
    using assms by (auto simp: TCPSender_Run_def panics_bind_Returns Let_def split: option.splits)
  have "z = Inr ms" using z by (cases z) auto
  then show ?thesis using run monitor_result by blast
qed

lemma TrimSpace_switch [simp]: "TrimSpace [CHR ''1'', CHR 0x0A] = ''1''" "TrimSpace [CHR ''0'', CHR 0x0A] = ''0''"
  by (simp_all add: TrimSpace_def is_space_def)

lemma enableHystart_reads:
  "enableHystart openErr writeErr enable file = (None, file') \<Longrightarrow> hystartEnabled file' = Inr enable"
  by (cases enable) (auto simp: enableHystart_def hystartEnabled_def split: option.splits)

lemma enableHystart_fails: "enableHystart openErr writeErr enable file = (Some e, file') \<Longrightarrow> file' = file"
  by (auto simp: enableHystart_def split: option.splits)

lemma setTCPCC_set: "setTCPCC connErr controlErr setErr got cc = None \<Longrightarrow> \<exists>buf. got = Inr buf \<and> has_prefix buf cc"
  by (auto simp: setTCPCC_def raw_control_def split: option.splits sum.splits if_splits)

lemma KernelName_panics: "KernelName ccas c = Panics m \<Longrightarrow> c \<notin> set TCPCCAS \<or> (c \<in> {BBR1, BBR3} \<and> ccas = None)"
  by (cases c) (auto simp: TCPCCAS_def bbr3Available_def split: panics.splits option.splits if_splits)

lemma KernelName_known: "KernelName ccas c = Returns k \<Longrightarrow> c \<in> set TCPCCAS"
  by (cases c) (auto simp: TCPCCAS_def)

text \<open>After setting the name, the switch is read and written only for the two CUBIC variants.\<close>

definition hystart_step :: "cca_env \<Rightarrow> tcpcca \<Rightarrow> string + string \<Rightarrow> cca_error option \<times> (string + string)" where
  "hystart_step env cca file =
     (if cca = CUBIC \<or> cca = CUBIC_NO_HYSTART then
        (case hystartEnabled file of
           Inl e \<Rightarrow> (Some (HystartErr e), file)
         | Inr hy \<Rightarrow>
             if hy = (cca = CUBIC) then (None, file)
             else (case enableHystart (ca_hyOpen env) (ca_hyWrite env) (cca = CUBIC) file of
                     (e, file') \<Rightarrow> (map_option HystartErr e, file')))
      else (None, file))"

lemma applyTCPCCA_step:
  "applyTCPCCA env cca file =
     panics_bind (KernelName (ca_available env) cca) (\<lambda>k.
       case k of
         Inl e \<Rightarrow> panics_bind (cca_String cca) (\<lambda>n. Returns (Some (NoKernelName n e), file))
       | Inr kernelName \<Rightarrow>
           (case setTCPCC (ca_conn env) (ca_control env) (ca_set env) (ca_got env) kernelName of
              Some e \<Rightarrow> panics_bind (cca_String cca) (\<lambda>n. Returns (Some (SetCCErr e), file))
            | None \<Rightarrow> Returns (hystart_step env cca file)))"
proof -
  have "(if cca = CUBIC \<or> cca = CUBIC_NO_HYSTART then
          (case hystartEnabled file of
             Inl e \<Rightarrow> Returns (Some (HystartErr e), file)
           | Inr hy \<Rightarrow>
               let (e1, file1) = (if cca = CUBIC \<and> \<not> hy
                     then enableHystart (ca_hyOpen env) (ca_hyWrite env) True file else (None, file))
               in case e1 of
                    Some e \<Rightarrow> Returns (Some (HystartErr e), file1)
                  | None \<Rightarrow>
                      let (e2, file2) = (if cca = CUBIC_NO_HYSTART \<and> hy
                            then enableHystart (ca_hyOpen env) (ca_hyWrite env) False file1 else (None, file1))
                      in Returns (map_option HystartErr e2, file2))
        else Returns (None, file)) = Returns (hystart_step env cca file)"
    by (cases "hystartEnabled file"; cases cca)
      (auto simp: hystart_step_def Let_def split: option.splits prod.splits)
  then show ?thesis unfolding applyTCPCCA_def by (simp only:)
qed

lemma hystart_step_post:
  "hystart_step env cca file = (err, file') \<Longrightarrow>
   case err of
     Some e \<Rightarrow> file' = file
   | None \<Rightarrow> hystartEnabled file' = (if cca = CUBIC then Inr True else if cca = CUBIC_NO_HYSTART then Inr False
       else hystartEnabled file) \<and> (hystartEnabled file' = hystartEnabled file \<longrightarrow> file' = file)"
  by (auto simp: hystart_step_def enableHystart_reads enableHystart_fails split: sum.splits if_splits prod.splits option.splits)

lemma TCPMonitor_sampled:
  "case TCPMonitor_Run drainQueue env of
     Panics m \<Rightarrow> drains drainQueue (mn_samples env) \<and> missing_Sys (bbrUsed env) (asked env)
   | Returns None \<Rightarrow> True
   | Returns (Some (res, Some e)) \<Rightarrow>
       (res = [] \<and> (mn_open env = Some e \<or> mn_ccName env = Inl e)) \<or> sampled (bbrUsed env) (asked env) res (Some e)
   | Returns (Some (res, None)) \<Rightarrow>
       sampled (bbrUsed env) (asked env) res None \<and> 2 \<le> length res \<and>
       list_all (\<lambda>m. (BBRInfo m \<noteq> None) = bbrUsed env) res \<and>
       (if drains drainQueue (mn_samples env) then drained res \<or> DrainTimeout \<in> set (mn_drain env)
        else length res = 1 + length (fst (until_done (mn_samples env))))"
proof (cases "mn_open env")
  case opened: None
  show ?thesis
  proof (cases "mn_ccName env")
    case (Inr n)
    have b: "bbrUsed env = has_prefix n ''bbr''" by (simp add: bbrUsed_def Inr)
    show ?thesis
    proof (cases "queryTCPOnce (bbrUsed env) (mn_first env)")
      case (Inl e)
      then show ?thesis using opened Inr b by (simp add: TCPMonitor_Run_def asked_def sampled_fail)
    next
      case first: (Inr m)
      then have run: "TCPMonitor_Run drainQueue env =
          monitor_sample drainQueue (bbrUsed env) [m] (mn_drain env) (mn_samples env)"
        using opened Inr b by (simp add: TCPMonitor_Run_def)
      note post = monitor_sample_sampled [where d = drainQueue and b = "bbrUsed env" and res = "[m]" and drain = "mn_drain env" and evs = "mn_samples env"]
      show ?thesis
      proof (cases "monitor_sample drainQueue (bbrUsed env) [m] (mn_drain env) (mn_samples env)")
        case (Panics msg)
        then show ?thesis using post unfolding run by (auto simp: missing_Sys_def asked_def)
      next
        case (Returns r)
        show ?thesis
        proof (cases r)
          case (Some p)
          obtain res err where p: "p = (res, err)" by (cases p)
          obtain ms where res: "res = m # ms" and ms: "sample_post drainQueue (bbrUsed env) (mn_drain env) (mn_samples env) ms err"
            using post Returns Some p by auto
          then have "sampled (bbrUsed env) (asked env) res err"
            using first by (simp add: asked_def sampled_Cons sample_post_def)
          then show ?thesis
            using Returns Some p ms res sampled_BBR [of "bbrUsed env" "asked env" res err] unfolding run
            by (cases err) (auto simp: sample_post_def drained_def Suc_le_eq)
        qed (simp add: run Returns)
      qed
    qed
  qed (simp add: TCPMonitor_Run_def opened)
qed (simp add: TCPMonitor_Run_def)

lemma TCPMonitor_post:
  assumes "TCPMonitor_Run drainQueue env = Returns (Some (res, None))"
  shows "sampled (bbrUsed env) (asked env) res None" and "2 \<le> length res"
    and "if drains drainQueue (mn_samples env) then drained res \<or> DrainTimeout \<in> set (mn_drain env)
        else length res = 1 + length (fst (until_done (mn_samples env)))"
  using TCPMonitor_sampled [where drainQueue = drainQueue and env = env] unfolding assms by auto

section \<open>Properties\<close>

text \<open>C27. The TCP monitor, whatever the kernel answers: its samples are the answers to its queries in the
  order they were asked, each with BBR values exactly when the connection's algorithm is a BBR. It ends with
  the error of opening, naming or of the first query that fails. Without an error there is a sample
  from the start and one from the end of the test, and a test that has to drain the send queue
  has seen it empty in its last sample or waited out the time for it. It panics only while draining, on a
  sample without system information.\<close>

theorem TCPMonitor_outcome:
  "case TCPMonitor_Run drainQueue env of
     Panics m \<Rightarrow> drains drainQueue (mn_samples env) \<and> missing_Sys (bbrUsed env) (asked env)
   | Returns None \<Rightarrow> True
   | Returns (Some (res, Some e)) \<Rightarrow>
       (res = [] \<and> (mn_open env = Some e \<or> mn_ccName env = Inl e)) \<or> sampled (bbrUsed env) (asked env) res (Some e)
   | Returns (Some (res, None)) \<Rightarrow>
       sampled (bbrUsed env) (asked env) res None \<and> 2 \<le> length res \<and>
       list_all (\<lambda>m. (BBRInfo m \<noteq> None) = bbrUsed env) res \<and>
       (if drains drainQueue (mn_samples env) then drained res \<or> DrainTimeout \<in> set (mn_drain env)
        else length res = 1 + length (fst (until_done (mn_samples env))))"
  by (rule TCPMonitor_sampled)


text \<open>Two samples of a sender of 1000 bytes, the second one with an empty queue.\<close>

definition example_sys :: "u64 \<Rightarrow> nat sys_info" where
  "example_sys queued = \<lparr>PathMTU = 1500, CAState = 0, Retransmissions = 0, Backoffs = 0, WindowOrKeepAliveProbes = 0,
     UnackedSegs = queued, SackedSegs = 0, LostSegs = 0, RetransSegs = 0, ForwardAckSegs = 0, ReorderedSegs = 0,
     ReceiverRTT = 0, TotalRetransSegs = 0, PacingRate = 0, ThruBytesAcked = 0, ThruBytesReceived = 0, SegsOut = 0,
     SegsIn = 0, NotSentBytes = queued, MinRTT = 0, DataSegsOut = 0, DataSegsIn = 0\<rparr>"

definition example_info :: "u64 \<Rightarrow> (nat, nat) tcp_info" where
  "example_info queued = \<lparr>State = 1, SenderMSS = 1448, ReceiverMSS = 1448, RTT = 20, RTTVar = 1, RTO = 200, ATO = 40,
     LastDataSent = 0, LastDataReceived = 0, LastAckReceived = 0, FlowControl = Some \<lparr>ReceiverWindow = 65535\<rparr>,
     CongestionControl = Some \<lparr>SenderSSThreshold = 0, ReceiverSSThreshold = 0, SenderWindowBytes = 14480, SenderWindowSegs = 10\<rparr>,
     Sys = Some (example_sys queued)\<rparr>"

definition example_query :: "gtime \<Rightarrow> u64 \<Rightarrow> (nat, nat) tcp_query" where
  "example_query now queued = \<lparr>tq_now = now, tq_info = Inr (example_info queued), tq_ccinfo = None, tq_bbr = Inl []\<rparr>"

definition example_tcp :: "(nat, nat) tcp_env" where
  "example_tcp = \<lparr>te_cca = \<lparr>ca_available = None, ca_conn = None, ca_control = None, ca_set = None, ca_got = Inr ''cubic'',
       ca_hyOpen = None, ca_hyWrite = None\<rparr>,
     te_linger = None, te_copy = (\<lambda>n. CopyDone), te_select = IOEnded,
     te_monitor = \<lparr>mn_open = None, mn_ccName = Inr ''cubic'', mn_first = example_query 10 4,
       mn_samples = [SampleTick (example_query 15 8), SampleDone IODone (example_query 17 2)],
       mn_drain = [DrainTick (example_query 20 1), DrainTick (example_query 25 0)]\<rparr>\<rparr>"

definition example_tcp_params :: tcp_params where
  "example_tcp_params = \<lparr>t_Duration = second, t_Bytes = 1000, t_CCA = CUBIC\<rparr>"

definition example_metric :: "gtime \<Rightarrow> u64 \<Rightarrow> (nat, nat) tcp_metric" where
  "example_metric now queued = \<lparr>Time = now, Info = example_info queued, BBRInfo = None\<rparr>"

lemma example_tcp_run:
  "TCPSender_Run example_tcp example_tcp_params (Inr [CHR ''0'', CHR 0x0A]) =
     Returns (Some (Inr [example_metric 10 4, example_metric 15 8, example_metric 17 2, example_metric 20 1, example_metric 25 0]),
       Inr [CHR ''1'', CHR 0x0A])"
  by code_simp


text \<open>C26. Setting the congestion control of a socket: without an error the socket reports a name that begins
  with the one asked for, and HyStart is on for CUBIC, off for CUBIC without HyStart and as before for all
  others, its switch being written only when it has to change; an error leaves the switch alone. It panics
  only for a value that is no algorithm or, for a BBR, when the algorithms of the kernel cannot be read.\<close>

theorem applyTCPCCA_outcome:
  "case applyTCPCCA env cca file of
     Panics m \<Rightarrow> if cca \<in> set TCPCCAS then cca \<in> {BBR1, BBR3} \<and> ca_available env = None else True
   | Returns (Some e, file') \<Rightarrow> file' = file
   | Returns (None, file') \<Rightarrow>
       (\<exists>k buf. KernelName (ca_available env) cca = Returns (Inr k) \<and> ca_got env = Inr buf \<and> has_prefix buf k) \<and>
       hystartEnabled file' = (if cca = CUBIC then Inr True else if cca = CUBIC_NO_HYSTART then Inr False
         else hystartEnabled file) \<and>
       (if hystartEnabled file' = hystartEnabled file then file' = file else True)"
proof (cases "KernelName (ca_available env) cca")
  case (Panics m)
  then show ?thesis using KernelName_panics [OF Panics] by (simp add: applyTCPCCA_step del: KernelName.simps)
next
  case (Returns r)
  obtain n where n: "cca_String cca = Returns n" using cca_String_known [of cca] KernelName_known [OF Returns] by blast
  show ?thesis
  proof (cases r)
    case (Inr k)
    show ?thesis
    proof (cases "setTCPCC (ca_conn env) (ca_control env) (ca_set env) (ca_got env) k")
      case None
      obtain err file' where step: "hystart_step env cca file = (err, file')" by fastforce
      show ?thesis
        using Returns Inr None step hystart_step_post [OF step] setTCPCC_set [OF None]
        by (cases err) (auto simp: applyTCPCCA_step simp del: KernelName.simps)
    qed (use Returns Inr n in \<open>simp add: applyTCPCCA_step del: KernelName.simps\<close>)
  qed (use Returns n in \<open>simp add: applyTCPCCA_step del: KernelName.simps\<close>)
qed

text \<open>The switch is one for the whole kernel: a second socket without HyStart turns it off for a first one that asked
  for it.\<close>

theorem hystart_is_shared:
  "applyTCPCCA (te_cca example_tcp) CUBIC (Inr [CHR ''0'', CHR 0x0A]) = Returns (None, Inr [CHR ''1'', CHR 0x0A]) \<and>
   applyTCPCCA (te_cca example_tcp) CUBIC_NO_HYSTART (Inr [CHR ''1'', CHR 0x0A]) = Returns (None, Inr [CHR ''0'', CHR 0x0A])"
  by code_simp

end
