(* ===== verification/Step_Systems.thy ===== *)
theory Step_Systems
  imports Main
begin

text \<open>
  Programs modelled as a step function on a state, where the events say which goroutine moves next:
  the run of a list of events, and the two contracts by which a fact about one step becomes a fact
  about a run. \<open>None\<close> is a step that cannot be taken.
\<close>

fun run_steps :: "('e \<Rightarrow> 's \<Rightarrow> 's option) \<Rightarrow> 'e list \<Rightarrow> 's \<Rightarrow> 's option" where
  "run_steps step [] s = Some s"
| "run_steps step (ev # evs) s = (case step ev s of None \<Rightarrow> None | Some s' \<Rightarrow> run_steps step evs s')"

lemma run_steps_append:
  "run_steps step (xs @ ys) s = (case run_steps step xs s of None \<Rightarrow> None | Some s' \<Rightarrow> run_steps step ys s')"
  by (induction xs arbitrary: s) (auto split: option.splits)

lemma run_steps_ConsE:
  assumes "run_steps step (ev # evs) s = Some s'"
  obtains s1 where "step ev s = Some s1" and "run_steps step evs s1 = Some s'"
  using assms by (auto split: option.splits)

text \<open>A predicate that every step keeps.\<close>

locale step_invariant =
  fixes step :: "'e \<Rightarrow> 's \<Rightarrow> 's option" and inv :: "'s \<Rightarrow> bool"
  assumes step_inv: "step ev s = Some s' \<Longrightarrow> inv s \<Longrightarrow> inv s'"
begin

lemma run_inv: "run_steps step evs s = Some s' \<Longrightarrow> inv s \<Longrightarrow> inv s'"
  by (induction evs arbitrary: s) (auto elim!: run_steps_ConsE intro: step_inv simp del: run_steps.simps(2))

end

text \<open>A relation between the states around a run and its events, composed from those of the steps.\<close>

locale step_effect = step_invariant +
  fixes eff :: "'s \<Rightarrow> 'e list \<Rightarrow> 's \<Rightarrow> bool"
  assumes eff_refl: "eff s [] s"
    and eff_step: "step ev s = Some s' \<Longrightarrow> inv s \<Longrightarrow> eff s [ev] s'"
    and eff_trans: "eff s xs s1 \<Longrightarrow> eff s1 ys s' \<Longrightarrow> eff s (xs @ ys) s'"
begin

lemma run_eff: "run_steps step evs s = Some s' \<Longrightarrow> inv s \<Longrightarrow> eff s evs s'"
proof (induction evs arbitrary: s)
  case Nil
  then show ?case by (simp add: eff_refl)
next
  case (Cons ev evs)
  from Cons.prems(1) obtain s1 where s1: "step ev s = Some s1" "run_steps step evs s1 = Some s'"
    by (rule run_steps_ConsE)
  have "eff s ([ev] @ evs) s'"
    using eff_trans [OF eff_step [OF s1(1) Cons.prems(2)] Cons.IH [OF s1(2) step_inv [OF s1(1) Cons.prems(2)]]] .
  then show ?case by simp
qed

end

end
