(* ===== verification/Quic_Endpoints.thy ===== *)
theory Quic_Endpoints
  imports Udp_Results Step_Systems "HOL-Library.Sublist"
begin

text \<open>
  The QUIC sender and receiver (\<open>pkg/quic.go\<close>): which transport events become records, the collector that
  gathers them from a buffered channel while callbacks may outlive the test, which errors count as the
  end of a test, and what the result table makes of packet numbers with gaps. The transport
  (\<open>quic-go\<close>) is an argument: its events, errors and callbacks are answers.
\<close>

section \<open>Transport events\<close>

datatype packet_type = PacketType1RTT | OtherPacketType

text \<open>Packet number and length of a sent or received packet, or another event.\<close>

datatype qlog_event = PacketSent packet_type int int | PacketReceived packet_type int int | OtherEvent

definition record_sent :: "gtime \<Rightarrow> qlog_event \<Rightarrow> msg_sent option" where
  "record_sent now ev =
     (case ev of
        PacketSent ty pn len \<Rightarrow>
          if ty \<noteq> PacketType1RTT then None
          else Some \<lparr>s_Seq = word_of_int pn, s_TsSent = now, s_Len = word_of_int len\<rparr>
      | _ \<Rightarrow> None)"

definition record_rcvd :: "gtime \<Rightarrow> qlog_event \<Rightarrow> msg_rcvd option" where
  "record_rcvd now ev =
     (case ev of
        PacketReceived ty pn len \<Rightarrow>
          if ty \<noteq> PacketType1RTT then None
          else Some \<lparr>r_Seq = word_of_int pn, r_TsRcvd = now, r_Len = word_of_int len\<rparr>
      | _ \<Rightarrow> None)"

section \<open>Tracer and collector\<close>

datatype reader_phase = Collecting | Draining | ReaderDone

text \<open>The channel with its buffer, the callbacks that found it full and wait in the inner \<open>select\<close>, in order,
  the messages given up, and the state of \<open>ChanReader.Read\<close>. A channel hands a freed place of
  its buffer to the callback that has waited longest.\<close>

record 'm tracer =
  tr_buf :: "'m list"
  tr_blocked :: "'m list"
  tr_lost :: "'m list"
  tr_quit :: bool
  tr_Result :: "'m list"
  tr_reader :: reader_phase

definition NewQUICTracer :: "'m tracer" where
  "NewQUICTracer = \<lparr>tr_buf = [], tr_blocked = [], tr_lost = [], tr_quit = False, tr_Result = [], tr_reader = Collecting\<rparr>"

datatype 'm trace_event = Callback 'm | GiveUp nat | CloseQuit | Receive | SeeQuit | DrainExpired

text \<open>The callback's two nested \<open>select\<close>s: send if there is room, otherwise wait for room or for \<open>quit\<close>.\<close>

definition callback_step :: "'m \<Rightarrow> 'm tracer \<Rightarrow> 'm tracer" where
  "callback_step m t =
     (if length (tr_buf t) < 1000 then t\<lparr>tr_buf := tr_buf t @ [m]\<rparr> else t\<lparr>tr_blocked := tr_blocked t @ [m]\<rparr>)"

definition receive_step :: "'m tracer \<Rightarrow> 'm tracer option" where
  "receive_step t =
     (case tr_buf t of
        [] \<Rightarrow> None
      | m # ms \<Rightarrow> Some (t\<lparr>tr_Result := tr_Result t @ [m], tr_buf := ms @ take 1 (tr_blocked t),
          tr_blocked := drop 1 (tr_blocked t)\<rparr>))"

text \<open>One step of the callbacks, of the test (\<open>close(tracer.quit)\<close>) or of \<open>ChanReader.Read\<close>: \<open>None\<close> when it cannot
  be taken. The reader ends when nothing arrived for 100 ms after it saw \<open>quit\<close>.\<close>

fun trace_step :: "'m trace_event \<Rightarrow> 'm tracer \<Rightarrow> 'm tracer option" where
  "trace_step (Callback m) t = Some (callback_step m t)"
| "trace_step (GiveUp i) t =
     (if tr_quit t \<and> i < length (tr_blocked t)
      then Some (t\<lparr>tr_blocked := take i (tr_blocked t) @ drop (Suc i) (tr_blocked t),
                   tr_lost := tr_lost t @ [tr_blocked t ! i]\<rparr>)
      else None)"
| "trace_step CloseQuit t = (if tr_quit t then None else Some (t\<lparr>tr_quit := True\<rparr>))"
| "trace_step Receive t = (if tr_reader t = ReaderDone then None else receive_step t)"
| "trace_step SeeQuit t =
     (if tr_reader t = Collecting \<and> tr_quit t then Some (t\<lparr>tr_reader := Draining\<rparr>) else None)"
| "trace_step DrainExpired t =
     (if tr_reader t = Draining \<and> tr_buf t = [] then Some (t\<lparr>tr_reader := ReaderDone\<rparr>) else None)"

abbreviation trace_run :: "'m trace_event list \<Rightarrow> 'm tracer \<Rightarrow> 'm tracer option" where
  "trace_run \<equiv> run_steps trace_step"

text \<open>What the test returns: the events before and after it closed \<open>quit\<close>; \<open>None\<close> while it waits for the reader.\<close>

definition collected :: "'m trace_event list \<Rightarrow> 'm trace_event list \<Rightarrow> 'm list option" where
  "collected pre post =
     (case trace_run (pre @ CloseQuit # post) NewQUICTracer of
        None \<Rightarrow> None
      | Some t \<Rightarrow> if tr_reader t = ReaderDone then Some (tr_Result t) else None)"

section \<open>Sender and receiver\<close>

datatype quic_error = DeadlineErr | OtherTimeoutErr | AppErr nat | TransportErr string

definition quicClosedCleanly :: "quic_error \<Rightarrow> bool" where
  "quicClosedCleanly e \<longleftrightarrow> e = AppErr 0"

definition is_timeout :: "quic_error \<Rightarrow> bool" where
  "is_timeout e \<longleftrightarrow> e = DeadlineErr \<or> e = OtherTimeoutErr"

record send_env =
  qs_dial :: "quic_error option"
  qs_open :: "quic_error option"
  qs_copy :: "quic_error option"
  qs_close :: "quic_error option"
  qs_fin :: "quic_error option"

datatype quic_failure = DialFailed quic_error | QuicFailed quic_error | UnexpectedQuic quic_error

definition quic_send :: "send_env \<Rightarrow> quic_failure option" where
  "quic_send env =
     (case qs_dial env of
        Some e \<Rightarrow> Some (DialFailed e)
      | None \<Rightarrow>
     (case qs_open env of
        Some e \<Rightarrow> Some (QuicFailed e)
      | None \<Rightarrow>
     (case qs_copy env of
        Some e \<Rightarrow> if e = DeadlineErr then None else if quicClosedCleanly e then None else Some (QuicFailed e)
      | None \<Rightarrow>
     (case qs_close env of
        Some e \<Rightarrow> Some (QuicFailed e)
      | None \<Rightarrow>
     (case qs_fin env of
        None \<Rightarrow> None
      | Some e \<Rightarrow> if e \<noteq> DeadlineErr \<and> \<not> quicClosedCleanly e then Some (QuicFailed e) else None)))))"

text \<open>A run returns once \<open>send\<close> has returned, \<open>quit\<close> is closed and, without an error, the reader is done.\<close>

definition QUICSender_Run :: "send_env \<Rightarrow> msg_sent trace_event list \<Rightarrow> msg_sent trace_event list \<Rightarrow>
    (quic_failure + msg_sent list) option" where
  "QUICSender_Run env pre post =
     (case quic_send env of Some e \<Rightarrow> Some (Inl e) | None \<Rightarrow> map_option Inr (collected pre post))"

record listen_env =
  ql_conn :: "string option"
  ql_listen :: "quic_error option"
  ql_accept :: "quic_error option"
  ql_stream :: "quic_error option"
  ql_copy :: "quic_error option"

definition quic_listen :: "listen_env \<Rightarrow> quic_failure option" where
  "quic_listen env =
     (case ql_accept env of
        Some e \<Rightarrow> Some (QuicFailed e)
      | None \<Rightarrow>
     (case ql_stream env of
        Some e \<Rightarrow> if quicClosedCleanly e then None else Some (QuicFailed e)
      | None \<Rightarrow>
     (case ql_copy env of
        None \<Rightarrow> None
      | Some e \<Rightarrow> if is_timeout e then None else if quicClosedCleanly e then None else Some (UnexpectedQuic e))))"

definition QUICReceiver_Run :: "listen_env \<Rightarrow> msg_rcvd trace_event list \<Rightarrow> msg_rcvd trace_event list \<Rightarrow>
    (quic_failure + msg_rcvd list) option panics" where
  "QUICReceiver_Run env pre post =
     (case ql_conn env of
        Some e \<Rightarrow> Panics e
      | None \<Rightarrow>
          (case ql_listen env of
             Some e \<Rightarrow> Returns (Some (Inl (QuicFailed e)))
           | None \<Rightarrow>
               (case quic_listen env of
                  Some e \<Rightarrow> Returns (Some (Inl e))
                | None \<Rightarrow> Returns (map_option Inr (collected pre post)))))"

section \<open>Nothing is lost on the way to the collector\<close>

fun callbacks :: "'m trace_event list \<Rightarrow> 'm list" where
  "callbacks [] = []"
| "callbacks (Callback m # evs) = m # callbacks evs"
| "callbacks (_ # evs) = callbacks evs"

lemma callbacks_append [simp]: "callbacks (xs @ ys) = callbacks xs @ callbacks ys"
  by (induction xs rule: callbacks.induct) simp_all

text \<open>In the channel or waiting for it, in order.\<close>

abbreviation in_channel :: "'m tracer \<Rightarrow> 'm list" where
  "in_channel t \<equiv> tr_Result t @ tr_buf t @ tr_blocked t"

definition tracer_ok :: "'m tracer \<Rightarrow> bool" where
  "tracer_ok t \<longleftrightarrow> length (tr_buf t) \<le> 1000 \<and> (tr_blocked t \<noteq> [] \<longrightarrow> length (tr_buf t) = 1000) \<and>
     (tr_reader t \<noteq> Collecting \<longrightarrow> tr_quit t) \<and> (\<not> tr_quit t \<longrightarrow> tr_lost t = [])"

lemma tracer_ok_new [simp]: "tracer_ok NewQUICTracer"
  by (simp add: tracer_ok_def NewQUICTracer_def)

lemma receive_channel: "receive_step t = Some t' \<Longrightarrow> in_channel t' = in_channel t"
  by (cases "tr_blocked t") (auto simp: receive_step_def split: list.splits)

lemma trace_step_ok: "trace_step ev t = Some t' \<Longrightarrow> tracer_ok t \<Longrightarrow> tracer_ok t'"
proof (cases ev)
  case Receive
  assume "trace_step ev t = Some t'" and ok: "tracer_ok t"
  then have step: "receive_step t = Some t'" using Receive by (simp split: if_splits)
  then show ?thesis using ok
    by (cases "tr_blocked t") (auto simp: tracer_ok_def receive_step_def split: list.splits)
qed (auto simp: tracer_ok_def callback_step_def split: if_splits)

interpretation tracing: step_invariant trace_step tracer_ok
  by unfold_locales (rule trace_step_ok)

text \<open>Until \<open>quit\<close> is closed every message is still there.\<close>

lemma trace_step_channel:
  "trace_step ev t = Some t' \<Longrightarrow> \<not> tr_quit t' \<Longrightarrow> tracer_ok t \<Longrightarrow>
   in_channel t' = in_channel t @ callbacks [ev] \<and> \<not> tr_quit t"
proof (cases ev)
  case (Callback m)
  assume "trace_step ev t = Some t'" "\<not> tr_quit t'" "tracer_ok t"
  then show ?thesis using Callback by (auto simp: callback_step_def tracer_ok_def split: if_splits)
next
  case Receive
  assume step: "trace_step ev t = Some t'" and quit: "\<not> tr_quit t'"
  then have r: "receive_step t = Some t'" using Receive by (simp split: if_splits)
  then have "tr_quit t' = tr_quit t" by (auto simp: receive_step_def split: list.splits)
  then show ?thesis using receive_channel [OF r] quit Receive by simp
qed (auto split: if_splits)

interpretation channel: step_effect trace_step tracer_ok
    "\<lambda>t evs t'. \<not> tr_quit t' \<longrightarrow> in_channel t' = in_channel t @ callbacks evs \<and> \<not> tr_quit t"
  by unfold_locales (auto dest: trace_step_channel)

text \<open>What has got into the buffer stays, and has been received when the reader is done.\<close>

definition holds :: "'m list \<Rightarrow> 'm tracer \<Rightarrow> bool" where
  "holds p t \<longleftrightarrow> prefix p (tr_Result t @ tr_buf t) \<and> (tr_reader t = ReaderDone \<longrightarrow> prefix p (tr_Result t))"

lemma trace_step_holds:
  assumes "trace_step ev t = Some t'" and "holds p t"
  shows "holds p t'"
proof (cases ev)
  case Receive
  then have "receive_step t = Some t'" "tr_reader t \<noteq> ReaderDone" using assms(1) by (simp_all split: if_splits)
  then obtain ext where "tr_Result t' @ tr_buf t' = (tr_Result t @ tr_buf t) @ ext" "tr_reader t' \<noteq> ReaderDone"
    by (auto simp: receive_step_def split: list.splits)
  then show ?thesis using assms(2) unfolding holds_def by (metis prefixI prefix_order.trans)
next
  case (Callback m)
  then have "tr_Result t' = tr_Result t" "tr_reader t' = tr_reader t" "prefix (tr_buf t) (tr_buf t')"
    using assms(1) by (auto simp: callback_step_def)
  then show ?thesis using assms(2) unfolding holds_def by (metis prefix_order.trans same_prefix_prefix)
qed (use assms in \<open>auto simp: holds_def split: if_splits\<close>)

interpretation buffered: step_invariant trace_step "holds p" for p
  by unfold_locales (rule trace_step_holds)

text \<open>And nothing is made up, doubled or reordered.\<close>

lemma subseq_remove_nth: "subseq (take i xs @ drop (Suc i) xs) xs"
proof (cases "i < length xs")
  case True
  then have "xs = take i xs @ (xs ! i) # drop (Suc i) xs" by (rule id_take_nth_drop)
  then show ?thesis by (metis list_emb_append_mono subseq_Cons' subseq_order.refl)
qed simp

lemma trace_step_subseq:
  assumes "trace_step ev t = Some t'" and "tracer_ok t"
  shows "subseq (in_channel t') (in_channel t @ callbacks [ev])"
proof (cases ev)
  case (Callback m)
  then show ?thesis using assms by (auto simp: callback_step_def tracer_ok_def split: if_splits)
next
  case (GiveUp i)
  then have "in_channel t' = tr_Result t @ tr_buf t @ (take i (tr_blocked t) @ drop (Suc i) (tr_blocked t))"
    using assms by (auto split: if_splits)
  moreover have "subseq (tr_Result t @ tr_buf t @ (take i (tr_blocked t) @ drop (Suc i) (tr_blocked t)))
      (tr_Result t @ tr_buf t @ tr_blocked t)"
    by (intro list_emb_append_mono subseq_order.refl subseq_remove_nth)
  ultimately show ?thesis using GiveUp by simp
next
  case Receive
  then have "receive_step t = Some t'" using assms by (simp split: if_splits)
  then show ?thesis using receive_channel [of t t'] Receive by simp
qed (use assms in \<open>auto split: if_splits\<close>)

lemma subseq_append_right: "subseq xs ys \<Longrightarrow> subseq zs (xs @ ws) \<Longrightarrow> subseq zs (ys @ ws)"
  by (meson list_emb_append_mono subseq_order.order_refl subseq_order.trans)

interpretation passed: step_effect trace_step tracer_ok "\<lambda>t evs t'. subseq (in_channel t') (in_channel t @ callbacks evs)"
proof unfold_locales
  show "subseq (in_channel t') (in_channel t @ callbacks [ev])" if "trace_step ev t = Some t'" "tracer_ok t" for ev t t'
    using trace_step_subseq [OF that] .
  show "subseq (in_channel t') (in_channel t @ callbacks (xs @ ys))"
    if "subseq (in_channel t1) (in_channel t @ callbacks xs)" "subseq (in_channel t') (in_channel t1 @ callbacks ys)"
    for t xs t1 ys t' using subseq_append_right [OF that] by simp
qed simp

lemma trace_run_at_quit:
  assumes "trace_run pre NewQUICTracer = Some t0" and "\<not> tr_quit t0"
  shows "in_channel t0 = callbacks pre"
  using channel.run_eff [OF assms(1) tracer_ok_new] assms(2) by (simp add: NewQUICTracer_def)

lemma callback_number: "trace_run pre NewQUICTracer = Some t0 \<Longrightarrow> trace_step CloseQuit t0 = Some t1 \<Longrightarrow> \<not> tr_quit t0"
  by (simp split: if_splits)

lemma collected_run:
  assumes "collected pre post = Some r"
  shows "\<exists>t0 t. trace_run pre NewQUICTracer = Some t0 \<and> \<not> tr_quit t0 \<and>
     trace_run post (t0\<lparr>tr_quit := True\<rparr>) = Some t \<and> tr_reader t = ReaderDone \<and> r = tr_Result t"
  using assms by (auto simp: collected_def run_steps_append split: option.splits if_splits)

section \<open>Packet numbers\<close>

text \<open>A test of \<open>n\<close> packets in which number \<open>g\<close> was skipped and every packet arrived once.\<close>

definition numbers_skipping :: "nat \<Rightarrow> nat \<Rightarrow> nat list" where
  "numbers_skipping g n = [0..<g] @ [Suc g..<Suc n]"

lemma length_numbers_skipping: "g < n \<Longrightarrow> length (numbers_skipping g n) = n"
  by (simp add: numbers_skipping_def)

lemma nth_numbers_skipping: "g \<le> k \<Longrightarrow> k < n \<Longrightarrow> numbers_skipping g n ! k = Suc k"
  by (simp add: numbers_skipping_def nth_append del: upt_Suc)

lemma of_nat_inj64: "j < 2 ^ 64 \<Longrightarrow> k < 2 ^ 64 \<Longrightarrow> (of_nat j :: u64) = of_nat k \<longleftrightarrow> j = k"
  by (metis unat_of_nat64)

lemma arrival_of_one:
  assumes "distinct (map r_Seq rcvd)" and "m \<in> set rcvd"
  shows "arrivals (r_Seq m) rcvd = [r_TsRcvd m]"
proof -
  have "filter (\<lambda>x. r_Seq x = r_Seq m) rcvd = [m]"
    using assms by (induction rcvd) (auto simp: filter_empty_conv intro: rev_image_eqI)
  then show ?thesis by (simp add: arrivals_def)
qed

section \<open>Properties\<close>

text \<open>C14. The collector of a QUIC test keeps what was recorded: every message that a callback had put into the
  channel when the test closed \<open>quit\<close> is in the result, in order, followed by some of those that came later;
  only messages that were still waiting for room in the full channel can be missing, and nothing is
  doubled, reordered or made up, whatever order callbacks, reader and test run in.\<close>

theorem collector_complete:
  assumes "collected pre post = Some r" and "trace_run pre NewQUICTracer = Some t0"
  shows "prefix (take (length (callbacks pre) - length (tr_blocked t0)) (callbacks pre)) r \<and>
     subseq r (callbacks pre @ callbacks post)"
proof -
  obtain t where q: "\<not> tr_quit t0" and run: "trace_run post (t0\<lparr>tr_quit := True\<rparr>) = Some t"
    and reader: "tr_reader t = ReaderDone" and r: "r = tr_Result t"
    using collected_run [OF assms(1)] assms(2) by auto
  have ch: "in_channel t0 = callbacks pre" by (rule trace_run_at_quit [OF assms(2) q])
  have ok: "tracer_ok t0" by (rule tracing.run_inv [OF assms(2)]) simp
  let ?p = "tr_Result t0 @ tr_buf t0"
  have "callbacks pre = ?p @ tr_blocked t0" using ch by simp
  then have p: "take (length (callbacks pre) - length (tr_blocked t0)) (callbacks pre) = ?p" by simp
  have "tr_reader t0 \<noteq> ReaderDone" using ok q by (auto simp: tracer_ok_def)
  then have "holds ?p (t0\<lparr>tr_quit := True\<rparr>)" by (simp add: holds_def)
  then have "prefix ?p r" using buffered.run_inv [OF run] reader r by (auto simp: holds_def)
  moreover have "subseq (in_channel t) (in_channel (t0\<lparr>tr_quit := True\<rparr>) @ callbacks post)"
    using ok by (intro passed.run_eff [OF run]) (simp add: tracer_ok_def)
  then have "subseq r (callbacks pre @ callbacks post)"
    using ch r subseq_order.trans [OF prefix_imp_subseq [of "tr_Result t" "in_channel t"]] by simp
  ultimately show ?thesis unfolding p by simp
qed

text \<open>No callback is stuck: one that waits for room can always give up when \<open>quit\<close> is closed, and before that the
  reader, which is still collecting, can take a message and make room for it.\<close>

theorem callbacks_never_stuck:
  assumes "trace_run evs NewQUICTracer = Some t" and "i < length (tr_blocked t)"
  shows "if tr_quit t then trace_step (GiveUp i) t \<noteq> None
     else tr_reader t = Collecting \<and>
       (\<exists>t'. trace_step Receive t = Some t' \<and> length (tr_blocked t') = length (tr_blocked t) - 1)"
proof -
  have ok: "tracer_ok t" by (rule tracing.run_inv [OF assms(1)]) simp
  have blocked: "tr_blocked t \<noteq> []" using assms(2) by auto
  then obtain m ms where "tr_buf t = m # ms" using ok by (cases "tr_buf t") (auto simp: tracer_ok_def)
  then show ?thesis using ok assms(2) by (auto simp: tracer_ok_def receive_step_def)
qed

text \<open>C39. QUIC packet numbers may have gaps, but \<open>processUDP\<close> takes the position in the list of sent packets for the
  number. When one number \<open>g\<close> is skipped and every packet arrives exactly once, the table marks row \<open>g\<close> as lost, and
  each later row \<open>k\<close> pairs the send time of packet \<open>k + 1\<close> with the arrival of packet \<open>k\<close>; the
  last packet is in no row.\<close>

theorem packet_gap_shifts_rows:
  assumes "map s_Seq sent = map of_nat (numbers_skipping g n)" and "g < n" and "n < 2 ^ 64"
    and "distinct (map r_Seq rcvd)" and "set (map r_Seq rcvd) = set (map s_Seq sent)"
  shows "length (processUDP sent rcvd) = n \<and> Lost (processUDP sent rcvd ! g) \<and>
     (\<forall>k \<in> {g<..<n}. \<exists>m \<in> set rcvd. r_Seq m = of_nat k \<and> s_Seq (sent ! k) = of_nat (Suc k) \<and>
        processUDP sent rcvd ! k = rcvd_result (of_nat k) (sent ! k) (r_TsRcvd m) [])"
proof -
  have len: "length sent = n"
    using arg_cong [OF assms(1), of length] length_numbers_skipping [OF assms(2)] by simp
  have small: "length sent \<le> 2 ^ 64" using len assms(3) by simp
  have mem: "of_nat k \<in> r_Seq ` set rcvd \<longleftrightarrow> k \<in> set (numbers_skipping g n)" if "k < 2 ^ 64" for k
  proof -
    have "r_Seq ` set rcvd = of_nat ` set (numbers_skipping g n)" using assms(1,5) by (metis list.set_map)
    moreover have "j < 2 ^ 64" if "j \<in> set (numbers_skipping g n)" for j
      using that assms(2,3) by (auto simp: numbers_skipping_def)
    ultimately show ?thesis using that of_nat_inj64 by (auto simp: image_iff)
  qed
  have lost: "Lost (processUDP sent rcvd ! g)"
  proof -
    have "of_nat g \<notin> r_Seq ` set rcvd" using mem [of g] assms(2,3) by (simp add: numbers_skipping_def)
    then show ?thesis
      using processUDP_nth [OF small, of g] len assms(2) by (auto simp: result_for_simps image_iff)
  qed
  have row: "\<exists>m \<in> set rcvd. r_Seq m = of_nat k \<and> s_Seq (sent ! k) = of_nat (Suc k) \<and>
      processUDP sent rcvd ! k = rcvd_result (of_nat k) (sent ! k) (r_TsRcvd m) []" if "g < k" "k < n" for k
  proof -
    have "of_nat k \<in> r_Seq ` set rcvd"
      using mem [of k] that assms(3) by (auto simp: numbers_skipping_def)
    then obtain m where m: "m \<in> set rcvd" "r_Seq m = of_nat k" by auto
    have "s_Seq (sent ! k) = map of_nat (numbers_skipping g n) ! k"
      using len that by (simp flip: assms(1))
    then have "s_Seq (sent ! k) = of_nat (Suc k)"
      using nth_numbers_skipping [of g k n] length_numbers_skipping [OF assms(2)] that by simp
    moreover have "processUDP sent rcvd ! k = rcvd_result (of_nat k) (sent ! k) (r_TsRcvd m) []"
      using processUDP_nth [OF small, of k] arrival_of_one [OF assms(4) m(1)] m(2) len that by (simp add: result_for_def)
    ultimately show ?thesis using m by blast
  qed
  show ?thesis using processUDP_length [OF small] len lost row by auto
qed

definition gap_sent :: "msg_sent list" where
  "gap_sent = [\<lparr>s_Seq = 0, s_TsSent = 10, s_Len = 1200\<rparr>, \<lparr>s_Seq = 2, s_TsSent = 20, s_Len = 1200\<rparr>,
     \<lparr>s_Seq = 3, s_TsSent = 30, s_Len = 1200\<rparr>]"

definition gap_rcvd :: "msg_rcvd list" where
  "gap_rcvd = [\<lparr>r_Seq = 0, r_TsRcvd = 15, r_Len = 1200\<rparr>, \<lparr>r_Seq = 2, r_TsRcvd = 25, r_Len = 1200\<rparr>,
     \<lparr>r_Seq = 3, r_TsRcvd = 35, r_Len = 1200\<rparr>]"

theorem packet_gap_shifts_rows_witness:
  "Lost (processUDP gap_sent gap_rcvd ! 1) \<and>
   processUDP gap_sent gap_rcvd ! 2 = rcvd_result 2 \<lparr>s_Seq = 3, s_TsSent = 30, s_Len = 1200\<rparr> 25 []"
proof -
  have nums: "map s_Seq gap_sent = map of_nat (numbers_skipping 1 3)"
  proof -
    have "numbers_skipping 1 3 = [0, 2, 3]" by code_simp
    then show ?thesis by (simp add: gap_sent_def)
  qed
  have "distinct (map r_Seq gap_rcvd)" "set (map r_Seq gap_rcvd) = set (map s_Seq gap_sent)"
    by (simp_all add: gap_rcvd_def gap_sent_def)
  from packet_gap_shifts_rows [OF nums _ _ this]
  have lost: "Lost (processUDP gap_sent gap_rcvd ! 1)"
    and rows: "\<forall>k \<in> {1<..<3}. \<exists>m \<in> set gap_rcvd. r_Seq m = of_nat k \<and> s_Seq (gap_sent ! k) = of_nat (Suc k) \<and>
        processUDP gap_sent gap_rcvd ! k = rcvd_result (of_nat k) (gap_sent ! k) (r_TsRcvd m) []"
    by simp_all
  have "Lost (processUDP gap_sent gap_rcvd ! 1) \<and> (\<exists>m \<in> set gap_rcvd. r_Seq m = of_nat 2 \<and>
      processUDP gap_sent gap_rcvd ! 2 = rcvd_result (of_nat 2) (gap_sent ! 2) (r_TsRcvd m) [])"
    using lost bspec [OF rows, of 2] by auto
  then show ?thesis by (auto simp: gap_rcvd_def gap_sent_def)
qed

text \<open>A run of the collector: one message before \<open>quit\<close>, one that races with it and one too late.\<close>

theorem collector_complete_witness:
  "collected [Callback (1 :: nat)] [Callback 2, SeeQuit, Receive, Receive, DrainExpired, Callback 3] = Some [1, 2] \<and>
   prefix [1 :: nat] [1, 2] \<and> subseq [1 :: nat, 2] [1, 2, 3]"
proof -
  let ?post = "[Callback (2 :: nat), SeeQuit, Receive, Receive, DrainExpired, Callback 3]"
  have run: "collected [Callback 1] ?post = Some [1, 2]" by code_simp
  have pre: "trace_run [Callback (1 :: nat)] NewQUICTracer =
      Some \<lparr>tr_buf = [1], tr_blocked = [], tr_lost = [], tr_quit = False, tr_Result = [], tr_reader = Collecting\<rparr>"
    by code_simp
  show ?thesis using run collector_complete [OF run pre] by simp
qed

text \<open>A callback that finds the channel full.\<close>

definition full_channel :: "nat trace_event list" where
  "full_channel = map Callback [0..<1001]"

theorem callbacks_never_stuck_witness:
  "case trace_run full_channel NewQUICTracer of
     None \<Rightarrow> False
   | Some t \<Rightarrow> tr_blocked t = [1000] \<and>
       (\<exists>t'. trace_step Receive t = Some t' \<and> length (tr_blocked t') = 0)"
proof -
  have fill: "trace_run (map Callback xs) (t :: nat tracer) = Some (t\<lparr>tr_buf := tr_buf t @ xs\<rparr>)"
    if "length (tr_buf t) + length xs \<le> 1000" for xs and t :: "nat tracer"
    using that by (induction xs arbitrary: t) (auto simp: callback_step_def)
  have full: "full_channel = map Callback [0..<1000] @ [Callback 1000]"
    using upt_Suc_append [of 0 1000] by (simp add: full_channel_def del: upt_rec_numeral upt_Suc)
  have run: "trace_run full_channel NewQUICTracer =
      Some (NewQUICTracer\<lparr>tr_buf := [0..<1000], tr_blocked := [1000]\<rparr>)"
    unfolding full using fill [of NewQUICTracer "[0..<1000]"]
    by (simp add: run_steps_append NewQUICTracer_def callback_step_def del: upt_rec_numeral)
  show ?thesis using run callbacks_never_stuck [OF run, of 0] by (simp add: NewQUICTracer_def del: upt_rec_numeral)
qed

end
