(* ===== verification/Server_Lifecycle.thy ===== *)
theory Server_Lifecycle
  imports Go_Prelude Step_Systems
begin

text \<open>
  The life of the RPC server (\<open>RunServer\<close> and \<open>Stop\<close> of \<open>pkg/server.go\<close>): the accept loop, one goroutine per
  connection, the table of connections and the wait group that \<open>Stop\<close> waits for, as interleaved atomic
  sections; the log channel (\<open>RequestSlog\<close>); and the bounded call a client makes for optional
  information (\<open>pkg/metadata.go\<close>). The listener and the RPC library answer through events.
\<close>

section \<open>State\<close>

datatype acceptor = Accepting | Accepted nat | Counted nat | Registered nat | AcceptorEnded

datatype handler = Serving | Disconnected | Deleted | HandlerEnded

datatype stop_phase = NotStopping | ListenerClosed | ConnsClosed | StopReturned

text \<open>Connections are numbered in the order they are accepted; \<open>lf_closed\<close> are those that one of the two
  sides has closed.\<close>

record lifecycle =
  lf_listening :: bool
  lf_accepted :: nat
  lf_acceptor :: acceptor
  lf_handlers :: "(nat \<times> handler) list"
  lf_conns :: "nat set"
  lf_closed :: "nat set"
  lf_wg :: nat
  lf_stop :: stop_phase

definition RunServer :: lifecycle where
  "RunServer = \<lparr>lf_listening = True, lf_accepted = 0, lf_acceptor = Accepting, lf_handlers = [], lf_conns = {},
     lf_closed = {}, lf_wg = 1, lf_stop = NotStopping\<rparr>"

datatype life_event = Dial | AcceptFails | AcceptorStep | ClientCloses nat | HandlerStep nat | StopStep

text \<open>The goroutine of the accept loop after \<open>Accept\<close> returned a connection: \<open>wg.Add\<close>, the locked insertion, the
  new goroutine.\<close>

definition acceptor_step :: "lifecycle \<Rightarrow> lifecycle option" where
  "acceptor_step s =
     (case lf_acceptor s of
        Accepted c \<Rightarrow> Some (s\<lparr>lf_wg := lf_wg s + 1, lf_acceptor := Counted c\<rparr>)
      | Counted c \<Rightarrow> Some (s\<lparr>lf_conns := insert c (lf_conns s), lf_acceptor := Registered c\<rparr>)
      | Registered c \<Rightarrow> Some (s\<lparr>lf_handlers := lf_handlers s @ [(c, Serving)], lf_acceptor := Accepting\<rparr>)
      | _ \<Rightarrow> None)"

text \<open>The goroutine of one connection: \<open>ServeConn\<close> returns when the connection is closed.\<close>

definition handler_step :: "nat \<Rightarrow> lifecycle \<Rightarrow> lifecycle option" where
  "handler_step i s =
     (if i < length (lf_handlers s) then
        (case lf_handlers s ! i of (c, h) \<Rightarrow>
          (case h of
             Serving \<Rightarrow> if c \<in> lf_closed s then Some (s\<lparr>lf_handlers := (lf_handlers s)[i := (c, Disconnected)]\<rparr>) else None
           | Disconnected \<Rightarrow> Some (s\<lparr>lf_conns := lf_conns s - {c}, lf_handlers := (lf_handlers s)[i := (c, Deleted)]\<rparr>)
           | Deleted \<Rightarrow> Some (s\<lparr>lf_wg := lf_wg s - 1, lf_handlers := (lf_handlers s)[i := (c, HandlerEnded)]\<rparr>)
           | HandlerEnded \<Rightarrow> None))
      else None)"

definition Stop_step :: "lifecycle \<Rightarrow> lifecycle option" where
  "Stop_step s =
     (case lf_stop s of
        NotStopping \<Rightarrow> Some (s\<lparr>lf_listening := False, lf_stop := ListenerClosed\<rparr>)
      | ListenerClosed \<Rightarrow> Some (s\<lparr>lf_closed := lf_closed s \<union> lf_conns s, lf_stop := ConnsClosed\<rparr>)
      | ConnsClosed \<Rightarrow> if lf_wg s = 0 then Some (s\<lparr>lf_stop := StopReturned\<rparr>) else None
      | StopReturned \<Rightarrow> None)"

text \<open>\<open>AcceptFails\<close> is any error of \<open>Accept\<close>, also one while the server is not stopping: each ends the loop.\<close>

fun life_step :: "life_event \<Rightarrow> lifecycle \<Rightarrow> lifecycle option" where
  "life_step Dial s =
     (if lf_listening s \<and> lf_acceptor s = Accepting
      then Some (s\<lparr>lf_acceptor := Accepted (lf_accepted s), lf_accepted := lf_accepted s + 1\<rparr>) else None)"
| "life_step AcceptFails s =
     (if lf_acceptor s = Accepting then Some (s\<lparr>lf_wg := lf_wg s - 1, lf_acceptor := AcceptorEnded\<rparr>) else None)"
| "life_step AcceptorStep s = acceptor_step s"
| "life_step (ClientCloses c) s =
     (if c < lf_accepted s then Some (s\<lparr>lf_closed := insert c (lf_closed s)\<rparr>) else None)"
| "life_step (HandlerStep i) s = handler_step i s"
| "life_step StopStep s = Stop_step s"

abbreviation life_run :: "life_event list \<Rightarrow> lifecycle \<Rightarrow> lifecycle option" where
  "life_run \<equiv> run_steps life_step"

section \<open>The wait group counts the goroutines\<close>

fun held :: "acceptor \<Rightarrow> nat set" where
  "held (Accepted c) = {c}"
| "held (Counted c) = {c}"
| "held (Registered c) = {c}"
| "held _ = {}"

fun acceptor_count :: "acceptor \<Rightarrow> nat" where
  "acceptor_count AcceptorEnded = 0"
| "acceptor_count Accepting = 1"
| "acceptor_count (Accepted c) = 1"
| "acceptor_count (Counted c) = 2"
| "acceptor_count (Registered c) = 2"

definition running :: "(nat \<times> handler) list \<Rightarrow> nat" where
  "running hs = length (filter (\<lambda>h. snd h \<noteq> HandlerEnded) hs)"

definition registered :: "lifecycle \<Rightarrow> nat set" where
  "registered s = {c. (c, Serving) \<in> set (lf_handlers s) \<or> (c, Disconnected) \<in> set (lf_handlers s)} \<union>
     (case lf_acceptor s of Registered c \<Rightarrow> {c} | _ \<Rightarrow> {})"

definition wg_ok :: "lifecycle \<Rightarrow> bool" where
  "wg_ok s \<longleftrightarrow> lf_wg s = acceptor_count (lf_acceptor s) + running (lf_handlers s)"

definition keys_ok :: "lifecycle \<Rightarrow> bool" where
  "keys_ok s \<longleftrightarrow> distinct (map fst (lf_handlers s)) \<and> held (lf_acceptor s) \<inter> fst ` set (lf_handlers s) = {} \<and>
     held (lf_acceptor s) \<union> fst ` set (lf_handlers s) \<subseteq> {..<lf_accepted s}"

definition closed_ok :: "lifecycle \<Rightarrow> bool" where
  "closed_ok s \<longleftrightarrow> fst ` {ch \<in> set (lf_handlers s). snd ch \<noteq> Serving} \<subseteq> lf_closed s"

definition stop_ok :: "lifecycle \<Rightarrow> bool" where
  "stop_ok s \<longleftrightarrow> (lf_listening s \<longleftrightarrow> lf_stop s = NotStopping) \<and> (lf_stop s = StopReturned \<longrightarrow> lf_wg s = 0)"

definition life_ok :: "lifecycle \<Rightarrow> bool" where
  "life_ok s \<longleftrightarrow> wg_ok s \<and> keys_ok s \<and> lf_conns s = registered s \<and> closed_ok s \<and> stop_ok s"

lemmas life_ok_defs = wg_ok_def keys_ok_def closed_ok_def stop_ok_def

lemma life_ok_init [simp]: "life_ok RunServer"
  by (simp add: life_ok_def life_ok_defs RunServer_def running_def registered_def)

lemma running_update:
  "i < length hs \<Longrightarrow> hs ! i = (c, h) \<Longrightarrow> h \<noteq> HandlerEnded \<Longrightarrow>
   running (hs[i := (c, h')]) = (if h' = HandlerEnded then running hs - 1 else running hs)"
proof (induction hs arbitrary: i)
  case (Cons x hs)
  show ?case
  proof (cases i)
    case (Suc j)
    then have "running hs > 0"
    proof -
      have "hs ! j \<in> set hs" "snd (hs ! j) \<noteq> HandlerEnded" using Cons.prems Suc nth_mem [of j hs] by auto
      then show ?thesis by (auto simp: running_def length_greater_0_conv filter_empty_conv)
    qed
    then show ?thesis using Cons Suc by (auto simp: running_def)
  qed (use Cons in \<open>auto simp: running_def\<close>)
qed simp

lemma running_append [simp]: "running (hs @ [(c, Serving)]) = running hs + 1"
  by (simp add: running_def)

lemma handler_keys: "i < length hs \<Longrightarrow> hs ! i = (c, h) \<Longrightarrow> map fst (hs[i := (c, h')]) = map fst hs"
  by (metis fst_conv list_update_id map_update)

lemma set_handlers_update:
  assumes "distinct (map fst hs)" and "i < length hs" and "hs ! i = (c, h)"
  shows "set (hs[i := (c, h')]) = insert (c, h') (set hs - {(c, h)})"
proof -
  have "distinct hs" using assms(1) by (simp add: distinct_map)
  then show ?thesis using assms(2,3) by (simp add: set_update_distinct)
qed

lemma one_phase: "distinct (map fst hs) \<Longrightarrow> (c, h) \<in> set hs \<Longrightarrow> (c, h') \<in> set hs \<Longrightarrow> h' = h"
  by (metis map_of_eq_Some_iff option.inject)

lemma running_pos: "i < length hs \<Longrightarrow> hs ! i = (c, h) \<Longrightarrow> h \<noteq> HandlerEnded \<Longrightarrow> 0 < running hs"
  unfolding running_def length_greater_0_conv filter_empty_conv by (metis nth_mem snd_conv)

text \<open>A handler that moves on, with what it does to the table and the wait group.\<close>

lemma handler_step_cases:
  assumes "handler_step i s = Some s'"
  obtains c h where "i < length (lf_handlers s)" and "lf_handlers s ! i = (c, h)"
    and "h = Serving \<and> c \<in> lf_closed s \<and> s' = s\<lparr>lf_handlers := (lf_handlers s)[i := (c, Disconnected)]\<rparr> \<or>
      h = Disconnected \<and> s' = s\<lparr>lf_conns := lf_conns s - {c}, lf_handlers := (lf_handlers s)[i := (c, Deleted)]\<rparr> \<or>
      h = Deleted \<and> s' = s\<lparr>lf_wg := lf_wg s - 1, lf_handlers := (lf_handlers s)[i := (c, HandlerEnded)]\<rparr>"
proof (cases "i < length (lf_handlers s)")
  case True
  obtain c h where "lf_handlers s ! i = (c, h)" by (cases "lf_handlers s ! i")
  with True assms show ?thesis by (intro that [of c h]) (cases h; simp add: handler_step_def split: if_splits)+
qed (use assms in \<open>simp add: handler_step_def\<close>)

lemma keys_ok_update:
  assumes "keys_ok s" and "i < length (lf_handlers s)" and "lf_handlers s ! i = (c, h)"
  shows "keys_ok (s\<lparr>lf_handlers := (lf_handlers s)[i := (c, h')]\<rparr>)"
proof -
  have "fst ` set ((lf_handlers s)[i := (c, h')]) = fst ` set (lf_handlers s)"
    using handler_keys [OF assms(2,3), of h'] by (metis list.set_map)
  then show ?thesis using assms(1) handler_keys [OF assms(2,3), of h'] by (simp add: keys_ok_def)
qed

lemma closed_ok_update:
  assumes "keys_ok s" and "closed_ok s" and "i < length (lf_handlers s)" and "lf_handlers s ! i = (c, h)" and "c \<in> lf_closed s"
  shows "closed_ok (s\<lparr>lf_handlers := (lf_handlers s)[i := (c, h')]\<rparr>)"
proof -
  have "set ((lf_handlers s)[i := (c, h')]) = insert (c, h') (set (lf_handlers s) - {(c, h)})"
    using assms(1) by (intro set_handlers_update assms(3,4)) (simp add: keys_ok_def)
  then show ?thesis using assms(2,5) by (auto simp: closed_ok_def)
qed

lemma handler_closed:
  "closed_ok s \<Longrightarrow> i < length (lf_handlers s) \<Longrightarrow> lf_handlers s ! i = (c, h) \<Longrightarrow> h \<noteq> Serving \<Longrightarrow> c \<in> lf_closed s"
  using nth_mem [of i "lf_handlers s"] unfolding closed_ok_def by force

lemma registered_update:
  assumes "keys_ok s" and "i < length (lf_handlers s)" and "lf_handlers s ! i = (c, h)"
  shows "registered (s\<lparr>lf_handlers := (lf_handlers s)[i := (c, h')]\<rparr>) =
    (if h' = Serving \<or> h' = Disconnected then insert c (registered s) else registered s - {c})"
proof -
  have d: "distinct (map fst (lf_handlers s))" using assms(1) by (simp add: keys_ok_def)
  have mem: "(c, h) \<in> set (lf_handlers s)" using nth_mem [OF assms(2)] assms(3) by simp
  have "c \<notin> held (lf_acceptor s)" using assms(1) mem by (force simp: keys_ok_def)
  moreover have "(c, k) \<in> set (lf_handlers s) \<Longrightarrow> k = h" for k using one_phase [OF d mem] by simp
  ultimately show ?thesis
    unfolding registered_def by (cases h') (auto simp: set_handlers_update [OF d assms(2,3)] split: acceptor.splits)
qed

lemma registered_mem:
  "i < length (lf_handlers s) \<Longrightarrow> lf_handlers s ! i = (c, h) \<Longrightarrow> h = Serving \<or> h = Disconnected \<Longrightarrow> c \<in> registered s"
  using nth_mem [of i "lf_handlers s"] by (auto simp: registered_def)

lemma registered_not:
  assumes "keys_ok s" and "i < length (lf_handlers s)" and "lf_handlers s ! i = (c, h)" and "h \<noteq> Serving" and "h \<noteq> Disconnected"
  shows "c \<notin> registered s"
proof -
  have d: "distinct (map fst (lf_handlers s))" using assms(1) by (simp add: keys_ok_def)
  have mem: "(c, h) \<in> set (lf_handlers s)" using nth_mem [OF assms(2)] assms(3) by simp
  have "c \<notin> held (lf_acceptor s)" using assms(1) mem by (force simp: keys_ok_def)
  moreover have "(c, k) \<in> set (lf_handlers s) \<Longrightarrow> k = h" for k using one_phase [OF d mem] by simp
  ultimately show ?thesis using assms(4,5) by (auto simp: registered_def split: acceptor.splits)
qed

lemma handler_step_ok:
  assumes ok: "life_ok s" and step: "handler_step i s = Some s'"
  shows "life_ok s'"
proof -
  have k: "keys_ok s" and w: "wg_ok s" and conns: "lf_conns s = registered s" and cl: "closed_ok s" and st: "stop_ok s"
    using ok by (simp_all add: life_ok_def)
  from step show ?thesis
  proof (cases rule: handler_step_cases)
    case (1 c h)
    note i = 1(1,2)
    have parts: "keys_ok (s\<lparr>lf_handlers := (lf_handlers s)[i := (c, h')]\<rparr>)"
      "c \<in> lf_closed s \<Longrightarrow> closed_ok (s\<lparr>lf_handlers := (lf_handlers s)[i := (c, h')]\<rparr>)" for h'
      using keys_ok_update [OF k i] closed_ok_update [OF k cl i] by simp_all
    from 1(3) consider "h = Serving" "c \<in> lf_closed s" "s' = s\<lparr>lf_handlers := (lf_handlers s)[i := (c, Disconnected)]\<rparr>"
      | "h = Disconnected" "s' = s\<lparr>lf_conns := lf_conns s - {c}, lf_handlers := (lf_handlers s)[i := (c, Deleted)]\<rparr>"
      | "h = Deleted" "s' = s\<lparr>lf_wg := lf_wg s - 1, lf_handlers := (lf_handlers s)[i := (c, HandlerEnded)]\<rparr>"
      by blast
    then show ?thesis
    proof cases
      case 1
      have "registered s' = registered s"
        unfolding 1(3) using registered_update [OF k i, of Disconnected] registered_mem [OF i] 1(1) by auto
      then show ?thesis
        using parts [of Disconnected] 1 w conns st running_update [OF i, of Disconnected]
        by (simp add: life_ok_def wg_ok_def stop_ok_def)
    next
      case 2
      have "registered s' = registered s - {c}"
        using registered_update [OF k i, of Deleted] 2(2) by (simp add: registered_def)
      moreover have "c \<in> lf_closed s" using handler_closed [OF cl i] 2(1) by simp
      ultimately show ?thesis
        using parts [of Deleted] 2 w conns st running_update [OF i, of Deleted]
        by (simp add: life_ok_def life_ok_defs)
    next
      case 3
      have "registered s' = registered s"
        using registered_update [OF k i, of HandlerEnded] registered_not [OF k i] 3 by (simp add: registered_def)
      moreover have "c \<in> lf_closed s" using handler_closed [OF cl i] 3(1) by simp
      ultimately show ?thesis
        using parts [of HandlerEnded] 3 w conns st running_update [OF i, of HandlerEnded] running_pos [OF i]
        by (simp add: life_ok_def life_ok_defs)
    qed
  qed
qed

lemma acceptor_step_ok:
  assumes ok: "life_ok s" and step: "acceptor_step s = Some s'"
  shows "life_ok s'"
proof (cases "lf_acceptor s")
  case (Registered c)
  have s': "s' = s\<lparr>lf_handlers := lf_handlers s @ [(c, Serving)], lf_acceptor := Accepting\<rparr>"
    using step Registered by (simp add: acceptor_step_def)
  have "registered s' = registered s" unfolding registered_def s' using Registered by auto
  moreover have "{ch \<in> set (lf_handlers s'). snd ch \<noteq> Serving} = {ch \<in> set (lf_handlers s). snd ch \<noteq> Serving}"
    unfolding s' by auto
  ultimately show ?thesis using ok Registered unfolding life_ok_def life_ok_defs by (simp add: s', metis nat.distinct(1))
next
  case (Accepted c)
  then have s': "s' = s\<lparr>lf_wg := lf_wg s + 1, lf_acceptor := Counted c\<rparr>" using step by (simp add: acceptor_step_def)
  then have "registered s' = registered s" unfolding registered_def s' using Accepted by simp
  then show ?thesis using ok Accepted unfolding life_ok_def life_ok_defs by (simp add: s', metis nat.distinct(1))
next
  case (Counted c)
  then have s': "s' = s\<lparr>lf_conns := insert c (lf_conns s), lf_acceptor := Registered c\<rparr>"
    using step by (simp add: acceptor_step_def)
  then have "registered s' = insert c (registered s)" unfolding registered_def s' using Counted by auto
  then show ?thesis using ok Counted unfolding life_ok_def life_ok_defs by (simp add: s', metis nat.distinct(1))
qed (use step in \<open>simp_all add: acceptor_step_def\<close>)

lemma Stop_step_ok:
  assumes "life_ok s" and "Stop_step s = Some s'"
  shows "life_ok s'"
proof -
  consider "s' = s\<lparr>lf_listening := False, lf_stop := ListenerClosed\<rparr>" "lf_stop s = NotStopping"
    | "s' = s\<lparr>lf_closed := lf_closed s \<union> lf_conns s, lf_stop := ConnsClosed\<rparr>" "lf_stop s = ListenerClosed"
    | "s' = s\<lparr>lf_stop := StopReturned\<rparr>" "lf_stop s = ConnsClosed" "lf_wg s = 0"
    using assms(2) by (cases "lf_stop s") (auto simp: Stop_step_def split: if_splits)
  then show ?thesis
    using assms(1) by cases (simp_all add: life_ok_def life_ok_defs registered_def le_supI1)
qed

lemma life_step_ok:
  assumes "life_ok s" and "life_step ev s = Some s'"
  shows "life_ok s'"
proof (cases ev)
  case (HandlerStep i)
  then show ?thesis using assms handler_step_ok by simp
next
  case AcceptorStep
  then show ?thesis using assms acceptor_step_ok by simp
next
  case StopStep
  then show ?thesis using assms Stop_step_ok by simp
next
  case Dial
  then have acc: "lf_acceptor s = Accepting" and s': "s' = s\<lparr>lf_acceptor := Accepted (lf_accepted s), lf_accepted := lf_accepted s + 1\<rparr>"
    using assms by (simp_all split: if_splits)
  have "registered s' = registered s" unfolding registered_def s' using acc by simp
  moreover have "keys_ok s'" using assms(1) acc unfolding life_ok_def keys_ok_def s' by (auto simp: subset_iff less_Suc_eq)
  ultimately show ?thesis
    using assms(1) acc unfolding life_ok_def wg_ok_def closed_ok_def stop_ok_def by (simp add: s', metis nat.distinct(1))
next
  case AcceptFails
  then have acc: "lf_acceptor s = Accepting" and s': "s' = s\<lparr>lf_wg := lf_wg s - 1, lf_acceptor := AcceptorEnded\<rparr>"
    using assms by (simp_all split: if_splits)
  have "registered s' = registered s" unfolding registered_def s' using acc by simp
  then show ?thesis using assms(1) acc unfolding life_ok_def life_ok_defs by (simp add: s', metis nat.distinct(1))
next
  case (ClientCloses c)
  then have s': "s' = s\<lparr>lf_closed := insert c (lf_closed s)\<rparr>" using assms by (simp split: if_splits)
  have "registered s' = registered s" unfolding registered_def s' by simp
  then show ?thesis using assms(1) unfolding life_ok_def life_ok_defs by (simp add: s' subset_insertI2, metis add_is_0)
qed

interpretation life: step_invariant life_step life_ok
  by unfold_locales (rule life_step_ok)

section \<open>When Stop returns\<close>

text \<open>Connections that neither side has closed and that a goroutine of the server holds.\<close>

definition open_conns :: "lifecycle \<Rightarrow> nat set" where
  "open_conns s = (held (lf_acceptor s) \<union> {c. (c, Serving) \<in> set (lf_handlers s)}) - lf_closed s"

fun server_event :: "life_event \<Rightarrow> bool" where
  "server_event Dial \<longleftrightarrow> False"
| "server_event (ClientCloses c) \<longleftrightarrow> False"
| "server_event _ \<longleftrightarrow> True"

definition stopping :: "lifecycle \<Rightarrow> bool" where
  "stopping s \<longleftrightarrow> lf_stop s = ConnsClosed \<or> lf_stop s = StopReturned"

lemma held_single: "\<exists>c. held a \<subseteq> {c}"
  by (cases a) auto

lemma handler_step_open:
  assumes "keys_ok s" and "handler_step i s = Some s'"
  shows "open_conns s' = open_conns s \<and> lf_stop s' = lf_stop s \<and> lf_closed s' = lf_closed s"
  using assms(2)
proof (cases rule: handler_step_cases)
  case (1 c h)
  have d: "distinct (map fst (lf_handlers s))" using assms(1) by (simp add: keys_ok_def)
  have upd: "set ((lf_handlers s)[i := (c, h')]) = insert (c, h') (set (lf_handlers s) - {(c, h)})" for h'
    by (rule set_handlers_update [OF d 1(1,2)])
  have "{x. (x, Serving) \<in> set ((lf_handlers s)[i := (c, h')])} - lf_closed s = {x. (x, Serving) \<in> set (lf_handlers s)} - lf_closed s"
    if "h' \<noteq> Serving" "h = Serving \<longrightarrow> c \<in> lf_closed s" for h' using that upd [of h'] by auto
  then have eq: "{x. (x, Serving) \<in> set ((lf_handlers s)[i := (c, h')])} - lf_closed s = {x. (x, Serving) \<in> set (lf_handlers s)} - lf_closed s"
    if "h' \<noteq> Serving" for h' using that 1(3) by blast
  show ?thesis using 1(3) eq [of Disconnected] eq [of Deleted] eq [of HandlerEnded]
    by (elim disjE conjE) (simp_all add: open_conns_def Un_Diff)
qed

lemma acceptor_step_open:
  assumes "acceptor_step s = Some s'"
  shows "open_conns s' = open_conns s \<and> lf_stop s' = lf_stop s \<and> lf_closed s' = lf_closed s"
  using assms by (cases "lf_acceptor s") (auto simp: acceptor_step_def open_conns_def)

lemma server_event_open:
  assumes "life_ok s" and "stopping s" and "server_event ev" and "life_step ev s = Some s'"
  shows "open_conns s' = open_conns s \<and> stopping s'"
proof (cases ev)
  case (HandlerStep i)
  then show ?thesis using assms handler_step_open [of s i s'] by (simp add: life_ok_def stopping_def)
next
  case AcceptorStep
  then show ?thesis using assms acceptor_step_open [of s s'] by (simp add: stopping_def)
next
  case StopStep
  then show ?thesis using assms by (auto simp: Stop_step_def stopping_def open_conns_def split: stop_phase.splits if_splits)
qed (use assms in \<open>auto simp: stopping_def open_conns_def split: if_splits\<close>)

lemma stopping_open:
  assumes "life_ok s" and "stopping s" and "life_step ev s = Some s'"
  shows "open_conns s' \<subseteq> open_conns s \<and> stopping s'"
proof (cases "server_event ev")
  case True
  then show ?thesis using server_event_open [OF assms(1,2) True assms(3)] by simp
next
  case False
  have "\<not> lf_listening s" using assms(1,2) by (auto simp: life_ok_def stop_ok_def stopping_def)
  then show ?thesis using False assms(2,3)
    by (cases ev) (auto simp: stopping_def open_conns_def split: if_splits)
qed

text \<open>Closing the connections of the table leaves open at most the one that the accept loop has just taken.\<close>

lemma one_open:
  assumes "life_ok s" and "lf_stop s = ListenerClosed" and "Stop_step s = Some s'"
  shows "open_conns s' \<subseteq> held (lf_acceptor s)"
proof -
  have s': "s' = s\<lparr>lf_closed := lf_closed s \<union> lf_conns s, lf_stop := ConnsClosed\<rparr>"
    using assms(2,3) by (simp add: Stop_step_def)
  have "{c. (c, Serving) \<in> set (lf_handlers s)} \<subseteq> lf_conns s"
    using assms(1) by (auto simp: life_ok_def registered_def)
  then show ?thesis unfolding s' open_conns_def by auto
qed

lemma life_step_one_open:
  assumes "life_ok s" and "stopping s \<longrightarrow> (\<exists>c. open_conns s \<subseteq> {c})" and "life_step ev s = Some s'"
  shows "stopping s' \<longrightarrow> (\<exists>c. open_conns s' \<subseteq> {c})"
proof (cases "stopping s")
  case True
  then show ?thesis using assms(2) stopping_open [OF assms(1) True assms(3)] by (meson subset_trans)
next
  case False
  show ?thesis
  proof
    assume stop: "stopping s'"
    have "ev = StopStep"
      using stop False assms(3) acceptor_step_open [of s s'] handler_step_open [of s _ s'] assms(1)
      by (cases ev) (auto simp: stopping_def life_ok_def split: if_splits)
    then have "Stop_step s = Some s'" "lf_stop s = ListenerClosed"
      using assms(3) stop False by (auto simp: stopping_def Stop_step_def split: stop_phase.splits if_splits)
    then have "open_conns s' \<subseteq> held (lf_acceptor s)" using one_open [OF assms(1)] by simp
    then show "\<exists>c. open_conns s' \<subseteq> {c}" using held_single by (meson subset_trans)
  qed
qed

interpretation stop_open: step_invariant life_step
    "\<lambda>s. life_ok s \<and> (stopping s \<longrightarrow> (\<exists>c. open_conns s \<subseteq> {c}))"
  by unfold_locales (use life_step_ok life_step_one_open in blast)

subsection \<open>Progress\<close>

fun acceptor_work :: "acceptor \<Rightarrow> nat" where
  "acceptor_work AcceptorEnded = 0"
| "acceptor_work Accepting = 1"
| "acceptor_work (Registered c) = 6"
| "acceptor_work (Counted c) = 7"
| "acceptor_work (Accepted c) = 8"

fun handler_work :: "handler \<Rightarrow> nat" where
  "handler_work Serving = 4"
| "handler_work Disconnected = 3"
| "handler_work Deleted = 2"
| "handler_work HandlerEnded = 0"

definition work :: "lifecycle \<Rightarrow> nat" where
  "work s = acceptor_work (lf_acceptor s) + sum_list (map (handler_work \<circ> snd) (lf_handlers s))"

lemma work_update:
  "i < length hs \<Longrightarrow> hs ! i = (c, h) \<Longrightarrow> handler_work h' < handler_work h \<Longrightarrow>
   sum_list (map (handler_work \<circ> snd) (hs[i := (c, h')])) < sum_list (map (handler_work \<circ> snd) hs)"
proof (induction hs arbitrary: i)
  case (Cons x hs)
  then show ?case by (cases i) auto
qed simp

lemma handler_step_work:
  assumes "handler_step i s = Some s'"
  shows "work s' < work s"
  using assms
proof (cases rule: handler_step_cases)
  case (1 c h)
  then show ?thesis using work_update [OF 1(1,2)] by (auto simp: work_def)
qed

lemma acceptor_step_work: "acceptor_step s = Some s' \<Longrightarrow> work s' < work s"
  by (cases "lf_acceptor s") (auto simp: acceptor_step_def work_def)

lemma handler_can_step:
  assumes "open_conns s = {}" and "0 < running (lf_handlers s)"
  shows "\<exists>i s'. handler_step i s = Some s'"
proof -
  obtain c h where "(c, h) \<in> set (lf_handlers s)" "h \<noteq> HandlerEnded"
    using assms(2) by (auto simp: running_def length_greater_0_conv filter_empty_conv)
  then obtain i where i: "i < length (lf_handlers s)" "lf_handlers s ! i = (c, h)"
    by (auto simp: in_set_conv_nth)
  have "h = Serving \<Longrightarrow> c \<in> lf_closed s" using assms(1) \<open>(c, h) \<in> set (lf_handlers s)\<close> by (auto simp: open_conns_def)
  then show ?thesis using i \<open>h \<noteq> HandlerEnded\<close> by (intro exI [of _ i]) (cases h; simp add: handler_step_def)
qed

lemma stop_progress:
  assumes "life_ok s" and "lf_stop s = ConnsClosed" and "open_conns s = {}"
  shows "\<exists>ev s'. server_event ev \<and> life_step ev s = Some s' \<and>
     (lf_stop s' = StopReturned \<or> lf_stop s' = ConnsClosed \<and> work s' < work s)"
proof -
  consider "lf_acceptor s = Accepting" | "\<exists>c. lf_acceptor s \<in> {Accepted c, Counted c, Registered c}"
    | "lf_acceptor s = AcceptorEnded" by (cases "lf_acceptor s") auto
  then show ?thesis
  proof cases
    case 1
    then show ?thesis using assms(2) by (intro exI [of _ AcceptFails]) (auto simp: work_def)
  next
    case 2
    then obtain s' where "acceptor_step s = Some s'" by (auto simp: acceptor_step_def)
    then show ?thesis using acceptor_step_work acceptor_step_open [of s s'] assms(2)
      by (intro exI [of _ AcceptorStep] exI [of _ s']) auto
  next
    case 3
    show ?thesis
    proof (cases "0 < running (lf_handlers s)")
      case True
      then obtain i s' where st: "handler_step i s = Some s'" using handler_can_step [OF assms(3)] by blast
      then show ?thesis using handler_step_work handler_step_open [OF _ st] assms(1,2)
        by (intro exI [of _ "HandlerStep i"] exI [of _ s']) (auto simp: life_ok_def)
    next
      case False
      then have "lf_wg s = 0" using assms(1) 3 by (simp add: life_ok_def wg_ok_def)
      then show ?thesis using assms(2) by (intro exI [of _ StopStep]) (simp add: Stop_step_def)
    qed
  qed
qed

lemma stop_finishes:
  assumes "life_ok s" and "lf_stop s = ConnsClosed" and "open_conns s = {}"
  shows "\<exists>evs s'. list_all server_event evs \<and> life_run evs s = Some s' \<and> lf_stop s' = StopReturned"
  using assms
proof (induction "work s" arbitrary: s rule: less_induct)
  case less
  obtain ev s1 where ev: "server_event ev" "life_step ev s = Some s1"
    and s1: "lf_stop s1 = StopReturned \<or> lf_stop s1 = ConnsClosed \<and> work s1 < work s"
    using stop_progress [OF less.prems] by blast
  show ?case
  proof (cases "lf_stop s1 = StopReturned")
    case True
    then show ?thesis using ev by (intro exI [of _ "[ev]"]) simp
  next
    case False
    have "open_conns s1 = {}"
      using server_event_open [OF less.prems(1) _ ev] less.prems(2,3) by (simp add: stopping_def)
    then obtain evs s' where "list_all server_event evs" "life_run evs s1 = Some s'" "lf_stop s' = StopReturned"
      using less.hyps [of s1] False s1 life_step_ok [OF less.prems(1) ev(2)] by blast
    then show ?thesis using ev by (intro exI [of _ "ev # evs"]) auto
  qed
qed

interpretation alone: step_effect life_step life_ok
    "\<lambda>s evs s'. list_all server_event evs \<and> stopping s \<longrightarrow> open_conns s' = open_conns s \<and> stopping s'"
  by unfold_locales (auto dest: server_event_open)

lemma nothing_runs:
  assumes "life_ok s" and "lf_wg s = 0"
  shows "lf_acceptor s = AcceptorEnded \<and> list_all (\<lambda>h. snd h = HandlerEnded) (lf_handlers s) \<and> lf_conns s = {}"
proof -
  have counts: "acceptor_count (lf_acceptor s) = 0" "running (lf_handlers s) = 0"
    using assms unfolding life_ok_def wg_ok_def by simp_all
  have "lf_acceptor s = AcceptorEnded" using counts(1) by (cases "lf_acceptor s") simp_all
  moreover have "list_all (\<lambda>h. snd h = HandlerEnded) (lf_handlers s)"
    using counts(2) by (simp add: running_def filter_empty_conv list_all_iff)
  moreover from calculation have "registered s = {}" by (auto simp: registered_def list_all_iff)
  ultimately show ?thesis using assms(1) by (simp add: life_ok_def)
qed

lemma stopped_open:
  assumes "life_ok s" and "lf_stop s = StopReturned"
  shows "open_conns s = {}"
  using nothing_runs [OF assms(1)] assms by (auto simp: life_ok_def stop_ok_def open_conns_def list_all_iff)

section \<open>The log channel\<close>

text \<open>\<open>RequestSlog\<close> takes what is in the channel, oldest first, until it is empty or a record cannot be formatted; the
  result is the reply's text and the error, with what stays in the channel.\<close>

fun slog_loop :: "('r \<Rightarrow> string + string) \<Rightarrow> string \<Rightarrow> 'r list \<Rightarrow> (string + string) \<times> 'r list" where
  "slog_loop handle buf [] = (Inr buf, [])"
| "slog_loop handle buf (r # rs) =
     (case handle r of Inl e \<Rightarrow> (Inl e, rs) | Inr line \<Rightarrow> slog_loop handle (buf @ line) rs)"

definition RequestSlog :: "('r \<Rightarrow> string + string) \<Rightarrow> 'r list option \<Rightarrow> (string + string) \<times> 'r list option" where
  "RequestSlog handle slogCh =
     (case slogCh of None \<Rightarrow> (Inr [], None)
      | Some rs \<Rightarrow> (case slog_loop handle [] rs of (r, rest) \<Rightarrow> (r, Some rest)))"

lemma slog_loop_all:
  "list_all (\<lambda>r. \<exists>line. handle r = Inr line) rs \<Longrightarrow>
   slog_loop handle buf rs = (Inr (buf @ concat (map (\<lambda>r. case handle r of Inl e \<Rightarrow> [] | Inr line \<Rightarrow> line) rs)), [])"
  by (induction rs arbitrary: buf) auto

section \<open>Bounded calls\<close>

text \<open>Whether the context had ended before the call, and which of the two the \<open>select\<close> takes: the answer of the
  call, or the end of the context. The result is the answer and whether the connection was closed by it.\<close>

datatype 'e bounded_error = CtxEndedBefore string | CallFailed 'e | ClosedOnCancel string

datatype 'e bounded_select = CallDone "'e option" | CallCtxDone string

definition BoundedCall :: "string option \<Rightarrow> 'e bounded_select \<Rightarrow> 'e bounded_error option \<times> bool" where
  "BoundedCall ctxErr sel =
     (case ctxErr of
        Some e \<Rightarrow> (Some (CtxEndedBefore e), False)
      | None \<Rightarrow>
          (case sel of
             CallDone err \<Rightarrow> (map_option CallFailed err, False)
           | CallCtxDone e \<Rightarrow> (Some (ClosedOnCancel e), True)))"

datatype 'e fetch_error = FetchCall "'e bounded_error" | FetchDecode string

definition FetchMetadata :: "string option \<Rightarrow> 'e bounded_select \<Rightarrow> string + 'm \<Rightarrow> ('e fetch_error + 'm) \<times> bool" where
  "FetchMetadata ctxErr sel decoded =
     (case BoundedCall ctxErr sel of
        (Some e, closed) \<Rightarrow> (Inl (FetchCall e), closed)
      | (None, closed) \<Rightarrow> ((case decoded of Inl e \<Rightarrow> Inl (FetchDecode e) | Inr m \<Rightarrow> Inr m), closed))"

datatype 'e log_error = LogCall "'e bounded_error" | LogWrite string

text \<open>\<open>writeServerLog\<close>: the file that is written, if any.\<close>

definition writeServerLog :: "string option \<Rightarrow> 'e bounded_select \<Rightarrow> string \<Rightarrow> string option \<Rightarrow> string \<Rightarrow>
    'e log_error option \<times> (string \<times> string) option \<times> bool" where
  "writeServerLog ctxErr sel log writeErr path =
     (case BoundedCall ctxErr sel of
        (Some e, closed) \<Rightarrow> (Some (LogCall e), None, closed)
      | (None, closed) \<Rightarrow>
          if log = [] then (None, None, closed)
          else (case writeErr of
                  Some e \<Rightarrow> (Some (LogWrite e), None, closed)
                | None \<Rightarrow> (None, Some (filepath_Join path ''scalpel_server.log'', log), closed)))"

section \<open>Properties\<close>

text \<open>C18. The server's bookkeeping in every interleaving of clients, accept loop, connection goroutines and \<open>Stop\<close>: the
  wait group counts exactly the goroutines that run (a connection that the accept loop has counted but not
  started included), and when \<open>Stop\<close> has returned none is left, the table of connections is empty and
  the listener is closed.\<close>

theorem Stop_leaves_nothing:
  assumes "life_run evs RunServer = Some s"
  shows "lf_wg s = acceptor_count (lf_acceptor s) + running (lf_handlers s) \<and> lf_conns s = registered s \<and>
     (if lf_stop s = StopReturned
      then \<not> lf_listening s \<and> lf_acceptor s = AcceptorEnded \<and> list_all (\<lambda>h. snd h = HandlerEnded) (lf_handlers s) \<and>
        lf_conns s = {}
      else True)"
proof -
  have ok: "life_ok s" by (rule life.run_inv [OF assms]) simp
  then show ?thesis using nothing_runs [OF ok] by (auto simp: life_ok_def wg_ok_def stop_ok_def)
qed

definition example_life :: "life_event list" where
  "example_life = [Dial, AcceptorStep, AcceptorStep, AcceptorStep, StopStep, StopStep, AcceptFails, HandlerStep 0,
     HandlerStep 0, HandlerStep 0, StopStep]"

theorem Stop_leaves_nothing_witness:
  "case life_run example_life RunServer of
     None \<Rightarrow> False
   | Some s \<Rightarrow> lf_stop s = StopReturned \<and> lf_acceptor s = AcceptorEnded \<and> lf_conns s = {}"
proof (cases "life_run example_life RunServer")
  case (Some s)
  have "map_option lf_stop (life_run example_life RunServer) = Some StopReturned" by code_simp
  then have "lf_stop s = StopReturned" using Some by simp
  then show ?thesis using Some Stop_leaves_nothing [OF Some] by auto
next
  case None
  have "map_option lf_stop (life_run example_life RunServer) = Some StopReturned" by code_simp
  then show ?thesis using None by simp
qed


text \<open>A connection that was accepted before \<open>Stop\<close> and registered after it closed the others.\<close>

definition late_connection :: "life_event list" where
  "late_connection = [Dial, StopStep, StopStep, AcceptorStep, AcceptorStep, AcceptorStep, AcceptFails]"


end
