(* ===== verification/Abort_Path.thy ===== *)
theory Abort_Path
  imports Command_Runs Step_Systems
begin

text \<open>
  The way of a user abort: \<open>AbortServerTests\<close> of the executor (\<open>experiment/executor.go\<close>) over the clients of
  an invocation, and what it reaches on the server (\<open>Abort\<close> in \<open>pkg/server.go\<close>) in every interleaving
  with the tests' goroutines.
\<close>

section \<open>The executor's side\<close>

datatype started_client = TestClient client_state | CommandOf command_state

datatype abort_error = TestAbortErr client_error | CommandAbortErr command_error

text \<open>\<open>Client.Abort\<close>, a method of both kinds of client.\<close>

fun Client_Abort :: "unit rpc \<Rightarrow> started_client \<Rightarrow> string option \<times> abort_error option" where
  "Client_Abort call (TestClient st) = map_prod id (map_option TestAbortErr) (SenderClient_Abort call st)"
| "Client_Abort call (CommandOf st) = map_prod id (map_option CommandAbortErr) (CommandClient_Abort call st)"

text \<open>One goroutine per client: \<open>order\<close> is the order in which they end, and \<open>Wait\<close> returns the first error. The
  result is the identifiers sent to the server and the error.\<close>

definition AbortServerTests :: "(nat \<Rightarrow> unit rpc) \<Rightarrow> started_client list \<Rightarrow> nat list \<Rightarrow> string list \<times> abort_error option" where
  "AbortServerTests calls clients order =
     (let rs = map (\<lambda>k. Client_Abort (calls k) (clients ! k)) order in
      (concat (map (\<lambda>r. case fst r of None \<Rightarrow> [] | Some i \<Rightarrow> [i]) rs),
       case filter (\<lambda>r. snd r \<noteq> None) rs of [] \<Rightarrow> None | r # _ \<Rightarrow> snd r))"

text \<open>The identifier under which the server may know a client.\<close>

fun server_id :: "started_client \<Rightarrow> string option" where
  "server_id (TestClient st) = (if cs_ID st = [] then None else Some (cs_ID st))"
| "server_id (CommandOf st) = (if cc_Local (cm_client st) \<or> cm_ID st = [] then None else Some (cm_ID st))"

lemma Client_Abort_id: "fst (Client_Abort call c) = server_id c"
  by (cases c) (simp_all add: SenderClient_Abort_def CommandClient_Abort_def)

lemma AbortServerTests_ids:
  "fst (AbortServerTests calls clients order) =
     concat (map (\<lambda>k. case server_id (clients ! k) of None \<Rightarrow> [] | Some i \<Rightarrow> [i]) order)"
  by (simp add: AbortServerTests_def Let_def Client_Abort_id comp_def)

lemma AbortServerTests_sends:
  assumes "set order = {..<length clients}" and "c \<in> set clients" and "server_id c = Some i"
  shows "i \<in> set (fst (AbortServerTests calls clients order))"
proof -
  obtain k where "k < length clients" "clients ! k = c" using assms(2) by (metis in_set_conv_nth)
  then have "k \<in> set order" "i \<in> set (case server_id (clients ! k) of None \<Rightarrow> [] | Some i \<Rightarrow> [i])"
    using assms(1,3) by simp_all
  then show ?thesis unfolding AbortServerTests_ids set_concat set_map by blast
qed

lemma Client_Abort_error:
  "snd (Client_Abort call c) = None \<longleftrightarrow> server_id c = None \<or> callCtx call = Inr ()"
  by (cases c) (auto simp: SenderClient_Abort_def CommandClient_Abort_def split: sum.splits)

lemma AbortServerTests_error:
  "snd (AbortServerTests calls clients order) = None \<longleftrightarrow>
   list_all (\<lambda>k. server_id (clients ! k) = None \<or> callCtx (calls k) = Inr ()) order"
proof -
  let ?rs = "map (\<lambda>k. Client_Abort (calls k) (clients ! k)) order"
  have "snd (AbortServerTests calls clients order) = None \<longleftrightarrow> filter (\<lambda>r. snd r \<noteq> None) ?rs = []"
    using filter_set [of "\<lambda>r. snd r \<noteq> None" ?rs]
    by (cases "filter (\<lambda>r. snd r \<noteq> None) ?rs") (auto simp: AbortServerTests_def Let_def filter_eq_Cons_iff)
  also have "\<dots> \<longleftrightarrow> list_all (\<lambda>k. snd (Client_Abort (calls k) (clients ! k)) = None) order"
    by (auto simp: filter_empty_conv list_all_iff)
  finally show ?thesis by (simp add: Client_Abort_error)
qed

section \<open>The server's side\<close>

text \<open>A schedule of the server as a run of steps, in which a blocked event changes nothing.\<close>

definition server_move :: "server_event \<Rightarrow> server_state \<Rightarrow> server_state option" where
  "server_move ev s = (case server_step s ev of Step s' \<Rightarrow> Some s' | Crash m \<Rightarrow> None | Blocked \<Rightarrow> Some s)"

lemma run_server_moves: "run_server s evs = Step s' \<longleftrightarrow> run_steps server_move evs s = Some s'"
  by (induction evs arbitrary: s) (auto simp: server_move_def split: step_result.splits)

definition numbered :: "server_state \<Rightarrow> bool" where
  "numbered s \<longleftrightarrow> (\<forall>m t. sv_threads s m = Some t \<longrightarrow> m < sv_next s)"

text \<open>The context of test \<open>n\<close> is cancelled, or its goroutine, which has ended the test, is about to.\<close>

definition settled :: "nat \<Rightarrow> server_state \<Rightarrow> bool" where
  "settled n s \<longleftrightarrow> n \<in> set (sv_cancelled s) \<or> (\<exists>m a. sv_threads s m = Some (Cancelling (Some n) a))"

definition tracked :: "string \<Rightarrow> nat \<Rightarrow> server_state \<Rightarrow> bool" where
  "tracked i n s \<longleftrightarrow> sv_testCancel s i = Some n \<or> settled n s"

text \<open>What one section of a goroutine changes.\<close>

lemma thread_step_frame:
  assumes "thread_step n env s t = Step s'"
  shows "sv_next s' = sv_next s" and "\<And>m. m \<noteq> n \<Longrightarrow> sv_threads s' m = sv_threads s m"
    and "set (sv_cancelled s) \<subseteq> set (sv_cancelled s')"
    and "t = Cancelling (Some c) a \<Longrightarrow> c \<in> set (sv_cancelled s')"
    and "sv_testCancel s' j = sv_testCancel s j \<or>
         sv_testCancel s' j = None \<and> (\<exists>a. sv_threads s' n = Some (Cancelling (sv_testCancel s j) a))"
  using assms
  by (cases t; auto simp: thread_defs log_reply_def
      split: panics.splits option.splits sum.splits prod.splits if_splits)+

lemma thread_step_settled:
  assumes "thread_step m env s t = Step s'" and "sv_threads s m = Some t" and "settled n s"
  shows "settled n s'"
proof (cases "n \<in> set (sv_cancelled s)")
  case True
  then show ?thesis using thread_step_frame(3) [OF assms(1)] by (auto simp: settled_def)
next
  case False
  then obtain k a where k: "sv_threads s k = Some (Cancelling (Some n) a)" using assms(3) by (auto simp: settled_def)
  show ?thesis
  proof (cases "k = m")
    case True
    then have "t = Cancelling (Some n) a" using k assms(2) by simp
    from thread_step_frame(4) [OF assms(1) this] show ?thesis by (simp add: settled_def)
  next
    case False
    then show ?thesis using k thread_step_frame(2) [OF assms(1), of k] by (auto simp: settled_def)
  qed
qed

lemma thread_step_tracked:
  assumes "thread_step m env s t = Step s'" and "sv_threads s m = Some t" and "tracked i n s"
  shows "tracked i n s'"
  using thread_step_settled [OF assms(1,2)] thread_step_frame(5) [OF assms(1), of i] assms(3)
  by (auto simp: tracked_def settled_def)

lemma thread_step_numbered: "thread_step m env s t = Step s' \<Longrightarrow> sv_threads s m = Some t \<Longrightarrow> numbered s \<Longrightarrow> numbered s'"
  using thread_step_frame(1,2) unfolding numbered_def by (metis option.inject)

lemma register_test_frame:
  assumes "numbered s"
  shows "numbered (register_test j t s)" and "settled n s \<Longrightarrow> settled n (register_test j t s)"
    and "i \<noteq> j \<Longrightarrow> sv_testCancel (register_test j t s) i = sv_testCancel s i"
proof -
  have "k \<noteq> sv_next s" if "sv_threads s k = Some t'" for k t' using assms that by (auto simp: numbered_def)
  then show "settled n s \<Longrightarrow> settled n (register_test j t s)"
    by (fastforce simp: settled_def register_test_def log_reply_def spawn_def Let_def)
qed (use assms in \<open>auto simp: numbered_def register_test_def log_reply_def spawn_def Let_def intro: less_SucI\<close>)

lemma request_frame:
  assumes "numbered s"
  shows "numbered (RequestResult_rpc j s)" and "settled n s \<Longrightarrow> settled n (RequestResult_rpc j s)"
    and "sv_testCancel (RequestResult_rpc j s) i = sv_testCancel s i"
proof -
  have "k \<noteq> sv_next s" if "sv_threads s k = Some t'" for k t' using assms that by (auto simp: numbered_def)
  then show "settled n s \<Longrightarrow> settled n (RequestResult_rpc j s)"
    by (fastforce simp: settled_def RequestResult_rpc_def log_reply_def spawn_def split: option.splits)
qed (use assms in \<open>auto simp: numbered_def RequestResult_rpc_def log_reply_def spawn_def intro: less_SucI split: option.splits\<close>)

lemma Abort_settles: "tracked i n s \<Longrightarrow> settled n (Abort_rpc i s)"
  by (auto simp: tracked_def settled_def Abort_rpc_def split: option.splits)

lemma Abort_frame:
  "numbered s \<Longrightarrow> numbered (Abort_rpc j s)" "settled n s \<Longrightarrow> settled n (Abort_rpc j s)"
  "sv_testCancel (Abort_rpc j s) i = sv_testCancel s i"
  by (auto simp: numbered_def settled_def Abort_rpc_def split: option.splits)

lemma done_frame:
  "numbered (s\<lparr>sv_done := True\<rparr>) = numbered s" "settled n (s\<lparr>sv_done := True\<rparr>) = settled n s"
  by (simp_all add: numbered_def settled_def)

lemma server_move_effect:
  assumes "server_move ev s = Some s'" and "numbered s"
  shows "numbered s'" and "settled n s \<Longrightarrow> settled n s'"
    and "i \<notin> fst ` set (started ev) \<Longrightarrow> tracked i n s \<Longrightarrow> tracked i n s' \<and> (ev = Abort i \<longrightarrow> settled n s')"
proof -
  have "numbered s' \<and> (settled n s \<longrightarrow> settled n s') \<and>
     (i \<notin> fst ` set (started ev) \<longrightarrow> tracked i n s \<longrightarrow> tracked i n s' \<and> (ev = Abort i \<longrightarrow> settled n s'))"
  proof (cases ev)
    case (Go m env)
    show ?thesis
    proof (cases "server_step s ev")
      case (Step s1)
      then obtain t where t: "sv_threads s m = Some t" "thread_step m env s t = Step s'"
        using Go assms(1) by (auto simp: server_move_def split: option.splits)
      then show ?thesis
        using thread_step_numbered [OF t(2,1) assms(2)] thread_step_settled [OF t(2,1)] thread_step_tracked [OF t(2,1)] Go
        by blast
    qed (use assms Go in \<open>auto simp: server_move_def\<close>)
  qed (use assms in \<open>auto simp: server_move_def RequestServer_rpc_def RunCommand_rpc_def tracked_def register_test_frame
      request_frame Abort_frame Abort_settles done_frame\<close>)
  then show "numbered s'" and "settled n s \<Longrightarrow> settled n s'"
    and "i \<notin> fst ` set (started ev) \<Longrightarrow> tracked i n s \<Longrightarrow> tracked i n s' \<and> (ev = Abort i \<longrightarrow> settled n s')" by blast+
qed

interpretation aborting: step_effect server_move numbered
    "\<lambda>s evs s'. (settled n s \<longrightarrow> settled n s') \<and> (i \<notin> fst ` set (concat (map started evs)) \<and> tracked i n s \<longrightarrow>
       tracked i n s' \<and> (Abort i \<in> set evs \<longrightarrow> settled n s'))" for i n
proof unfold_locales
  show "numbered s'" if "server_move ev s = Some s'" "numbered s" for ev s s' using server_move_effect(1) [OF that] .
  show "(settled n s \<longrightarrow> settled n s') \<and> (i \<notin> fst ` set (concat (map started [ev])) \<and> tracked i n s \<longrightarrow>
      tracked i n s' \<and> (Abort i \<in> set [ev] \<longrightarrow> settled n s'))"
    if "server_move ev s = Some s'" "numbered s" for s ev s'
    using server_move_effect(2) [OF that, of n] server_move_effect(3) [OF that, of i n] by auto
qed auto

lemma registered_started:
  assumes "fresh_schedule pre" and "run_server NewServer pre = Step s" and "sv_testCancel s i \<noteq> None"
  shows "i \<in> fst ` set (concat (map started pre))"
proof -
  obtain own where inv: "server_inv own s" and after: "owners_after Map.empty (concat (map started pre)) own"
    using fresh_run [OF assms(1)] assms(2) by (metis step_result.inject(1))
  obtain n k where "own i = Some (n, k)" using unowned [OF inv, of i] assms(3) by (cases "own i") auto
  then show ?thesis using owners_afterD(1) [OF after] by force
qed

lemma fresh_append:
  assumes "fresh_schedule (pre @ post)"
  shows "fresh_schedule pre" and "i \<in> fst ` set (concat (map started pre)) \<Longrightarrow> i \<notin> fst ` set (concat (map started post))"
  using assms by (auto simp: fresh_schedule_def)

section \<open>From the executor to the tests\<close>

text \<open>C16. A user abort reaches every test the server has registered: \<open>AbortServerTests\<close> reports no error exactly
  when every call it made was answered without one; and once the server has handled these calls, in any
  interleaving with other requests, goroutines and a shutdown, each test or command of the invocation that was
  registered before has a cancelled context or had ended by itself. The server never panics on the way.\<close>

theorem user_abort_settles:
  assumes "fresh_schedule (pre @ post)" and "run_server NewServer pre = Step s"
    and "AbortServerTests calls clients order = (ids, err)" and "set order = {..<length clients}"
    and "\<forall>i\<in>set ids. Abort i \<in> set post"
  shows "(err = None \<longleftrightarrow> list_all (\<lambda>k. server_id (clients ! k) = None \<or> callCtx (calls k) = Inr ()) order) \<and>
     (\<exists>s'. run_server s post = Step s' \<and>
       list_all (\<lambda>c. case server_id c of None \<Rightarrow> True | Some i \<Rightarrow>
         (case sv_testCancel s i of None \<Rightarrow> True | Some n \<Rightarrow> settled n s')) clients)"
proof
  show "err = None \<longleftrightarrow> list_all (\<lambda>k. server_id (clients ! k) = None \<or> callCtx (calls k) = Inr ()) order"
    using AbortServerTests_error [of calls clients order] assms(3) by simp
  obtain s' where run: "run_server NewServer (pre @ post) = Step s'" using fresh_run [OF assms(1)] by metis
  then have post: "run_steps server_move post s = Some s'"
    using assms(2) by (simp add: run_server_moves run_steps_append)
  have num: "numbered s"
    using aborting.run_inv [of pre NewServer s] assms(2) by (simp add: run_server_moves numbered_def NewServer_def)
  have "settled n s'" if c: "c \<in> set clients" "server_id c = Some i" and n: "sv_testCancel s i = Some n" for c i n
  proof -
    have "Abort i \<in> set post" using AbortServerTests_sends [OF assms(4) c, of calls] assms(3,5) by simp
    moreover have "i \<notin> fst ` set (concat (map started post))"
      using registered_started [OF fresh_append(1) [OF assms(1)] assms(2)] fresh_append(2) [OF assms(1)] n by simp
    ultimately show ?thesis using aborting.run_eff [OF post num, of n i] n by (simp add: tracked_def)
  qed
  then show "\<exists>s'. run_server s post = Step s' \<and> list_all (\<lambda>c. case server_id c of None \<Rightarrow> True | Some i \<Rightarrow>
      (case sv_testCancel s i of None \<Rightarrow> True | Some n \<Rightarrow> settled n s')) clients"
    using post by (auto simp: run_server_moves list_all_iff split: option.splits)
qed

definition aborted_clients :: "started_client list" where
  "aborted_clients = [TestClient ((new_client example_client)\<lparr>cs_ID := ''t''\<rparr>), TestClient (new_client example_client),
     CommandOf ((new_command \<lparr>cc_Params = \<lparr>td_Name = ''tcpdump_remote'', td_Timeout = second, td_Filter = []\<rparr>,
       cc_Local = False, cc_StartAt = 0, cc_LocalDir = ''o''\<rparr>)\<lparr>cm_ID := ''c''\<rparr>)]"

definition before_abort :: "server_event list" where
  "before_abort = [RequestServer (client_request 7 example_client ''t''), RunCommand example_command, Go 0 example_go]"

definition during_abort :: "server_event list" where
  "during_abort = [Go 1 example_go, Abort ''c'', Go 0 example_go, Abort ''t'', Go 1 example_go]"

theorem user_abort_settles_witness:
  "case run_server NewServer before_abort of
     Step s \<Rightarrow> sv_testCancel s ''t'' = Some 0 \<and> sv_testCancel s ''c'' = Some 1 \<and>
       (case run_server s during_abort of Step s' \<Rightarrow> settled 0 s' \<and> settled 1 s' | _ \<Rightarrow> False)
   | _ \<Rightarrow> False"
proof -
  have fresh: "fresh_schedule (before_abort @ during_abort)"
    by (auto simp: fresh_schedule_def before_abort_def during_abort_def example_command_def client_request_def)
  obtain s where s: "run_server NewServer before_abort = Step s"
    using fresh_run [OF fresh_append(1) [OF fresh]] by metis
  have reg: "case run_server NewServer before_abort of
      Step s \<Rightarrow> sv_testCancel s ''t'' = Some 0 \<and> sv_testCancel s ''c'' = Some 1 | _ \<Rightarrow> False"
    by code_simp
  have ab: "AbortServerTests (\<lambda>k. Answered (Inr ())) aborted_clients [2, 0, 1] = ([''c'', ''t''], None)"
    by (simp add: AbortServerTests_def aborted_clients_def SenderClient_Abort_def CommandClient_Abort_def
        new_client_def new_command_def)
  have order: "set [2, 0, 1] = {..<length aborted_clients}" by (auto simp: aborted_clients_def)
  have handled: "\<forall>i\<in>set [''c'', ''t'']. Abort i \<in> set during_abort" by (simp add: during_abort_def)
  show ?thesis
    using user_abort_settles [OF fresh s ab order handled] reg s
    by (auto simp: aborted_clients_def new_client_def new_command_def)
qed

text \<open>The identifier of a client is set before its request is sent. When the server handles the \<open>Abort\<close> first,
  it knows no such test and the test runs uncancelled.\<close>

theorem early_abort_is_lost:
  "case run_server NewServer (Abort ''t'' # before_abort) of
     Step s \<Rightarrow> sv_testCancel s ''t'' = Some 0 \<and> sv_cancelled s = [] \<and>
       (case sv_threads s 0 of Some (Testing a) \<Rightarrow> ra_ID a = ''t'' | _ \<Rightarrow> False)
   | _ \<Rightarrow> False"
  by code_simp

end
