(* ===== verification/Sender_Runs.thy ===== *)
theory Sender_Runs
  imports Udp_Endpoints Tcp_Endpoints
begin

text \<open>
  The \<open>Run\<close> methods of the three UDP senders (\<open>pkg/udp.go\<close>): the timestamp reader started before the
  transmission (\<open>startTxTsReader\<close> of \<open>pkg/txtsreader.go\<close>), the transmission, and the choice between its
  own records and the kernel's.
\<close>

section \<open>Definitions\<close>

text \<open>The reader's messages when timestamping could be enabled; \<open>None\<close> is a sender without reader.\<close>

definition startTxTsReader :: "option_error option \<Rightarrow> msg_sent list \<Rightarrow> msg_sent list option" where
  "startTxTsReader err tsMsgs = (if err \<noteq> None then None else Some tsMsgs)"

text \<open>The datagrams handed to the socket stay with the result.\<close>

definition select_output :: "msg_sent list option \<Rightarrow> 'e + udp_output \<Rightarrow> 'e + udp_output" where
  "select_output reader r = (case r of Inl e \<Rightarrow> Inl e | Inr (msgs, out) \<Rightarrow> Inr (selectMsgsSent reader msgs, out))"

definition BurstSender_Run :: "encoder \<Rightarrow> (nat \<Rightarrow> nat) \<Rightarrow> (nat \<Rightarrow> burst_round) \<Rightarrow> burst_params \<Rightarrow> option_error option \<Rightarrow>
    msg_sent list \<Rightarrow> (udp_error + udp_output) panics" where
  "BurstSender_Run enc draws env p tsErr tsMsgs =
     panics_bind (BurstSender_run enc draws env p) (\<lambda>r. Returns (select_output (startTxTsReader tsErr tsMsgs) r))"

text \<open>\<open>NumPackets\<close> is evaluated before anything is sent; \<open>None\<close> is a sender that still runs.\<close>

definition PeriodicSender_Run :: "encoder \<Rightarrow> (nat \<Rightarrow> nat) \<Rightarrow> periodic_params \<Rightarrow> periodic_event list \<Rightarrow>
    option_error option \<Rightarrow> msg_sent list \<Rightarrow> (udp_error + udp_output) option panics" where
  "PeriodicSender_Run enc draws p evs tsErr tsMsgs =
     panics_bind (periodic_rate p) (\<lambda>numPackets.
     panics_bind (PeriodicSender_run enc draws p evs) (\<lambda>r.
       Returns (map_option (select_output (startTxTsReader tsErr tsMsgs)) r)))"

datatype rate_error = NewConnErr string | RateSendErr send_error | RateDeadlineErr

definition RateSender_Run :: "encoder \<Rightarrow> gtime option \<Rightarrow> (nat \<Rightarrow> segs_env) \<Rightarrow> gtime \<Rightarrow> rate_params list \<Rightarrow> string option \<Rightarrow>
    option_error option \<Rightarrow> msg_sent list \<Rightarrow> (rate_error + udp_output) option panics" where
  "RateSender_Run enc ctx env start params connErr tsErr tsMsgs =
     (case connErr of
        Some e \<Rightarrow> Returns (Some (Inl (NewConnErr e)))
      | None \<Rightarrow>
          (case runSegments enc ctx env start params new_rate_sender of
             (SegReturned, r) \<Rightarrow>
               Returns (Some (select_output (startTxTsReader tsErr tsMsgs) (Inr (rs_msgs r, map snd (rs_wire r)))))
           | (SegErr e, r) \<Rightarrow> Returns (Some (Inl (RateSendErr e)))
           | (SegDeadlineErr, r) \<Rightarrow> Returns (Some (Inl RateDeadlineErr))
           | (SegWaiting, r) \<Rightarrow> Returns None
           | (_, r) \<Rightarrow> Panics ''slice bounds out of range''))"

text \<open>\<open>runParams\<close> runs one segment that starts now.\<close>

definition runParams :: "encoder \<Rightarrow> gtime option \<Rightarrow> rate_params \<Rightarrow> gtime \<Rightarrow> bool \<Rightarrow> string option \<Rightarrow> seg_env \<Rightarrow> rate_sender \<Rightarrow>
    (string + seg_result) \<times> rate_sender" where
  "runParams enc ctx params start err connErr env r =
     (if Duration params \<le> 0 \<or> rateContextExpired ctx err start then (Inr SegReturned, r)
      else (case connErr of
              Some e \<Rightarrow> (Inl e, r)
            | None \<Rightarrow> (case runSegment enc ctx params start (start + max 0 (Duration params)) env r of (res, r') \<Rightarrow> (Inr res, r'))))"

section \<open>What a run returns\<close>

text \<open>The result of a run is that of a transmission \<open>udp_run\<close>, with the kernel's send times or the sender's own.\<close>

definition run_result :: "msg_sent list option \<Rightarrow> msg_sent list \<Rightarrow> u8 list list \<Rightarrow> bool" where
  "run_result reader msgs ds \<longleftrightarrow> (\<exists>sent. udp_run sent ds \<and> msgs = selectMsgsSent reader sent)"

lemma select_output_Inr: "select_output reader r = Inr (msgs, ds) \<longleftrightarrow> (\<exists>sent. r = Inr (sent, ds) \<and> msgs = selectMsgsSent reader sent)"
  by (cases r) (auto simp: select_output_def)

lemma burst_result:
  assumes "BurstSender_Run (encode_packet (paddingPool pad_draws)) draws env p tsErr tsMsgs = Returns (Inr (msgs, ds))"
    and "burst_contract env"
  shows "run_result (startTxTsReader tsErr tsMsgs) msgs ds"
  using assms
  by (auto simp: BurstSender_Run_def panics_bind_Returns select_output_Inr run_result_def intro: burst_run)

lemma periodic_result:
  assumes "PeriodicSender_Run (encode_packet (paddingPool pad_draws)) draws p evs tsErr tsMsgs = Returns (Some (Inr (msgs, ds)))"
  shows "run_result (startTxTsReader tsErr tsMsgs) msgs ds"
  using assms
  by (auto simp: PeriodicSender_Run_def panics_bind_Returns select_output_Inr run_result_def intro: periodic_run)

lemma rate_result:
  assumes "RateSender_Run (encode_packet (paddingPool pad_draws)) ctx env start params connErr tsErr tsMsgs =
      Returns (Some (Inr (msgs, ds)))"
    and "list_all segment_fits params" and "\<forall>i. list_all event_ok (sg_events (ss_seg (env i)))"
  shows "run_result (startTxTsReader tsErr tsMsgs) msgs ds"
proof -
  obtain res r where run: "runSegments (encode_packet (paddingPool pad_draws)) ctx env start params new_rate_sender = (res, r)"
    by fastforce
  then have "select_output (startTxTsReader tsErr tsMsgs) (Inr (rs_msgs r, map snd (rs_wire r)) :: rate_error + udp_output) = Inr (msgs, ds)"
    using assms(1) by (auto simp: RateSender_Run_def split: option.splits seg_result.splits)
  then show ?thesis using rate_run [OF assms(2,3) run] by (auto simp: select_output_Inr run_result_def)
qed

section \<open>Properties\<close>



end
