(* ===== verification/Host_Metadata.thy ===== *)
theory Host_Metadata
  imports Tcp_Endpoints
begin

text \<open>
  What the tools record about a host and their own build: \<open>internal/hostinfo/hostinfo.go\<close>,
  \<open>internal/buildinfo/buildinfo.go\<close> and the metadata of \<open>pkg/metadata.go\<close>. The file system is an argument,
  a map from paths to contents, as are the values of the Go runtime and the parser of floating point numbers.
\<close>

section \<open>Strings\<close>

text \<open>\<open>strings.Cut\<close> at the first occurrence of a character, \<open>strings.Fields\<close> and \<open>strings.FieldsFunc\<close>.\<close>

definition cut :: "char \<Rightarrow> string \<Rightarrow> (string \<times> string) option" where
  "cut c s = (if c \<in> set s then Some (takeWhile (\<lambda>x. x \<noteq> c) s, tl (dropWhile (\<lambda>x. x \<noteq> c) s)) else None)"

fun fields_acc :: "(char \<Rightarrow> bool) \<Rightarrow> string \<Rightarrow> string \<Rightarrow> string list" where
  "fields_acc sep w [] = (if w = [] then [] else [rev w])"
| "fields_acc sep w (c # s) =
     (if sep c then (if w = [] then fields_acc sep [] s else rev w # fields_acc sep [] s)
      else fields_acc sep (c # w) s)"

definition FieldsFunc :: "(char \<Rightarrow> bool) \<Rightarrow> string \<Rightarrow> string list" where
  "FieldsFunc sep s = fields_acc sep [] s"

definition Fields :: "string \<Rightarrow> string list" where
  "Fields s = FieldsFunc is_space s"

definition TrimPrefix :: "string \<Rightarrow> string \<Rightarrow> string" where
  "TrimPrefix s p = (if has_prefix s p then drop (length p) s else s)"

definition Trim :: "char \<Rightarrow> string \<Rightarrow> string" where
  "Trim c s = rev (dropWhile (\<lambda>x. x = c) (rev (dropWhile (\<lambda>x. x = c) s)))"

abbreviation lines_of :: "string \<Rightarrow> string list" where
  "lines_of s \<equiv> split_on (CHR 0x0A) s"

text \<open>\<open>strconv.ParseUint(s, 10, 64)\<close> and \<open>strconv.ParseBool\<close>.\<close>

definition ParseUint64 :: "string \<Rightarrow> u64 option" where
  "ParseUint64 s = (if s \<noteq> [] \<and> list_all is_digit s \<and> dec_val s < 2 ^ 64 then Some (of_nat (dec_val s)) else None)"

definition ParseBool :: "string \<Rightarrow> bool option" where
  "ParseBool s =
     (if s \<in> {''1'', ''t'', ''T'', ''TRUE'', ''true'', ''True''} then Some True
      else if s \<in> {''0'', ''f'', ''F'', ''FALSE'', ''false'', ''False''} then Some False else None)"

text \<open>\<open>filepath.Base\<close>: the last segment, without trailing slashes.\<close>

definition filepath_Base :: "string \<Rightarrow> string" where
  "filepath_Base p =
     (if p = [] then ''.''
      else let q = rev (dropWhile (\<lambda>c. c = CHR ''/'') (rev p)) in
           if q = [] then ''/'' else last (split_on (CHR ''/'') q))"

section \<open>The host\<close>

type_synonym files = "string \<Rightarrow> string option"

definition text_of :: "files \<Rightarrow> string \<Rightarrow> string" where
  "text_of fs path = TrimSpace (case fs path of None \<Rightarrow> [] | Some b \<Rightarrow> b)"

fun field_loop :: "string list \<Rightarrow> string \<Rightarrow> string" where
  "field_loop [] key = []"
| "field_loop (line # ls) key =
     (case cut (CHR '':'') line of
        Some (k, v) \<Rightarrow> if TrimSpace k = key then TrimSpace v else field_loop ls key
      | None \<Rightarrow> field_loop ls key)"

definition field :: "string \<Rightarrow> string \<Rightarrow> string" where
  "field s key = field_loop (lines_of s) key"

definition memory :: "files \<Rightarrow> string \<Rightarrow> u64 option" where
  "memory fs key =
     (case Fields (field (text_of fs ''/proc/meminfo'') key) of
        [] \<Rightarrow> None
      | w # ws \<Rightarrow> (case ParseUint64 w of None \<Rightarrow> None | Some n \<Rightarrow> Some (n * 1024)))"

text \<open>The last line of the version 2 hierarchy decides the directory.\<close>

definition cgroup_dir :: "files \<Rightarrow> string" where
  "cgroup_dir fs =
     fold (\<lambda>line dir. if has_prefix line ''0::'' then filepath_Join ''/sys/fs/cgroup'' (TrimPrefix line ''0::'') else dir)
       (lines_of (text_of fs ''/proc/self/cgroup'')) []"

definition cgroup_keys :: "bool \<Rightarrow> string list" where
  "cgroup_keys limits =
     (if limits then [''cpu.max'', ''memory.max'', ''memory.high'', ''cpuset.cpus.effective'', ''pids.max'']
      else [''cpu.stat'', ''memory.current'', ''memory.events''])"

text \<open>The entries of a map of texts that are not empty.\<close>

fun put_texts :: "(string \<Rightarrow> string) \<Rightarrow> string list \<Rightarrow> (string \<rightharpoonup> string) \<Rightarrow> (string \<rightharpoonup> string)" where
  "put_texts read [] m = m"
| "put_texts read (k # ks) m = put_texts read ks (if read k \<noteq> [] then m(k \<mapsto> read k) else m)"

definition cgroup :: "files \<Rightarrow> bool \<Rightarrow> string \<rightharpoonup> string" where
  "cgroup fs limits =
     (if cgroup_dir fs = [] then Map.empty
      else put_texts (\<lambda>k. text_of fs (filepath_Join (cgroup_dir fs) k)) (cgroup_keys limits) Map.empty)"

record host =
  h_Hostname :: string
  h_OS :: string
  h_Distro :: string
  h_Kernel :: string
  h_Arch :: string
  h_CPUModel :: string
  h_LogicalCPUs :: int
  h_Affinity :: string
  h_GOMAXPROCS :: int
  h_MemoryTotalBytes :: "u64 option"
  h_Limits :: "string \<rightharpoonup> string"
  h_Warnings :: "string list"

record runtime_env =
  rt_OS :: string
  rt_Arch :: string
  rt_NumCPU :: int
  rt_GOMAXPROCS :: int
  rt_Hostname :: string
  rt_Version :: string

definition distro :: "files \<Rightarrow> string" where
  "distro fs =
     fold (\<lambda>line d. if has_prefix line ''PRETTY_NAME='' then Trim (CHR 0x22) (TrimPrefix line ''PRETTY_NAME='') else d)
       (lines_of (text_of fs ''/etc/os-release'')) []"

definition Basics :: "runtime_env \<Rightarrow> files \<Rightarrow> host" where
  "Basics rt fs =
     (let kernel = text_of fs ''/proc/sys/kernel/osrelease'';
          model = field (text_of fs ''/proc/cpuinfo'') ''model name'';
          affinity = field (text_of fs ''/proc/self/status'') ''Cpus_allowed_list'';
          mem = memory fs ''MemTotal'';
          limits = cgroup fs True
      in \<lparr>h_Hostname = rt_Hostname rt, h_OS = rt_OS rt, h_Distro = distro fs, h_Kernel = kernel, h_Arch = rt_Arch rt,
          h_CPUModel = model, h_LogicalCPUs = rt_NumCPU rt, h_Affinity = affinity, h_GOMAXPROCS = rt_GOMAXPROCS rt,
          h_MemoryTotalBytes = mem, h_Limits = limits,
          h_Warnings =
            (if kernel = [] \<or> affinity = [] \<or> mem = None \<or> model = [] \<or> distro fs = []
             then [''some optional Linux host metadata unavailable''] else []) @
            (if dom limits = {} then [''cgroup v2 limits unavailable''] else [])\<rparr>)"

record 'f load =
  l_Time :: gtime
  l_LoadAvg :: "('f \<times> 'f \<times> 'f) option"
  l_MemoryAvailableBytes :: "u64 option"
  l_PSI :: "string \<rightharpoonup> string"
  l_Cgroup :: "string \<rightharpoonup> string"
  l_Warnings :: "string list"

definition loadavg :: "(string \<Rightarrow> 'f option) \<Rightarrow> string list \<Rightarrow> ('f \<times> 'f \<times> 'f) option" where
  "loadavg parseFloat f =
     (case f of
        a # b # c # rest \<Rightarrow>
          (case (parseFloat a, parseFloat b, parseFloat c) of
             (Some x, Some y, Some z) \<Rightarrow> Some (x, y, z) | _ \<Rightarrow> None)
      | _ \<Rightarrow> None)"

definition psi_keys :: "string list" where
  "psi_keys = [''cpu'', ''memory'', ''io'']"

definition Load :: "(string \<Rightarrow> 'f option) \<Rightarrow> gtime \<Rightarrow> files \<Rightarrow> 'f load" where
  "Load parseFloat now fs =
     (let avg = loadavg parseFloat (Fields (text_of fs ''/proc/loadavg''));
          mem = memory fs ''MemAvailable'';
          psi = put_texts (\<lambda>k. text_of fs (''/proc/pressure/'' @ k)) psi_keys Map.empty;
          cg = cgroup fs False
      in \<lparr>l_Time = now, l_LoadAvg = avg, l_MemoryAvailableBytes = mem, l_PSI = psi, l_Cgroup = cg,
          l_Warnings =
            (if avg = None \<or> mem = None \<or> card (dom psi) \<noteq> 3
             then [''some optional load/memory/PSI metadata unavailable''] else []) @
            (if dom cg = {} then [''cgroup v2 metadata unavailable''] else [])\<rparr>)"

section \<open>The build\<close>

text \<open>The strings set by the linker, and the build information of the binary.\<close>

record link_vars =
  lv_Version :: string
  lv_Release :: string
  lv_Revision :: string
  lv_Time :: string
  lv_Dirty :: string

record build_data =
  bd_Path :: string
  bd_GoVersion :: string
  bd_Settings :: "(string \<times> string) list"

record build_info =
  bi_Version :: string
  bi_Release :: string
  bi_Revision :: string
  bi_Time :: string
  bi_Dirty :: "bool option"
  bi_GoVersion :: string
  bi_Binary :: string
  bi_BuildTags :: "string list"

text \<open>The switch over one setting; the second component is the local variable \<open>dirty\<close>.\<close>

definition apply_setting :: "string \<times> string \<Rightarrow> build_info \<times> string \<Rightarrow> build_info \<times> string" where
  "apply_setting s r =
     (case (s, r) of ((key, val), (i, dirty)) \<Rightarrow>
        if key = ''-tags'' then (i\<lparr>bi_BuildTags := FieldsFunc (\<lambda>c. c = CHR '','' \<or> c = CHR '' '') val\<rparr>, dirty)
        else if key = ''vcs.revision'' then (i\<lparr>bi_Revision := val\<rparr>, dirty)
        else if key = ''vcs.time'' then (i\<lparr>bi_Time := val\<rparr>, dirty)
        else if key = ''vcs.modified'' then (i, val)
        else (i, dirty))"

definition read_settings :: "build_data option \<Rightarrow> build_info \<Rightarrow> build_info \<times> string" where
  "read_settings b i =
     (case b of
        None \<Rightarrow> (i, [])
      | Some d \<Rightarrow>
          (let i1 = (if bd_Path d \<noteq> [] then i\<lparr>bi_Binary := filepath_Base (bd_Path d)\<rparr> else i);
               i2 = (if bd_GoVersion d \<noteq> [] then i1\<lparr>bi_GoVersion := bd_GoVersion d\<rparr> else i1)
           in fold apply_setting (bd_Settings d) (i2, [])))"

definition read_build :: "link_vars \<Rightarrow> runtime_env \<Rightarrow> build_data option \<Rightarrow> build_info" where
  "read_build lv rt b =
     (let i = \<lparr>bi_Version = lv_Version lv, bi_Release = lv_Release lv, bi_Revision = [], bi_Time = [], bi_Dirty = None,
            bi_GoVersion = rt_Version rt, bi_Binary = [], bi_BuildTags = []\<rparr>;
          (i1, d1) = read_settings b i;
          i2 = (if lv_Revision lv \<noteq> [] then i1\<lparr>bi_Revision := lv_Revision lv\<rparr> else i1);
          i3 = (if lv_Time lv \<noteq> [] then i2\<lparr>bi_Time := lv_Time lv\<rparr> else i2);
          dirty = (if lv_Dirty lv \<noteq> [] then lv_Dirty lv else d1)
      in case ParseBool dirty of Some v \<Rightarrow> i3\<lparr>bi_Dirty := Some v\<rparr> | None \<Rightarrow> i3)"

definition dirtyString :: "bool option \<Rightarrow> string" where
  "dirtyString v = (case v of None \<Rightarrow> ''unknown'' | Some True \<Rightarrow> ''true'' | Some False \<Rightarrow> ''false'')"

definition build_String :: "build_info \<Rightarrow> string" where
  "build_String i =
     bi_Version i @ '' (binary='' @ bi_Binary i @ '' tags='' @ join_with '','' (bi_BuildTags i) @ '' release='' @
     bi_Release i @ '' revision='' @ bi_Revision i @ '' time='' @ bi_Time i @ '' dirty='' @ dirtyString (bi_Dirty i) @
     '' go='' @ bi_GoVersion i @ '')''"

section \<open>Metadata\<close>

record 'f metadata =
  md_Build :: build_info
  md_Host :: host
  md_Load :: "'f load"

definition LocalMetadata :: "(string \<Rightarrow> 'f option) \<Rightarrow> link_vars \<Rightarrow> runtime_env \<Rightarrow> build_data option \<Rightarrow> gtime \<Rightarrow> files \<Rightarrow>
    'f metadata" where
  "LocalMetadata parseFloat lv rt b now fs =
     \<lparr>md_Build = read_build lv rt b, md_Host = Basics rt fs, md_Load = Load parseFloat now fs\<rparr>"

text \<open>The RPC method: the encoder's answer.\<close>

definition Server_Metadata :: "('f metadata \<Rightarrow> string + string) \<Rightarrow> 'f metadata \<Rightarrow> string + string" where
  "Server_Metadata marshal m = marshal m"

section \<open>What a snapshot leaves out\<close>

lemma put_texts_lookup:
  "put_texts read ks m k = (if k \<in> set ks \<and> read k \<noteq> [] then Some (read k) else m k)"
  by (induction ks arbitrary: m) auto

lemma dom_put_texts: "dom (put_texts read ks Map.empty) = {k \<in> set ks. read k \<noteq> []}"
  by (auto simp: put_texts_lookup dom_def)

lemma card_subset_all: "finite A \<Longrightarrow> card {k \<in> A. P k} = card A \<longleftrightarrow> (\<forall>k \<in> A. P k)"
  by (metis (no_types, lifting) card_subset_eq mem_Collect_eq subsetI Collect_mem_eq Collect_cong)

text \<open>The snapshot of a host's load warns exactly about what is missing: it is without warnings exactly when the three
  load averages parse, the available memory is known, all three pressure files have a content and the
  control group has at least one of its files; the maps hold exactly the files that are not empty.\<close>

theorem Load_warns_iff:
  "(l_Warnings (Load parseFloat now fs) = [] \<longleftrightarrow>
      l_LoadAvg (Load parseFloat now fs) \<noteq> None \<and> l_MemoryAvailableBytes (Load parseFloat now fs) \<noteq> None \<and>
      list_all (\<lambda>k. text_of fs (''/proc/pressure/'' @ k) \<noteq> []) psi_keys \<and>
      cgroup_dir fs \<noteq> [] \<and>
      list_ex (\<lambda>k. text_of fs (filepath_Join (cgroup_dir fs) k) \<noteq> []) (cgroup_keys False)) \<and>
   l_PSI (Load parseFloat now fs) k =
     (if k \<in> set psi_keys \<and> text_of fs (''/proc/pressure/'' @ k) \<noteq> [] then Some (text_of fs (''/proc/pressure/'' @ k)) else None)"
proof -
  have three: "card (set psi_keys) = 3" by (simp add: psi_keys_def)
  have psi: "card (dom (put_texts (\<lambda>k. text_of fs (''/proc/pressure/'' @ k)) psi_keys Map.empty)) = 3 \<longleftrightarrow>
      list_all (\<lambda>k. text_of fs (''/proc/pressure/'' @ k) \<noteq> []) psi_keys"
    unfolding dom_put_texts three [symmetric] list_all_iff by (rule card_subset_all) simp
  have cg: "dom (cgroup fs False) = {} \<longleftrightarrow>
      \<not> (cgroup_dir fs \<noteq> [] \<and> list_ex (\<lambda>k. text_of fs (filepath_Join (cgroup_dir fs) k) \<noteq> []) (cgroup_keys False))"
    by (cases "cgroup_dir fs = []") (auto simp: cgroup_def dom_put_texts list_ex_iff simp del: dom_eq_empty_conv)
  show ?thesis
    unfolding Load_def Let_def
    by (simp only: load.simps append_is_Nil_conv psi cg put_texts_lookup split: if_split) auto
qed

section \<open>Build settings\<close>

text \<open>The last value of a setting, if any.\<close>

definition setting :: "string \<Rightarrow> build_data option \<Rightarrow> string option" where
  "setting key b = (case b of None \<Rightarrow> None | Some d \<Rightarrow> map_of (rev (bd_Settings d)) key)"

definition last_of :: "(string \<times> string) list \<Rightarrow> string \<Rightarrow> string \<Rightarrow> string" where
  "last_of xs key d = (case map_of (rev xs) key of None \<Rightarrow> d | Some v \<Rightarrow> v)"

lemma last_of_Nil [simp]: "last_of [] key d = d"
  by (simp add: last_of_def)

lemma last_of_Cons: "last_of ((k, v) # xs) key d = last_of xs key (if k = key then v else d)"
  by (simp add: last_of_def map_add_def split: option.split)

lemma fold_settings:
  "fold apply_setting xs (i, d) = (i', d') \<Longrightarrow>
   d' = last_of xs ''vcs.modified'' d \<and> bi_Revision i' = last_of xs ''vcs.revision'' (bi_Revision i) \<and>
   bi_Time i' = last_of xs ''vcs.time'' (bi_Time i) \<and> bi_Version i' = bi_Version i \<and> bi_Dirty i' = bi_Dirty i"
proof (induction xs arbitrary: i d)
  case (Cons x xs)
  obtain k v where x: "x = (k, v)" by (cases x)
  obtain i1 d1 where step: "apply_setting x (i, d) = (i1, d1)" by (cases "apply_setting x (i, d)")
  then have "fold apply_setting xs (i1, d1) = (i', d')" using Cons.prems by simp
  from Cons.IH [OF this] show ?case
    using step by (auto simp: x last_of_Cons apply_setting_def split: if_splits)
qed simp

text \<open>The provenance of a binary. Revision and time are those set by the linker when they are set, and otherwise
  the last ones the build recorded, or unknown; whether the sources were modified is known only when
  the linker or, without it, the build said so in a form that \<open>ParseBool\<close> reads: a state nobody
  reported is never shown as clean.\<close>

theorem build_provenance:
  "let reported = (\<lambda>set_by_linker key. if set_by_linker \<noteq> [] then set_by_linker
       else case setting key b of None \<Rightarrow> [] | Some v \<Rightarrow> v) in
   bi_Revision (read_build lv rt b) = reported (lv_Revision lv) ''vcs.revision'' \<and>
   bi_Time (read_build lv rt b) = reported (lv_Time lv) ''vcs.time'' \<and>
   bi_Dirty (read_build lv rt b) = ParseBool (reported (lv_Dirty lv) ''vcs.modified'') \<and>
   (dirtyString (bi_Dirty (read_build lv rt b)) = ''unknown'' \<longleftrightarrow>
      ParseBool (reported (lv_Dirty lv) ''vcs.modified'') = None)"
proof -
  let ?i = "\<lparr>bi_Version = lv_Version lv, bi_Release = lv_Release lv, bi_Revision = [], bi_Time = [], bi_Dirty = None,
            bi_GoVersion = rt_Version rt, bi_Binary = [], bi_BuildTags = []\<rparr>"
  obtain i1 d1 where r: "read_settings b ?i = (i1, d1)" by fastforce
  have "d1 = (case setting ''vcs.modified'' b of None \<Rightarrow> [] | Some v \<Rightarrow> v) \<and>
      bi_Revision i1 = (case setting ''vcs.revision'' b of None \<Rightarrow> [] | Some v \<Rightarrow> v) \<and>
      bi_Time i1 = (case setting ''vcs.time'' b of None \<Rightarrow> [] | Some v \<Rightarrow> v) \<and> bi_Dirty i1 = None"
  proof (cases b)
    case (Some d)
    obtain i2 where "fold apply_setting (bd_Settings d) (i2, []) = (i1, d1)" "bi_Revision i2 = []" "bi_Time i2 = []"
      "bi_Dirty i2 = None"
      using r Some that by (simp add: read_settings_def Let_def split: if_splits)
    then show ?thesis using fold_settings [of "bd_Settings d" i2 "[]" i1 d1] Some by (simp add: setting_def last_of_def)
  qed (use r in \<open>auto simp: read_settings_def setting_def\<close>)
  then show ?thesis
    using r by (auto simp: read_build_def dirtyString_def Let_def split: option.splits bool.splits)
qed

end
