(* ===== verification/Command_Line.thy ===== *)
theory Command_Line
  imports Experiment_Run "HOL-Library.Sublist"
begin

text \<open>
  The two command line tools: the help text generated from the registered procedures
  (\<open>cmd/scalpel-exp/help.go\<close>) and the \<open>main\<close> functions of \<open>scalpel-exp\<close> and \<open>scalpel-run\<close>, from the
  parsed arguments to the exit status. The argument parser (a third-party package), signals and the
  network answer through an environment; descriptions of procedures, which carry no behaviour, are
  arguments of the printers.
\<close>

section \<open>Help text\<close>

text \<open>\<open>typeName\<close> and \<open>defaultText\<close>; \<open>other\<close> is what \<open>fmt\<close> prints for a type the registry refuses.\<close>

fun typeName :: "string \<Rightarrow> pvalue \<Rightarrow> string" where
  "typeName other (PUint _) = ''uint''"
| "typeName other (PString _) = ''string''"
| "typeName other (PUints _) = ''[]uint''"
| "typeName other (PStrings _) = ''[]string''"
| "typeName other (PTCPCCAs _) = ''[]pkg.TCPCCA''"
| "typeName other _ = other"

definition format_uint :: "u64 \<Rightarrow> string" where
  "format_uint n = nat_dec (unat n)"

fun defaultText :: "string \<Rightarrow> pvalue \<Rightarrow> string panics" where
  "defaultText other (PUint n) = Returns (format_uint n)"
| "defaultText other (PString s) = Returns s"
| "defaultText other (PUints ns) = Returns (join_with '','' (map format_uint ns))"
| "defaultText other (PStrings ss) = Returns (join_with '','' ss)"
| "defaultText other (PTCPCCAs cs) = panics_bind (panics_map cca_String cs) (\<lambda>ss. Returns (join_with '','' ss))"
| "defaultText other _ = Returns other"

definition modeLabel :: "'run procedure \<Rightarrow> string" where
  "modeLabel p = (if p_Mode p = OncePerRound then ''once-per-round'' else ''per-direction'')"

definition modeDetail :: "'run procedure \<Rightarrow> string" where
  "modeDetail p =
     (if p_Mode p = OncePerRound then ''once-per-round: a single invocation every round''
      else ''per-direction: the procedure is invoked separately for each direction'')"

definition directionNote :: "'run procedure \<Rightarrow> string" where
  "directionNote p =
     (if p_Mode p = PerDirection then
        ''Direction: optional direction=ul|dl (case-insensitive). '' @
        ''If omitted, every round runs the procedure once for DL and once for UL.''
      else if p_SupportsDirection p then
        ''Direction: optional direction=ul|dl (case-insensitive). '' @
        ''If omitted, one invocation per round covers both directions.''
      else ''Direction: not supported.'')"

text \<open>The \<open>%-wd\<close> verb on a string of ASCII characters.\<close>

definition pad_right :: "nat \<Rightarrow> string \<Rightarrow> string" where
  "pad_right w s = s @ replicate (w - length s) (CHR '' '')"

abbreviation newline :: string where
  "newline \<equiv> [CHR 0x0A]"

definition list_line :: "string \<Rightarrow> 'run procedure \<Rightarrow> string" where
  "list_line description p =
     ''  '' @ pad_right 13 (p_Name p) @ '' '' @ pad_right 15 (''['' @ modeLabel p @ '']'') @ '' '' @ description @ newline"

definition proceduresListText :: "(string \<Rightarrow> string) \<Rightarrow> 'run procedure list \<Rightarrow> string" where
  "proceduresListText descr ps =
     ''Procedures (run '' @ [CHR 0x27] @ ''procedures <name>'' @ [CHR 0x27] @ '' for details):'' @ newline @
     concat (map (\<lambda>p. list_line (descr (p_Name p)) p) ps)"

definition param_line :: "string \<Rightarrow> string \<Rightarrow> param_spec \<Rightarrow> string panics" where
  "param_line other description spec =
     panics_bind (defaultText other (sp_Default spec)) (\<lambda>d.
       Returns (''  '' @ pad_right 11 (sp_Name spec) @ '' '' @ pad_right 14 (typeName other (sp_Default spec)) @
         '' default: '' @ pad_right 24 d @ '' '' @ description @ newline))"

definition procedureHelpText :: "string \<Rightarrow> (string \<Rightarrow> string) \<Rightarrow> string \<Rightarrow> 'run procedure \<Rightarrow> string panics" where
  "procedureHelpText other paramText description p =
     (let intro = p_Name p @ newline @ ''  '' @ description @ newline @ newline @
            ''Execution mode: '' @ modeDetail p @ newline @ ''  '' @ directionNote p @ newline
      in if p_Params p = [] then Returns (intro @ newline @ ''Parameters: none'' @ newline)
         else panics_bind (panics_map (\<lambda>spec. param_line other (paramText (sp_Name spec)) spec) (p_Params p)) (\<lambda>ls.
           Returns (intro @ newline @ ''Parameters:'' @ newline @ concat ls)))"

text \<open>What \<open>printProcedures\<close> prints, and \<open>None\<close> when it exits because of an unknown name.\<close>

definition printProcedures :: "string \<Rightarrow> (string \<Rightarrow> string) \<Rightarrow> (string \<Rightarrow> string \<Rightarrow> string) \<Rightarrow> 'run registry \<Rightarrow>
    string list \<Rightarrow> string \<Rightarrow> string option panics" where
  "printProcedures other descr paramText reg order name =
     (if name = [] then Returns (Some (proceduresListText descr (All reg order)))
      else (case Lookup reg name of
              None \<Rightarrow> Returns None
            | Some p \<Rightarrow> panics_bind (procedureHelpText other (paramText name) (descr name) p) (\<lambda>t. Returns (Some t))))"

section \<open>Experiments\<close>

text \<open>The end of a server after the first signal: \<open>RunServer\<close> could not start, \<open>Stop\<close> returned, or a second signal
  came first. A program that goes on forever has no exit status.\<close>

datatype serve_end = StartFailed | StopDone | SecondSignal

datatype 'o exit = Exited nat 'o | Crashed string | KeepsRunning

definition serve_status :: "serve_end \<Rightarrow> nat" where
  "serve_status e = (case e of StartFailed \<Rightarrow> 1 | StopDone \<Rightarrow> 0 | SecondSignal \<Rightarrow> 130)"

record exp_cli =
  xc_Command :: string
  xc_IP :: string
  xc_Port :: u64
  xc_Log :: string
  xc_Results :: string
  xc_Rounds :: u64
  xc_Procedure :: string
  xc_Params :: string
  xc_Name :: string

record exp_env =
  xe_kong :: "string option"
  xe_logfile :: "string option"
  xe_serve :: serve_end
  xe_logErr :: "string option"
  xe_invocation :: "nat \<Rightarrow> inv_env"
  xe_order :: "nat \<Rightarrow> string list"
  xe_all :: "string list"
  xe_other :: string
  xe_describe :: "string \<Rightarrow> string"
  xe_paramText :: "string \<Rightarrow> string \<Rightarrow> string"

text \<open>\<open>Rounds = 0\<close> asks for endless rounds, which the tool counts to the largest \<open>uint\<close>.\<close>

definition exp_rounds :: "u64 \<Rightarrow> u64" where
  "exp_rounds rounds = (if rounds = 0 then - 1 else rounds)"

definition client_status :: "client_run \<Rightarrow> string exit" where
  "client_status r =
     (case r of
        LogErr e \<Rightarrow> Exited 1 []
      | Refused e \<Rightarrow> Exited 1 []
      | Ran (Panics m) \<Rightarrow> Crashed m
      | Ran (Returns None) \<Rightarrow> KeepsRunning
      | Ran (Returns (Some (Some e, es))) \<Rightarrow> Exited 1 []
      | Ran (Returns (Some (None, es))) \<Rightarrow> Exited 0 [])"

definition exp_client :: "exp_env \<Rightarrow> procedure_func registry \<Rightarrow> exp_cli \<Rightarrow> string exit" where
  "exp_client env reg cli =
     (if xc_IP cli = ''0.0.0.0'' \<or> xc_IP cli = [] then Exited 1 (''Expected server --ip'' @ newline)
      else if xc_Port cli = 0 then Exited 1 (''expected --port'' @ newline)
      else (case parseParams (xc_Params cli) of
              Inl e \<Rightarrow> Exited 1 []
            | Inr params \<Rightarrow>
                client_status (Client_Run (xe_logErr env) (xe_invocation env) (xc_Results cli) reg (xc_Procedure cli) params
                  (xe_order env) (unat (exp_rounds (xc_Rounds cli))))))"

definition exp_main :: "exp_env \<Rightarrow> procedure_func registry \<Rightarrow> exp_cli \<Rightarrow> string exit" where
  "exp_main env reg cli =
     (case xe_kong env of
        Some e \<Rightarrow> Exited 1 (''kong error: '' @ e @ newline)
      | None \<Rightarrow>
          if xc_Log cli \<noteq> [] \<and> xe_logfile env \<noteq> None then Exited 1 []
          else if xc_Command cli = ''client'' then exp_client env reg cli
          else if xc_Command cli = ''server'' then Exited (serve_status (xe_serve env)) []
          else if xc_Command cli = ''procedures'' \<or> xc_Command cli = ''procedures <name>'' then
            (case printProcedures (xe_other env) (xe_describe env) (xe_paramText env) reg (xe_all env) (xc_Name cli) of
               Panics m \<Rightarrow> Crashed m
             | Returns None \<Rightarrow> Exited 1 []
             | Returns (Some t) \<Rightarrow> Exited 0 t)
          else Crashed (xc_Command cli))"

section \<open>Single tests\<close>

text \<open>The arguments of \<open>scalpel-run\<close>; the rate in Mbps is a floating point number, \<open>rc_Pps\<close> is the number of
  packets per second computed from it.\<close>

record run_cli =
  rc_Command :: string
  rc_IP :: string
  rc_Port :: u64
  rc_Direction :: string
  rc_Log :: string
  rc_Out :: string
  rc_BurstNum :: u64
  rc_BurstPad :: u64
  rc_BurstTimeout :: u64
  rc_Pps :: u64
  rc_RateDuration :: u64
  rc_PeriodicInterval :: u64
  rc_PeriodicDuration :: u64
  rc_PeriodicPad :: u64
  rc_TCPDuration :: u64
  rc_TCPBytes :: u64
  rc_TCPCCA :: string
  rc_ICMPInterval :: u64
  rc_ICMPDuration :: u64

text \<open>The \<open>switch\<close> over the command: the sender, or \<open>None\<close> when the tool exits with a message.\<close>

definition run_sender :: "run_cli \<Rightarrow> sender option panics" where
  "run_sender cli =
     (if rc_Command cli = ''udp-burst'' then
        Returns (Some (BurstSender \<lparr>b_Timeout = ms_duration (rc_BurstTimeout cli), b_Num = rc_BurstNum cli,
          b_Pad = rc_BurstPad cli\<rparr>))
      else if rc_Command cli = ''udp-rate'' then
        Returns (Some (RateSender [\<lparr>Pps = rc_Pps cli, Interval = millisecond, Duration = ms_duration (rc_RateDuration cli),
          PayloadSize = 1400\<rparr>]))
      else if rc_Command cli = ''udp-periodic'' then
        Returns (Some (PeriodicSender \<lparr>pe_Interval = ms_duration (rc_PeriodicInterval cli),
          pe_Duration = ms_duration (rc_PeriodicDuration cli), pe_Pad = rc_PeriodicPad cli\<rparr>))
      else if rc_Command cli = ''tcp'' then
        (case ParseTCPCCA (rc_TCPCCA cli) of
           Inl e \<Rightarrow> Returns None
         | Inr cca \<Rightarrow>
             if rc_TCPDuration cli = 4294967296 \<and> rc_TCPBytes cli = 4294967296 then Returns None
             else Returns (Some (TCPSender \<lparr>t_Duration = ms_duration (rc_TCPDuration cli), t_Bytes = rc_TCPBytes cli,
               t_CCA = cca\<rparr>)))
      else if rc_Command cli = ''icmp'' then
        Returns (Some (ICMPSender \<lparr>i_Duration = ms_duration (rc_ICMPDuration cli),
          i_Interval = ms_duration (rc_ICMPInterval cli), i_ClientEchoID = 0, i_SenderEchoID = 0, i_ICMPType = 0,
          i_punch = False\<rparr>))
      else Panics (rc_Command cli))"

record run_env =
  re_kong :: "string option"
  re_logfile :: "string option"
  re_serve :: serve_end
  re_uuid :: string
  re_dial :: "string option"
  re_client :: client_env
  re_formats :: formats
  re_gather :: gather_env

definition run_client :: "run_env \<Rightarrow> run_cli \<Rightarrow> direction \<Rightarrow> sender \<Rightarrow> client_state" where
  "run_client env cli d s =
     (new_client \<lparr>sc_IP = rc_IP cli, sc_Out = rc_Out cli, sc_Direction = d, sc_StartAt = 0, sc_Sender = s\<rparr>)
       \<lparr>cs_ID := re_uuid env\<rparr>"

text \<open>The exit status of \<open>scalpel-run\<close> and the table it wrote.\<close>

definition run_test :: "run_env \<Rightarrow> run_cli \<Rightarrow> direction \<Rightarrow> csv_file option exit" where
  "run_test env cli d =
     (case run_sender cli of
        Panics m \<Rightarrow> Crashed m
      | Returns None \<Rightarrow> Exited 1 None
      | Returns (Some s) \<Rightarrow>
          if re_dial env \<noteq> None then Exited 1 None
          else (case SenderClient_Run (re_client env) (run_client env cli d s) of
                  Panics m \<Rightarrow> Crashed m
                | Returns (Some e, st) \<Rightarrow> Exited 1 None
                | Returns (None, st) \<Rightarrow>
                    (case Gather (re_formats env) (re_gather env) st of
                       Panics m \<Rightarrow> Crashed m
                     | Returns (Some e, st', f) \<Rightarrow> Exited 1 f
                     | Returns (None, st', f) \<Rightarrow> Exited 0 f)))"

definition run_main :: "run_env \<Rightarrow> run_cli \<Rightarrow> csv_file option exit" where
  "run_main env cli =
     (case re_kong env of
        Some e \<Rightarrow> Exited 1 None
      | None \<Rightarrow>
          if rc_Log cli \<noteq> [] \<and> re_logfile env \<noteq> None then Exited 1 None
          else if rc_Command cli = ''server'' then Exited (serve_status (re_serve env)) None
          else if rc_IP cli = ''0.0.0.0'' then Exited 1 None
          else (case ParseDirection (rc_Direction cli) of
                  Inl e \<Rightarrow> Exited 1 None
                | Inr d \<Rightarrow> run_test env cli d))"

section \<open>The printed defaults are accepted\<close>

text \<open>Defaults whose text can be given back: numbers below \<open>2 ^ 32\<close>, strings without separators, and lists
  of them that are not empty.\<close>

fun printable_default :: "pvalue \<Rightarrow> bool" where
  "printable_default (PUint n) = (unat n < 2 ^ 32)"
| "printable_default (PString s) = plain s"
| "printable_default (PUints ns) = (ns \<noteq> [] \<and> list_all (\<lambda>n. unat n < 2 ^ 32) ns)"
| "printable_default (PStrings ss) = (ss \<noteq> [] \<and> list_all plain ss)"
| "printable_default (PTCPCCAs cs) = (cs \<noteq> [] \<and> set cs \<subseteq> set TCPCCAS)"
| "printable_default _ = False"

text \<open>A list as the command line gives it back: a single element as a string.\<close>

definition listed :: "string list \<Rightarrow> pvalue" where
  "listed ss = (case ss of [s] \<Rightarrow> PString s | _ \<Rightarrow> PStrings ss)"

lemma listed_print: "ss \<noteq> [] \<Longrightarrow> print_value (listed ss) = join_with '','' ss"
  by (cases ss rule: remdups_adj.cases) (simp_all add: listed_def)

lemma listed_printable: "ss \<noteq> [] \<Longrightarrow> list_all plain ss \<Longrightarrow> printable_value (listed ss)"
  by (cases ss rule: remdups_adj.cases) (simp_all add: listed_def)

lemma listed_overrideUints:
  "ss \<noteq> [] \<Longrightarrow> sum_mapM parseUintValue ss = Inr vs \<Longrightarrow> overrideUints (listed ss) = Inr (PUints vs)"
  by (cases ss rule: remdups_adj.cases) (auto simp: listed_def split: sum.splits)

lemma listed_overrideTCPCCAs:
  "ss \<noteq> [] \<Longrightarrow> sum_mapM parse_cca_value ss = Inr vs \<Longrightarrow> overrideTCPCCAs (listed ss) = Inr (PTCPCCAs vs)"
  by (cases ss rule: remdups_adj.cases) (auto simp: listed_def split: sum.splits)

lemma listed_overrideStrings: "ss \<noteq> [] \<Longrightarrow> overrideStrings (listed ss) = Inr (PStrings ss)"
  by (cases ss rule: remdups_adj.cases) (simp_all add: listed_def)

lemma nat_dec_plain: "plain (nat_dec n)"
proof -
  have "\<not> is_digit (CHR '';'')" "\<not> is_digit (CHR ''='')" "\<not> is_digit (CHR '','')" by (simp_all add: is_digit_def)
  then show ?thesis using nat_dec_digits [of n] by (auto simp: plain_def list_all_iff)
qed

lemma format_uint_plain: "plain (format_uint n)"
  by (simp add: format_uint_def nat_dec_plain)

lemma parseUintValue_format: "unat n < 2 ^ 32 \<Longrightarrow> parseUintValue (format_uint n) = Inr n"
  by (simp add: parseUintValue_def format_uint_def ParseUint32_nat_dec)

lemma parse_format_uints:
  "list_all (\<lambda>n. unat n < 2 ^ 32) ns \<Longrightarrow> sum_mapM parseUintValue (map format_uint ns) = Inr ns"
  by (induction ns) (simp_all add: parseUintValue_format)

lemma cca_name_plain: "cca_String c = Returns s \<Longrightarrow> plain s \<and> parse_cca_value s = Inr c"
  using ParseTCPCCA_String [of c s] by (cases c) (auto simp: plain_def parse_cca_value_def)

lemma cca_names:
  "set cs \<subseteq> set TCPCCAS \<Longrightarrow>
   \<exists>ss. panics_map cca_String cs = Returns ss \<and> list_all plain ss \<and> length ss = length cs \<and>
     sum_mapM parse_cca_value ss = Inr cs"
proof (induction cs)
  case (Cons c cs)
  then obtain s where s: "cca_String c = Returns s" using cca_String_known [of c] by auto
  moreover obtain ss where "panics_map cca_String cs = Returns ss" "list_all plain ss" "length ss = length cs"
    "sum_mapM parse_cca_value ss = Inr cs" using Cons by auto
  ultimately show ?case using cca_name_plain [OF s] by simp
qed simp

lemma default_text:
  assumes "printable_default d"
  shows "\<exists>v. printable_value v \<and> defaultText other d = Returns (print_value v) \<and> applyOverride d v = Inr d"
proof (cases d)
  case (PUint n)
  then show ?thesis using assms
    by (intro exI [of _ "PString (format_uint n)"]) (simp add: format_uint_plain parseUintValue_format)
next
  case (PString s)
  then show ?thesis using assms by (intro exI [of _ "PString s"]) simp
next
  case (PUints ns)
  then show ?thesis using assms
    by (intro exI [of _ "listed (map format_uint ns)"])
      (simp add: listed_print listed_printable listed_overrideUints parse_format_uints list_all_iff format_uint_plain)
next
  case (PStrings ss)
  then show ?thesis using assms
    by (intro exI [of _ "listed ss"]) (simp add: listed_print listed_printable listed_overrideStrings)
next
  case (PTCPCCAs cs)
  then obtain ss where "panics_map cca_String cs = Returns ss" "list_all plain ss" "length ss = length cs"
    "sum_mapM parse_cca_value ss = Inr cs" using assms cca_names [of cs] by auto
  moreover from this have "ss \<noteq> []" using assms PTCPCCAs by auto
  ultimately show ?thesis using PTCPCCAs
    by (intro exI [of _ "listed ss"]) (simp add: listed_print listed_printable listed_overrideTCPCCAs)
qed (use assms in simp_all)

text \<open>The parameters of a procedure with their defaults, as the user would write them after reading the help.\<close>

definition default_args :: "string \<Rightarrow> param_spec list \<Rightarrow> string list panics" where
  "default_args other specs =
     panics_map (\<lambda>spec. panics_bind (defaultText other (sp_Default spec)) (\<lambda>t. Returns (sp_Name spec @ ''='' @ t))) specs"

lemma default_args_printed:
  assumes "list_all (\<lambda>spec. plain (sp_Name spec) \<and> printable_default (sp_Default spec)) specs"
  shows "\<exists>kvs. default_args other specs = Returns (map print_pair kvs) \<and> list_all printable kvs \<and>
     list_all2 (\<lambda>kv spec. fst kv = sp_Name spec \<and> applyOverride (sp_Default spec) (snd kv) = Inr (sp_Default spec)) kvs specs"
  using assms
proof (induction specs)
  case (Cons spec specs)
  then obtain kvs where kvs: "default_args other specs = Returns (map print_pair kvs)" "list_all printable kvs"
    "list_all2 (\<lambda>kv spec. fst kv = sp_Name spec \<and> applyOverride (sp_Default spec) (snd kv) = Inr (sp_Default spec)) kvs specs"
    by auto
  obtain v where "printable_value v" "defaultText other (sp_Default spec) = Returns (print_value v)"
    "applyOverride (sp_Default spec) v = Inr (sp_Default spec)"
    using default_text [of "sp_Default spec" other] Cons.prems by auto
  moreover from this have "printable (sp_Name spec, v)" using Cons.prems by (simp add: printable_def)
  ultimately show ?case using kvs Cons.prems
    by (intro exI [of _ "(sp_Name spec, v) # kvs"]) (simp add: default_args_def)
qed (simp add: default_args_def)

lemma list_all2_find:
  "list_all2 P xs ys \<Longrightarrow> x \<in> set xs \<Longrightarrow> \<exists>y \<in> set ys. P x y"
  by (induction rule: list_all2_induct) auto

lemma default_args_prepare:
  assumes "proc_wf p" and "list_all (\<lambda>spec. plain (sp_Name spec) \<and> printable_default (sp_Default spec)) (p_Params p)"
  shows "\<exists>args m. default_args other (p_Params p) = Returns args \<and> parseParams (join_with '';'' args) = Inr m \<and>
     dom m = set (spec_names p) \<and>
     (\<forall>order. set order = dom m \<longrightarrow> PrepareParams p m order = PrepareParams p Map.empty [])"
proof -
  obtain kvs where kvs: "default_args other (p_Params p) = Returns (map print_pair kvs)" "list_all printable kvs"
    and rel: "list_all2 (\<lambda>kv spec. fst kv = sp_Name spec \<and> applyOverride (sp_Default spec) (snd kv) = Inr (sp_Default spec))
      kvs (p_Params p)"
    using default_args_printed [OF assms(2)] by blast
  define m where "m = map_of (rev kvs)"
  have keys: "map fst kvs = spec_names p"
    using rel unfolding spec_names_def by (induction rule: list_all2_induct) simp_all
  have dom: "dom m = set (spec_names p)" by (simp add: m_def dom_map_of_conv_image_fst flip: keys)
  have val: "\<exists>spec. specs_of p key = Some spec \<and> applyOverride (sp_Default spec) ov = Inr (sp_Default spec)"
    if "m key = Some ov" for key ov
  proof -
    have "(key, ov) \<in> set kvs" using map_of_SomeD [OF that [unfolded m_def]] by simp
    then show ?thesis using list_all2_find [OF rel, of "(key, ov)"] specs_of_Some [OF assms(1)] by auto
  qed
  have nodir: "m ''direction'' = None" using dom proc_wf_nodir [OF assms(1)] by auto
  have ov: "override_value p (specs_of p) key ov = Inr d \<longleftrightarrow> defaults_of p key = Some d" if "m key = Some ov" for key ov d
    using val [OF that] that nodir by (auto simp: override_value_def defaults_of_specs)
  have "overrides_ok p m" "prepared_map p m = prepared_map p Map.empty"
  proof -
    show "overrides_ok p m"
      unfolding overrides_ok_def using ov val by (fastforce simp: defaults_of_specs)
    show "prepared_map p m = prepared_map p Map.empty"
    proof
      fix key
      show "prepared_map p m key = prepared_map p Map.empty key"
        using ov [of key] val [of key]
        by (cases "m key") (fastforce simp: prepared_map_def defaults_of_specs split: sum.splits)+
    qed
  qed
  moreover have "overrides_ok p Map.empty" by (simp add: overrides_ok_def)
  ultimately have "PrepareParams p m order = Inr (prepared_map p Map.empty)"
    and "PrepareParams p Map.empty [] = Inr (prepared_map p Map.empty)" if "set order = dom m" for order
    using PrepareParams_Inr [OF assms(1) that] PrepareParams_Inr [OF assms(1), of "[]" Map.empty] by simp_all
  then have "\<forall>order. set order = dom m \<longrightarrow> PrepareParams p m order = PrepareParams p Map.empty []" by metis
  moreover have "parseParams (join_with '';'' (map print_pair kvs)) = Inr m"
    using parseParams_print [OF kvs(2)] by (simp add: print_params_def m_def)
  ultimately show ?thesis using kvs(1) dom by blast
qed

lemma sublist_more: "sublist x y \<Longrightarrow> sublist x (p @ y)"
  by (erule sublist_order.order_trans) (rule sublist_append_leftI)

text \<open>The help prints the default of every parameter.\<close>

lemma param_lines:
  assumes "default_args other specs = Returns args"
  shows "\<exists>ls. panics_map (\<lambda>spec. param_line other (g spec) spec) specs = Returns ls \<and>
     list_all (\<lambda>spec. \<exists>d. defaultText other (sp_Default spec) = Returns d \<and> sublist ('' default: '' @ d) (concat ls)) specs"
  using assms
proof (induction specs arbitrary: args)
  case (Cons spec specs)
  then obtain d args' where d: "defaultText other (sp_Default spec) = Returns d" and args': "default_args other specs = Returns args'"
    by (auto simp: default_args_def panics_bind_Returns)
  obtain ls where ls: "panics_map (\<lambda>spec. param_line other (g spec) spec) specs = Returns ls"
    "list_all (\<lambda>spec. \<exists>d. defaultText other (sp_Default spec) = Returns d \<and> sublist ('' default: '' @ d) (concat ls)) specs"
    using Cons.IH [OF args'] by blast
  obtain pre post where l: "param_line other (g spec) spec = Returns (pre @ ('' default: '' @ d) @ post)"
    using d by (simp add: param_line_def pad_right_def) (metis append.assoc append_Cons append_Nil)
  have "sublist x (concat ls) \<Longrightarrow> sublist x ((pre @ ('' default: '' @ d) @ post) @ concat ls)" for x
    by (rule sublist_more)
  moreover have "sublist ('' default: '' @ d) ((pre @ ('' default: '' @ d) @ post) @ concat ls)"
    using sublist_appendI [of "'' default: '' @ d" pre "post @ concat ls"] by simp
  ultimately show ?case
    using d ls l by (intro exI [of _ "(pre @ ('' default: '' @ d) @ post) # ls"]) (simp add: list_all_iff, blast)
qed simp

lemma help_text:
  assumes "default_args other (p_Params p) = Returns args"
  shows "\<exists>out. procedureHelpText other paramText description p = Returns out \<and>
     list_all (\<lambda>spec. \<exists>d. defaultText other (sp_Default spec) = Returns d \<and> sublist ('' default: '' @ d) out) (p_Params p)"
proof (cases "p_Params p = []")
  case False
  obtain ls where ls: "panics_map (\<lambda>spec. param_line other (paramText (sp_Name spec)) spec) (p_Params p) = Returns ls"
    "list_all (\<lambda>spec. \<exists>d. defaultText other (sp_Default spec) = Returns d \<and> sublist ('' default: '' @ d) (concat ls)) (p_Params p)"
    using param_lines [OF assms, where g = "\<lambda>spec. paramText (sp_Name spec)"] by blast
  obtain pre where out: "procedureHelpText other paramText description p = Returns (pre @ concat ls)"
    using False ls(1) by (simp add: procedureHelpText_def Let_def)
  then show ?thesis using sublist_more [of _ "concat ls" pre] ls(2) by (auto simp: list_all_iff)
qed (simp add: procedureHelpText_def)

section \<open>Exit status zero\<close>

lemma client_status_zero:
  assumes "client_status (Client_Run logErr env results reg name params ord rounds) = Exited 0 out"
  shows "\<exists>proc es. Lookup reg name = Some proc \<and> length es = length (List.product [0..<rounds] (invocations proc params)) \<and>
     invocations_ok env results name proc (List.product [0..<rounds] (invocations proc params)) es (length es)"
proof -
  obtain proc ps where prep: "prepareOverrides reg name params ord = Inr (proc, ps)"
    using assms by (auto simp: Client_Run_def client_status_def split: option.splits sum.splits)
  then have proc: "Lookup reg name = Some proc" "ps = invocations proc params"
    by (auto simp: prepareOverrides_def split: option.splits prod.splits)
  let ?r = "run_loop env results name proc 0 [] (List.product [0..<rounds] ps)"
  have "client_status (Ran ?r) = Exited 0 out"
    using assms prep by (simp add: Client_Run_def client_status_def split: option.splits)
  then obtain es where "?r = Returns (Some (None, es))"
    by (auto simp: client_status_def split: panics.splits option.splits)
  from run_loop_outcome [OF this] proc show ?thesis by auto
qed

text \<open>The events of every invocation of the experiment are those of all the measurements it launched.\<close>

definition exp_settles :: "exp_env \<Rightarrow> procedure_func registry \<Rightarrow> exp_cli \<Rightarrow> bool" where
  "exp_settles env reg cli \<longleftrightarrow>
     (case parseParams (xc_Params cli) of
        Inl e \<Rightarrow> True
      | Inr params \<Rightarrow>
          (case Lookup reg (xc_Procedure cli) of
             None \<Rightarrow> True
           | Some proc \<Rightarrow>
               (let xs = List.product [0..<unat (exp_rounds (xc_Rounds cli))] (invocations proc params) in
                list_all (\<lambda>i. settles (xe_invocation env i) (xc_Results cli) (xc_Procedure cli) proc (xs ! i)) [0..<length xs])))"

text \<open>C7. What the exit status 0 of \<open>scalpel-exp client\<close> stands for: the parameters were understood and the
  procedure is registered, every invocation of every round was run (0 rounds stand for
  \<open>2 ^ 64 - 1\<close>), and the last \<open>info.json\<close> of each one says \<open>complete\<close>, unless the experiment was
  cancelled while that invocation was being finished.\<close>

theorem exp_exit_zero:
  assumes "exp_main env reg cli = Exited 0 out" and "xc_Command cli = ''client''" and "exp_settles env reg cli"
  shows "\<exists>params proc xs es. parseParams (xc_Params cli) = Inr params \<and> Lookup reg (xc_Procedure cli) = Some proc \<and>
     xs = List.product [0..<if xc_Rounds cli = 0 then 2 ^ 64 - 1 else unat (xc_Rounds cli)] (invocations proc params) \<and>
     length es = length xs \<and>
     list_all (\<lambda>i.
       run_invocation (xe_invocation env i) (xc_Results cli) (xc_Procedure cli) proc (xs ! i) = Returns (Some (None, [es ! i])) \<and>
       ((\<exists>m. ex_info (es ! i) = Some m \<and> mf_Status m = ''complete'') \<longleftrightarrow>
        \<not> fe_ctx_final (iv_finish (xe_invocation env i)))) [0..<length xs]"
proof -
  have n: "(if xc_Rounds cli = 0 then 2 ^ 64 - 1 else unat (xc_Rounds cli)) = unat (exp_rounds (xc_Rounds cli))"
    by (simp add: exp_rounds_def unsigned_minus_1_eq_mask mask_eq_exp_minus_1)
  have "exp_client env reg cli = Exited 0 out"
    using assms(1,2) by (simp add: exp_main_def split: option.splits if_splits)
  then obtain params where params: "parseParams (xc_Params cli) = Inr params"
    and run: "client_status (Client_Run (xe_logErr env) (xe_invocation env) (xc_Results cli) reg (xc_Procedure cli) params
        (xe_order env) (unat (exp_rounds (xc_Rounds cli)))) = Exited 0 out"
    by (auto simp: exp_client_def split: if_splits sum.splits)
  obtain proc es where proc: "Lookup reg (xc_Procedure cli) = Some proc"
    and es: "length es = length (List.product [0..<unat (exp_rounds (xc_Rounds cli))] (invocations proc params))"
    and ok: "invocations_ok (xe_invocation env) (xc_Results cli) (xc_Procedure cli) proc
        (List.product [0..<unat (exp_rounds (xc_Rounds cli))] (invocations proc params)) es (length es)"
    using client_status_zero [OF run] by blast
  let ?xs = "List.product [0..<unat (exp_rounds (xc_Rounds cli))] (invocations proc params)"
  have all: "list_all (\<lambda>i.
       run_invocation (xe_invocation env i) (xc_Results cli) (xc_Procedure cli) proc (?xs ! i) = Returns (Some (None, [es ! i])) \<and>
       ((\<exists>m. ex_info (es ! i) = Some m \<and> mf_Status m = ''complete'') \<longleftrightarrow>
        \<not> fe_ctx_final (iv_finish (xe_invocation env i)))) [0..<length ?xs]"
    unfolding list_all_iff
  proof (intro ballI conjI)
    fix i
    assume i: "i \<in> set [0..<length ?xs]"
    show inv: "run_invocation (xe_invocation env i) (xc_Results cli) (xc_Procedure cli) proc (?xs ! i) = Returns (Some (None, [es ! i]))"
      using ok i es by (simp add: invocations_ok_def list_all_iff)
    have "settles (xe_invocation env i) (xc_Results cli) (xc_Procedure cli) proc (?xs ! i)"
      using assms(3) i es params proc by (simp add: exp_settles_def list_all_iff Let_def)
    with inv show "(\<exists>m. ex_info (es ! i) = Some m \<and> mf_Status m = ''complete'') \<longleftrightarrow>
        \<not> fe_ctx_final (iv_finish (xe_invocation env i))"
      by (rule run_invocation_complete)
  qed
  show ?thesis unfolding n
    by (rule exI [of _ params], rule exI [of _ proc], rule exI [of _ ?xs], rule exI [of _ es])
      (intro conjI params proc es all refl)
qed

text \<open>An experiment of one round with a procedure that measures nothing.\<close>

definition example_idle :: "procedure_func procedure" where
  "example_idle = once_per_round ''idle'' False (\<lambda>e ts path params g. (Done, [], g)) []"

definition example_invocation :: inv_env where
  "example_invocation = \<lparr>iv_ctx = False, iv_dial = None, iv_ctx2 = False, iv_ts = 0,
     iv_sched = \<lparr>se_local = [], se_localVersion = [], se_remote = MetaOk [] [], se_ctx_err = False, se_redial = None,
       se_ord = [], se_names = [], se_now = 0, se_format = (\<lambda>t. ''t''), se_mkdir = None, se_experimentID = ''e'',
       se_invocationID = ''i'', se_proc = \<lparr>pe_IP = ''srv'', pe_Now = 0, pe_Product = List.product\<rparr>, se_rng = (\<lambda>n. 0), se_ids = (\<lambda>n. ([], 0)), se_err_text = (\<lambda>e. []),
       se_write = example_write, se_start = 0\<rparr>,
     iv_finish = example_finish\<lparr>fe_runs := [], fe_gathers := []\<rparr>\<rparr>"

definition example_exp :: exp_env where
  "example_exp = \<lparr>xe_kong = None, xe_logfile = None, xe_serve = StopDone, xe_logErr = None,
     xe_invocation = (\<lambda>i. example_invocation), xe_order = (\<lambda>i. []), xe_all = [], xe_other = [], xe_describe = (\<lambda>n. []),
     xe_paramText = (\<lambda>n k. [])\<rparr>"

definition example_cli :: exp_cli where
  "example_cli = \<lparr>xc_Command = ''client'', xc_IP = ''srv'', xc_Port = 8500, xc_Log = [], xc_Results = ''r'', xc_Rounds = 1,
     xc_Procedure = ''idle'', xc_Params = [], xc_Name = []\<rparr>"

definition example_registry :: "procedure_func registry" where
  "example_registry = [''idle'' \<mapsto> example_idle]"

lemma example_exp_run: "exp_main example_exp example_registry example_cli = Exited 0 []"
  by code_simp

lemma example_exp_settles: "exp_settles example_exp example_registry example_cli"
proof -
  have "case scheduleProcedureInvocation (iv_sched example_invocation) ''r'' 0 ''idle'' 0 example_idle Map.empty NewExecutor of
      Returns (Some (path, None, e)) \<Rightarrow> length (ex_records e) = 0 | _ \<Rightarrow> False"
    by code_simp
  moreover have "invocations example_idle Map.empty = [Map.empty]"
    by (simp add: invocations_def example_idle_def once_per_round_def)
  ultimately show ?thesis
    by (auto simp: exp_settles_def settles_def example_exp_def example_cli_def example_registry_def example_invocation_def
        parseParams_def Lookup_def exp_rounds_def complete_runs_def complete_gathers_def example_finish_def
        split: panics.splits option.splits)
qed

theorem exp_exit_zero_witness:
  "\<exists>e m. run_invocation example_invocation ''r'' ''idle'' example_idle (0, Map.empty) = Returns (Some (None, [e])) \<and>
     ex_info e = Some m \<and> mf_Status m = ''complete''"
proof -
  have fields: "xc_Command example_cli = ''client''" "xc_Params example_cli = []" "xc_Procedure example_cli = ''idle''"
    "xc_Rounds example_cli = 1" "xc_Results example_cli = ''r''" "xe_invocation example_exp 0 = example_invocation"
    "\<not> fe_ctx_final (iv_finish example_invocation)"
    by (simp_all add: example_cli_def example_exp_def example_invocation_def example_finish_def)
  have reg: "parseParams [] = Inr Map.empty" "Lookup example_registry ''idle'' = Some example_idle"
    "invocations example_idle Map.empty = [Map.empty]"
    by (simp_all add: parseParams_def Lookup_def example_registry_def invocations_def example_idle_def once_per_round_def)
  from exp_exit_zero [OF example_exp_run fields(1) example_exp_settles] show ?thesis
    unfolding fields reg using fields(6,7) reg by auto
qed

text \<open>A TCP test of \<open>scalpel-run\<close> is never refused for having no limit when the number of bytes is left at its default.\<close>

theorem tcp_without_limit:
  "(\<exists>cca. ParseTCPCCA (rc_TCPCCA cli) = Inr cca) \<longleftrightarrow>
   (\<exists>s. run_sender (cli\<lparr>rc_Command := ''tcp'', rc_TCPBytes := 0\<rparr>) = Returns (Some s))"
  by (cases "ParseTCPCCA (rc_TCPCCA cli)") (simp_all add: run_sender_def)

end
