(* ===== verification/Spec2Isabelle.thy ===== *)
theory Spec2Isabelle
  imports Net_Modes Wire_Format Udp_Results Result_Rows Rate_Pacing Param_Map Procedure_Registry
    Schedule Procedures Schedule_Theorems Test_Handlers Result_Server
    Icmp_Endpoints Measurement_Client Command_Runs Manifest Experiment_Run Udp_Endpoints
    Tcp_Endpoints Quic_Endpoints Server_Lifecycle Abort_Path Sender_Runs Host_Metadata Command_Line
begin

text \<open>
  Verification of NetScalpel, a tool that measures networks with UDP, TCP, QUIC and ICMP flows.

  \<^bold>\<open>The program.\<close> \<open>scalpel-exp\<close> (\<open>cmd/scalpel-exp\<close>) runs experiments: a registered procedure schedules
  measurements and packet captures around the reconfiguration instants of a satellite network, an executor
  runs them and keeps a manifest (\<open>info.json\<close>). \<open>scalpel-run\<close> (\<open>cmd/scalpel-run\<close>) is the server, or the client
  of a single test. In one measurement (\<open>pkg\<close>) the client asks the RPC server for a test, punches a hole
  through a NAT when the server cannot reach it, and the two sides run a sender and a receiver, which record what
  was sent and received. The client then fetches the server's records, matches sent with received messages and
  writes a table.

  \<^bold>\<open>Data.\<close>
    \<^item> \<open>Go_Prelude\<close>: Go's integer widths (\<open>'a word\<close>, or \<open>int\<close> with \<open>int64\<close> written out), times and durations in
      nanoseconds, panics as values, and the few functions of the standard library the sources call (\<open>strconv\<close>,
      \<open>strings\<close>, \<open>path/filepath\<close>).
    \<^item> \<open>Net_Modes\<close>: directions, modes and congestion control algorithms (\<open>common.go\<close>, \<open>net.go\<close>, \<open>tcp.go\<close>) with
      their printers and parsers.
    \<^item> \<open>Wire_Format\<close>: the UDP packet and the ICMP payload (\<open>Encode\<close>, \<open>Decode\<close>, \<open>paddingPool\<close> in \<open>common.go\<close>,
      \<open>ICMPData\<close> in \<open>icmp.go\<close>): decoding recovers what was encoded, short buffers are errors or panics.
    \<^item> \<open>Udp_Results\<close>, \<open>Result_Rows\<close>: \<open>processUDP\<close> of \<open>results.go\<close>, whose merge walk equals reference rows for every
      order an unstable sort may leave, and the CSV tables, which are rectangular.

  \<^bold>\<open>Endpoints of a test.\<close>
    \<^item> \<open>Rate_Pacing\<close>, \<open>Udp_Endpoints\<close>, \<open>Sender_Runs\<close>: the paced, burst and periodic senders and the receiver of
      \<open>udp.go\<close> with the reader of kernel timestamps (\<open>txtsreader.go\<close>): budgets and deadlines of segments, the panics
      and the records of the receive loop, the whole test from \<open>Run\<close> to the table.
    \<^item> \<open>Tcp_Endpoints\<close>: \<open>tcp.go\<close> and the socket options of \<open>sockets.go\<close>: the monitor's samples, the end of a
      test, congestion control with the kernel-wide HyStart switch, and the table of the samples.
    \<^item> \<open>Quic_Endpoints\<close>: \<open>quic.go\<close>: transport events, the collector behind a buffered channel with callbacks that
      outlive the test, and what skipped packet numbers do to the table.
    \<^item> \<open>Icmp_Endpoints\<close>: \<open>icmp.go\<close>: 16-bit numbers that wrap, restored by the receiver, and the choice of a free echo identifier.

  \<^bold>\<open>Client and server.\<close>
    \<^item> \<open>Test_Handlers\<close>: the goroutine that runs one test for a client (\<open>handleRequestServerUDP\<close>, its TCP and ICMP
      variants, \<open>handleSender\<close> and \<open>handleReceiver\<close> of \<open>server.go\<close>), the probe of first contact, the deadlines.
    \<^item> \<open>Result_Server\<close>: the tables of cancel functions and results as a machine of interleaved atomic sections of
      \<open>RequestServer\<close>, \<open>RequestServerResult\<close>, \<open>RunCommand\<close>, \<open>Abort\<close> and their goroutines.
    \<^item> \<open>Server_Lifecycle\<close>: \<open>RunServer\<close> and \<open>Stop\<close> with accept loop, connections and wait group; the log channel and
      the calls of \<open>metadata.go\<close> that a context bounds.
    \<^item> \<open>Measurement_Client\<close>: \<open>SenderClient\<close> in \<open>client.go\<close>: \<open>Run\<close>, \<open>Abort\<close>, \<open>Gather\<close>, NAT punching and the result file.
    \<^item> \<open>Command_Runs\<close>: commands beside a test (\<open>commands.go\<close>): escalating signals, and capture files collected
      locally or from the server.

  \<^bold>\<open>Experiments.\<close>
    \<^item> \<open>Param_Map\<close>, \<open>Procedure_Registry\<close>: parameters from the command line, typed accessors, registration and the
      preparation of the invocations (\<open>param_map.go\<close>, \<open>registry.go\<close>, \<open>params.go\<close>).
    \<^item> \<open>Schedule\<close>, \<open>Procedures\<close>, \<open>Schedule_Theorems\<close>: what a procedure hands to the executor, the 21 procedures of
      \<open>cmd/scalpel-exp/procedures\<close> with their registrations, and where their flows and captures lie.
    \<^item> \<open>Manifest\<close>, \<open>Experiment_Run\<close>: the executor and its manifest (\<open>cmd/scalpel-exp/experiment\<close>), one scheduled
      invocation with the goroutines of its measurements, and the rounds of the client (\<open>client.go\<close>).
    \<^item> \<open>Abort_Path\<close>: a user abort from the executor (\<open>AbortServerTests\<close>) to the tests on the server.
    \<^item> \<open>Host_Metadata\<close>, \<open>Command_Line\<close>: what is recorded of a host and a build (\<open>hostinfo.go\<close>, \<open>buildinfo.go\<close>,
      \<open>metadata.go\<close>), and the two tools from parsed arguments to exit status (\<open>main.go\<close>, \<open>help.go\<close>).
    \<^item> This theory: properties across components. The parameters the client accepts suffice for the procedures,
      a run by default parameters is captured, and the help prints parameters the client accepts.

  \<^bold>\<open>How effects are modelled.\<close> State is a record that operations return updated. Whatever a socket, a clock, the
  file system, a random source, an RPC call or a package outside the repository answers is an argument: a
  function, or one list entry per call. So a theorem holds for every answer. Errors are \<open>Inl\<close>, a panic is
  \<open>Panics\<close>; for a loop that waits on events \<open>None\<close> means that it still runs after the given events. Concurrency
  is a list of events that names the goroutine that moves next, one step per locked section or channel
  operation; \<open>Step_Systems\<close> holds the contracts by which a fact about a step becomes one about a run. Only the
  two procedures that draw until the draws differ (\<open>cddf\<close>, \<open>cdsf\<close>) take fuel, a bound on the draws, and \<open>NoReturn\<close> is
  its end: enough are as many as produce five different cooldowns (\<open>cddf_schedule\<close>, \<open>cdsf_schedule\<close>; \<open>cdsf_hangs\<close> has
  parameters for which no number is). Properties of all procedures hold for any fuel and name \<open>NoReturn\<close>.

  \<^bold>\<open>Interfaces.\<close> \<open>fixed_codec\<close>: integer encodings, of all orders and widths in use. \<open>slice_sort\<close> and \<open>rcvd_sorter\<close>: what
  Go's unstable sort promises, so \<open>processUDP\<close> is proved for all of them and interpreted on one. \<open>packet_encoder\<close>:
  what the paced sender needs of \<open>Encode\<close>, kept by the pooled padding. \<open>udp_sender\<close>: what a test needs of a sender,
  kept by the three. \<open>checked_tests\<close>, \<open>trailing_tests\<close>: loops of procedures that place tests up to a deadline.
  \<open>step_invariant\<close>, \<open>step_effect\<close>: the collector of QUIC, the server's lifecycle and its table of cancel functions.

  \<^bold>\<open>Not modelled.\<close> Configuration of loggers; the bodies of functions that only issue system calls (listening, reading a
  socket option) and the zstd compression of files; \<open>SenderClient.Summary\<close> and the other floating point numbers
  (the ticker's interval, slice capacities, the rate \<open>scalpel-run\<close> converts), which are arguments where they matter;
  \<open>RegisterGob\<close>, \<open>testutil\<close>, the argument parser, TLS and QUIC transport; the forced exit of \<open>scalpel-exp\<close> at a
  second signal. They hold no logic of this program or only that of packages outside it. Scheduling of goroutines
  is modelled as interleaving, so memory races inside a locked section or below a step do not show.
\<close>

section \<open>Parameters reach the procedures\<close>

lemma register_all_origin:
  "register_all reg ps = Returns reg' \<Longrightarrow> reg' n = Some p \<Longrightarrow> reg n = Some p \<or> p \<in> set ps"
proof (induction reg ps rule: register_all.induct)
  case (2 reg q ps)
  from 2(2) obtain reg1 where r: "register reg q = Inr reg1" "register_all reg1 ps = Returns reg'"
    by (cases "register reg q") auto
  have "reg1 = reg(p_Name q \<mapsto> q)" using register_wf [OF r(1)] by simp
  with 2(1) [OF r 2(3)] show ?case by (auto split: if_splits)
qed simp

definition params_typed :: "param_map \<Rightarrow> param_spec list \<Rightarrow> bool" where
  "params_typed m specs \<longleftrightarrow>
     list_all (\<lambda>spec. \<exists>v. m (sp_Name spec) = Some v \<and> value_type v = value_type (sp_Default spec)) specs"

lemma params_typed_simps [simp]:
  "params_typed m []"
  "params_typed m (spec # specs) \<longleftrightarrow>
     (\<exists>v. m (sp_Name spec) = Some v \<and> value_type v = value_type (sp_Default spec)) \<and> params_typed m specs"
  by (simp_all add: params_typed_def)

lemma value_type_cases [simp]:
  "value_type v = TUint \<longleftrightarrow> (\<exists>n. v = PUint n)" "value_type v = TUints \<longleftrightarrow> (\<exists>n. v = PUints n)"
  "value_type v = TTCPCCAs \<longleftrightarrow> (\<exists>n. v = PTCPCCAs n)"
  by (cases v; simp)+

text \<open>A plan that does not fail on a parameter.\<close>

definition no_param_error :: "plan \<Rightarrow> bool" where
  "no_param_error plan \<longleftrightarrow> (\<forall>err. fst plan \<noteq> ProcErr (ParamErr err))"

lemma no_param_error_simps [simp]:
  "no_param_error (Done, cs, g)" "no_param_error (ProcPanic x, cs, g)" "no_param_error (NoReturn, cs, g)"
  "no_param_error (ProcErr TooLong, cs, g)"
  by (simp_all add: no_param_error_def)

lemma accepts_direction:
  assumes "pm_Direction m = Inr d"
  shows "no_param_error (run_MultiBurst runs e ts path m g)"
    and "no_param_error (CoolDownDifferentFlow fuel e ts path m g)"
    and "no_param_error (MultiFlow e ts path m g)" and "no_param_error (SwitchFlow e ts path m g)"
    and "no_param_error (QUIC e ts path m g)"
  using assms
  by (auto simp: run_MultiBurst_def CoolDownDifferentFlow_def MultiFlow_def SwitchFlow_def QUIC_def Let_def
      split: prod.splits option.splits)

lemma accepts_cdsf:
  assumes "pm_Direction m = Inr d" "m ''ratesUL'' = Some (PUints a)" "m ''ratesDL'' = Some (PUints b)"
    "m ''step'' = Some (PUint s)" "m ''max'' = Some (PUint x)"
  shows "no_param_error (CoolDownSameFlow fuel e ts path m g)"
  using assms by (auto simp: CoolDownSameFlow_def ratesFor_def Let_def split: prod.splits loop_result.splits)

lemma accepts_durations:
  assumes "pm_Direction m = Inr d" and "m ''durations'' = Some (PUints ds)"
  shows "m ''ccas'' = Some (PTCPCCAs cs) \<Longrightarrow> no_param_error (DurationTCP e ts path m g)"
    and "m ''ratesUL'' = Some (PUints a) \<Longrightarrow> m ''ratesDL'' = Some (PUints b) \<Longrightarrow>
      no_param_error (MultiDurationRate e ts path m g)"
    and "m ''packets'' = Some (PUints ns) \<Longrightarrow> no_param_error (PacketsDuration e ts path m g)"
    and "no_param_error (ProgressiveDurationQUIC e ts path m g)"
    and "no_param_error (ProgressiveRate e ts path m g)" and "no_param_error (RampUpProbe e ts path m g)"
  using assms
  by (auto simp: DurationTCP_def MultiDurationRate_def PacketsDuration_def ProgressiveDurationQUIC_def
      ProgressiveRate_def RampUpProbe_def ratesFor_def Let_def split: prod.splits loop_result.splits)

lemma accepts_others:
  assumes "pm_Direction m = Inr d"
  shows "m ''miceUL'' = Some (PUints a) \<Longrightarrow> m ''miceDL'' = Some (PUints b) \<Longrightarrow>
      no_param_error (MouseElephantFlows e ts path m g)"
    and "m ''ratesUL'' = Some (PUints a) \<Longrightarrow> m ''ratesDL'' = Some (PUints b) \<Longrightarrow>
      no_param_error (RateRI e ts path m g)"
    and "m ''ccas'' = Some (PTCPCCAs cs) \<Longrightarrow> no_param_error (DurationTCPRI e ts path m g)"
  using assms
  by (auto simp: MouseElephantFlows_def RateRI_def DurationTCPRI_def ratesFor_def Let_def
      split: prod.splits panics.splits)

lemma accepts_bidir:
  assumes "m ''direction'' \<noteq> None \<longrightarrow> (\<exists>d. pm_Direction m = Inr d)" and "m ''duration_ms'' = Some (PUint n)"
  shows "no_param_error (MeasOWD e ts path m g)" and "no_param_error (MeasRate e ts path m g)"
proof -
  have "\<exists>ds. flow_directions m = Inr ds" using assms(1) by (auto simp: flow_directions_def)
  then show "no_param_error (MeasOWD e ts path m g)" and "no_param_error (MeasRate e ts path m g)"
    using assms(2) by (auto simp: MeasOWD_def MeasRate_def Let_def)
qed

lemmas accepts = accepts_direction accepts_cdsf accepts_durations accepts_others accepts_bidir

lemma registrations_accept_params:
  assumes "p \<in> set (registrations fuel)" and "params_typed m (p_Params p)" and "p_Run p = Some run"
    and "p_Mode p = PerDirection \<Longrightarrow> \<exists>d. pm_Direction m = Inr d"
    and "m ''direction'' \<noteq> None \<longrightarrow> (\<exists>d. pm_Direction m = Inr d)"
  shows "no_param_error (run e ts path m g)"
  using assms
  unfolding registrations_list list.set insert_iff empty_iff
  by (elim disjE)
    (auto simp: per_direction_def once_per_round_def uints_def uint_spec_def ccas_spec_def owdParams_def
      rateParams_def Burst_def MultiBurst_def TraceRi_def Let_def accepts)

lemma check_invocations_None:
  "check_invocations p ord i invs = None \<longleftrightarrow>
   (\<forall>k < length invs. \<exists>m. PrepareParams p (invs ! k) (ord (i + k)) = Inr m)"
proof (induction p ord i invs rule: check_invocations.induct)
  case (2 p ord i params rest)
  show ?case
  proof (cases "PrepareParams p params (ord i)")
    case (Inl e)
    then show ?thesis by (auto intro!: exI [of _ 0])
  next
    case (Inr m)
    then have "check_invocations p ord i (params # rest) = None \<longleftrightarrow>
        (\<forall>k < length rest. \<exists>m. PrepareParams p (rest ! k) (ord (Suc i + k)) = Inr m)"
      using 2 by simp
    also have "\<dots> \<longleftrightarrow> (\<forall>k < length (params # rest). \<exists>m. PrepareParams p ((params # rest) ! k) (ord (i + k)) = Inr m)"
      using Inr by (auto simp: All_less_Suc2)
    finally show ?thesis .
  qed
qed simp

lemma prepareOverrides_Inr:
  "prepareOverrides reg name params ord = Inr (proc, invs) \<longleftrightarrow>
   Lookup reg name = Some proc \<and> invs = invocations proc params \<and>
   (\<forall>k < length invs. \<exists>m. PrepareParams proc (invs ! k) (ord k) = Inr m)"
  using check_invocations_None [of proc ord 0 "invocations proc params"]
  by (auto simp: prepareOverrides_def split: option.splits)

lemma registry_procedures:
  assumes "the_registry fuel = Returns reg" and "Lookup reg name = Some proc"
  shows "proc \<in> set (registrations fuel)" and "proc_wf proc" and "p_Name proc = name"
proof -
  have r: "register_all Map.empty (registrations fuel) = Returns reg" using assms(1) by (simp add: the_registry_def)
  have look: "reg name = Some proc" using assms(2) by (simp add: Lookup_def)
  have wf: "\<forall>n p. reg n = Some p \<longrightarrow> p_Name p = n \<and> proc_wf p" by (rule register_all_wf [OF r]) simp
  show "proc \<in> set (registrations fuel)" using register_all_origin [OF r look] by simp
  show "proc_wf proc" and "p_Name proc = name" using wf look by simp_all
qed

lemma invocations_direction:
  "ov \<in> set (invocations p params) \<Longrightarrow> p_Mode p = PerDirection \<Longrightarrow> ov ''direction'' \<noteq> None"
  by (auto simp: invocations_def split: if_splits)

lemma prepared_pm_Direction:
  assumes "proc_wf p" and "overrides_ok p ov" and "ov ''direction'' \<noteq> None"
  shows "\<exists>d. pm_Direction (prepared_map p ov) = Inr d"
  using prepared_direction [OF assms(1,2)] assms(3) by (auto split: option.splits)

lemma prepared_typed:
  "proc_wf p \<Longrightarrow> overrides_ok p ov \<Longrightarrow> params_typed (prepared_map p ov) (p_Params p)"
  by (simp add: params_typed_def list_all_iff prepared_value_type)

lemma registrations_wf: "list_all proc_wf (registrations fuel)"
  by (simp add: registrations_list per_direction_def once_per_round_def proc_wf_def spec_names_def
      uints_def uint_spec_def ccas_spec_def owdParams_def rateParams_def)

lemma registrations_distinct: "distinct (map p_Name (registrations fuel))"
  by (simp add: registrations_list per_direction_def once_per_round_def)

lemma the_registry_Returns:
  "\<exists>reg. the_registry fuel = Returns reg \<and> dom reg = set (map p_Name (registrations fuel))"
  using register_all_ok [OF registrations_wf registrations_distinct, of Map.empty fuel]
  by (simp add: the_registry_def)

text \<open>C1. Parameters are checked once, before anything is dialled or scheduled: when
  \<open>prepareOverrides\<close> accepts the command line's parameters for a registered procedure, then the
  preparation repeated for each invocation (in any iteration order of the map) succeeds, and the
  procedure finds every parameter it asks for with the right type, whichever procedure it is.\<close>

theorem accepted_params_suffice:
  assumes "the_registry fuel = Returns reg"
    and "prepareOverrides reg name params ord = Inr (proc, invs)"
    and "\<forall>k < length invs. set (ord k) = dom (invs ! k)"
    and "ov \<in> set invs" and "set order = dom ov"
  shows "\<exists>prepared run. PrepareParams proc ov order = Inr prepared \<and> p_Run proc = Some run \<and>
     (\<forall>e ts path g err. fst (run e ts path prepared g) \<noteq> ProcErr (ParamErr err))"
proof -
  note over = assms(2) [unfolded prepareOverrides_Inr]
  note look = over [THEN conjunct1] and invs = over [THEN conjunct2, THEN conjunct1]
    and prep = over [THEN conjunct2, THEN conjunct2]
  note proc = registry_procedures [OF assms(1) look]
  obtain k where k: "k < length invs" "ov = invs ! k" using assms(4) by (metis in_set_conv_nth)
  then obtain m where "PrepareParams proc ov (ord k) = Inr m" using prep by blast
  then have ok: "overrides_ok proc ov"
    using PrepareParams_Inr [OF proc(2)] assms(3) k by blast
  then have run_prep: "PrepareParams proc ov order = Inr (prepared_map proc ov)"
    using PrepareParams_Inr [OF proc(2) assms(5)] by blast
  obtain run where run: "p_Run proc = Some run" using proc(2) by (auto simp: proc_wf_def)
  have dir: "\<exists>d. pm_Direction (prepared_map proc ov) = Inr d" if "p_Mode proc = PerDirection"
    using that assms(4) invs by (intro prepared_pm_Direction [OF proc(2) ok] invocations_direction) simp_all
  have dir': "prepared_map proc ov ''direction'' \<noteq> None \<longrightarrow> (\<exists>d. pm_Direction (prepared_map proc ov) = Inr d)"
    using prepared_direction [OF proc(2) ok] by (auto split: option.splits)
  have "no_param_error (run e ts path (prepared_map proc ov) g)" for e ts path g
    by (rule registrations_accept_params [OF proc(1) prepared_typed [OF proc(2) ok] run dir dir'])
  then show ?thesis using run_prep run unfolding no_param_error_def by blast
qed

lemma burst_lookup:
  assumes "the_registry fuel = Returns reg" and "dom reg = set (map p_Name (registrations fuel))"
  shows "Lookup reg ''burst'' = Some (per_direction ''burst'' Burst [])"
proof -
  have "''burst'' \<in> dom reg"
    unfolding assms(2) by (simp add: registrations_list per_direction_def once_per_round_def)
  then obtain p where p: "Lookup reg ''burst'' = Some p" by (auto simp: Lookup_def)
  have "p \<in> set (registrations fuel)" "p_Name p = ''burst''" using registry_procedures [OF assms(1) p] by simp_all
  then have "p = per_direction ''burst'' Burst []"
    by (auto simp: registrations_list per_direction_def once_per_round_def)
  then show ?thesis using p by simp
qed

lemma burst_default_overrides:
  assumes "Lookup reg ''burst'' = Some (per_direction ''burst'' Burst [])"
  shows "prepareOverrides reg ''burst'' Map.empty (\<lambda>k. [''direction'']) =
     Inr (per_direction ''burst'' Burst [], [[''direction'' \<mapsto> PString ''DL''], [''direction'' \<mapsto> PString ''UL'']])"
  by (simp add: assms prepareOverrides_def per_direction_def invocations_def PrepareParams_def
      override_value_def supportsDirection_def ParseDirection_def)

theorem accepted_params_suffice_witness:
  "\<exists>reg proc. the_registry 9 = Returns reg \<and>
     prepareOverrides reg ''burst'' Map.empty (\<lambda>k. [''direction'']) =
       Inr (proc, [[''direction'' \<mapsto> PString ''DL''], [''direction'' \<mapsto> PString ''UL'']]) \<and>
     (\<exists>prepared run. PrepareParams proc [''direction'' \<mapsto> PString ''UL''] [''direction''] = Inr prepared \<and>
        p_Run proc = Some run \<and>
        (\<forall>e ts path g err. fst (run e ts path prepared g) \<noteq> ProcErr (ParamErr err)))"
proof -
  obtain reg where reg: "the_registry 9 = Returns reg" "dom reg = set (map p_Name (registrations 9))"
    using the_registry_Returns [of 9] by blast
  note over = burst_default_overrides [OF burst_lookup [OF reg]]
  have "\<forall>k < length [[''direction'' \<mapsto> PString ''DL''], [''direction'' \<mapsto> PString ''UL'']].
      set [''direction''] = dom ([[''direction'' \<mapsto> PString ''DL''], [''direction'' \<mapsto> PString ''UL'']] ! k)"
    by (auto simp: less_Suc_eq)
  from accepted_params_suffice [OF reg(1) over this, of "[''direction'' \<mapsto> PString ''UL'']" "[''direction'']"]
  show ?thesis using reg(1) over by auto
qed

section \<open>Running a procedure without parameters\<close>

lemma pm_Direction_lower:
  "m ''direction'' = Some (PString (direction_StringLower d)) \<Longrightarrow> pm_Direction m = Inr d"
  by (cases d) (simp_all add: pm_Direction_def ParseDirection_def)

text \<open>The map a procedure gets when no parameter is given.\<close>

definition default_map :: "'run procedure \<Rightarrow> direction \<Rightarrow> param_map" where
  "default_map p d = (if p_Mode p = PerDirection
     then (defaults_of p)(''direction'' \<mapsto> PString (direction_StringLower d)) else defaults_of p)"

lemma invocations_no_params:
  assumes "ov \<in> set (invocations p Map.empty)"
  shows "\<exists>d. prepared_map p ov = default_map p d"
proof (cases "p_Mode p = PerDirection")
  case True
  then obtain d where ov: "ov = [''direction'' \<mapsto> PString (direction_String d)]"
    using assms by (auto simp: invocations_def simp del: direction_String.simps)
  have "prepared_map p ov = default_map p d"
    by (rule ext)
      (simp add: ov prepared_map_def default_map_def override_value_def supportsDirection_def True
        ParseDirection_String)
  then show ?thesis by blast
next
  case False
  then have "ov = Map.empty" using assms by (simp add: invocations_def)
  then show ?thesis using False by (auto simp: prepared_map_def default_map_def)
qed

lemma default_map_small:
  assumes "list_all (\<lambda>spec. small_value (sp_Default spec)) (p_Params p)"
  shows "small_params (default_map p d)"
proof -
  have "small_value v" if "defaults_of p k = Some v" for k v
    using assms map_of_SomeD [OF that [unfolded defaults_of_def]] by (auto simp: list_all_iff)
  then show ?thesis by (auto simp: small_params_def default_map_def split: if_splits)
qed

lemma registrations_small:
  "p \<in> set (registrations fuel) \<Longrightarrow> list_all (\<lambda>spec. small_value (sp_Default spec)) (p_Params p)"
  by (auto simp: registrations_list per_direction_def once_per_round_def uints_def uint_spec_def ccas_spec_def
      owdParams_def rateParams_def small_def)

text \<open>Only \<open>cdsf\<close> can report that its tests take too long.\<close>

lemma no_TooLong:
  "fst (Burst e ts path m g) \<noteq> ProcErr TooLong" "fst (MultiBurst e ts path m g) \<noteq> ProcErr TooLong"
  "fst (MultiDurationRate e ts path m g) \<noteq> ProcErr TooLong"
  "fst (ProgressiveDurationQUIC e ts path m g) \<noteq> ProcErr TooLong"
  "fst (MultiFlow e ts path m g) \<noteq> ProcErr TooLong" "fst (SwitchFlow e ts path m g) \<noteq> ProcErr TooLong"
  "fst (MouseElephantFlows e ts path m g) \<noteq> ProcErr TooLong" "fst (QUIC e ts path m g) \<noteq> ProcErr TooLong"
  "fst (DurationTCP e ts path m g) \<noteq> ProcErr TooLong" "fst (PacketsDuration e ts path m g) \<noteq> ProcErr TooLong"
  "fst (CoolDownDifferentFlow fuel e ts path m g) \<noteq> ProcErr TooLong"
  by (simp_all add: Burst_def MultiBurst_def run_MultiBurst_def MultiDurationRate_def
      ProgressiveDurationQUIC_def MultiFlow_def SwitchFlow_def MouseElephantFlows_def QUIC_def DurationTCP_def
      PacketsDuration_def CoolDownDifferentFlow_def Let_def
      split: sum.splits prod.splits option.splits loop_result.splits)

lemma not_param_error: "no_param_error (out, cs, g) \<Longrightarrow> out \<noteq> ProcErr TooLong \<Longrightarrow> \<not> (\<exists>err. out = ProcErr err)"
  unfolding no_param_error_def by (metis fst_conv proc_error.exhaust)

lemma default_known_ccas: "m ''ccas'' = None \<or> m ''ccas'' = Some (PTCPCCAs TCPCCAS) \<Longrightarrow> known_ccas m"
  by (auto simp: known_ccas_def TCPCCAS_def pm_TCPCCAs_def pm_Strings_def)

lemma cdsf_loop_no_panic:
  "0 < sint mx \<Longrightarrow> step \<noteq> 0 \<Longrightarrow> cdsf_loop fuel e path d deadline rate step mx cds start g acc \<noteq> LoopPanic x cs"
  by (induction fuel arbitrary: cds start g acc) (simp_all add: Let_def Intn_def)

text \<open>The registered procedures by the shape of their argument.\<close>

lemma default_groups:
  assumes "p \<in> set (registrations fuel)" and "p_Run p = Some run" and "m = default_map p d"
  obtains
    (interval) "run \<in> interval_procedures" "m ''ccas'' = None \<or> m ''ccas'' = Some (PTCPCCAs TCPCCAS)"
  | (packets) "run = PacketsDuration"
      "m ''durations'' = Some (PUints [10, 15, 20, 30, 35, 40, 50, 60, 70, 80, 100, 150, 200, 400])"
  | (rates) durs where "run = ProgressiveRate \<or> run = RampUpProbe" "m ''durations'' = Some (PUints durs)"
      "sum_list (map prograte_cost durs) \<le> 13 * second" "pm_Direction m = Inr d"
  | (cddf) "run = CoolDownDifferentFlow fuel" "p_Name p = ''cddf''"
  | (cdsf) "run = CoolDownSameFlow fuel" "p_Name p = ''cdsf''" "m ''step'' = Some (PUint 50)"
      "m ''max'' = Some (PUint 600)" "\<exists>r. ratesFor d m = Inr [r]" "pm_Direction m = Inr d"
  | (plain) "run = MeasOWD \<or> run = MeasRate \<or> run = TraceRi"
  | (ri) "run = RateRI" "\<exists>r1 r2. ratesFor d m = Inr [r1, r2]" "pm_Direction m = Inr d"
  | (tcpri) "run = DurationTCPRI" "m ''ccas'' = Some (PTCPCCAs TCPCCAS)" "pm_Direction m = Inr d"
  using assms unfolding registrations_list list.set insert_iff empty_iff
  by (elim disjE)
    (auto simp: per_direction_def once_per_round_def uints_def uint_spec_def ccas_spec_def default_map_def
      defaults_of_def pm_Direction_lower prograte_cost_def ms_duration_exact ratesFor_def
      interval_procedures_def)

lemma tcpri_outcome:
  assumes "DurationTCPRI e ts path m g = (out, cs, g')" and "m ''ccas'' = Some (PTCPCCAs TCPCCAS)"
    and "pm_Direction m = Inr d"
  shows "out = Done"
proof -
  have "cca_String (TCPCCAS ! i) \<noteq> Panics x" if "i < length TCPCCAS" for i x
    using that by (auto simp: TCPCCAS_def less_Suc_eq)
  moreover have "g 0 mod Suc (length TCPCCAS) \<noteq> length TCPCCAS \<Longrightarrow> g 0 mod Suc (length TCPCCAS) < length TCPCCAS"
    using mod_less_divisor [of "Suc (length TCPCCAS)" "g 0"] by linarith
  ultimately show ?thesis
    using assms by (auto simp: DurationTCPRI_def Let_def Intn_def split: panics.splits if_splits)
qed

lemma cdsf_outcome:
  assumes "CoolDownSameFlow fuel e ts path m g = (out, cs, g')" and "is_RI ts" and "small_params m"
    and "m ''step'' = Some (PUint 50)" and "m ''max'' = Some (PUint 600)"
    and "ratesFor d m = Inr [r]" and "pm_Direction m = Inr d"
  shows "(out = Done \<or> out = NoReturn) \<and> captures_cover cs"
proof -
  have pos: "0 < sint (600 :: u64)" "(50 :: u64) \<noteq> 0" by simp_all
  have "(\<exists>stop. out = (if stop > NextRI ts + second then ProcErr TooLong else Done)) \<or> out = NoReturn \<and> cs = []"
    using assms cdsf_loop_no_panic [OF pos]
    by (auto simp: CoolDownSameFlow_def Let_def Intn_def split: loop_result.splits)
  then have "(out = Done \<or> out = ProcErr TooLong) \<or> out = NoReturn \<and> cs = []" by (auto split: if_splits)
  moreover have "out \<noteq> ProcErr TooLong \<and> (out = Done \<longrightarrow> captures_cover cs)"
    using cdsf_returned [OF assms(2,3) _ _ assms(1), of 600] assms(5) by simp
  ultimately show ?thesis by (auto simp: captures_cover_flows)
qed

lemma default_plan:
  assumes "p \<in> set (registrations fuel)" and "p_Run p = Some run" and "is_RI ts" and "product_ok e"
    and "small_params (default_map p d)" and "no_param_error (run e ts path (default_map p d) g)"
    and "run e ts path (default_map p d) g = (out, cs, g')"
  shows "captures_cover cs \<and> (out = Done \<or> out = NoReturn \<and> p_Name p \<in> {''cddf'', ''cdsf''})"
proof -
  define m where "m = default_map p d"
  note run = assms(7) [folded m_def] and small = assms(5) [folded m_def]
  have noerr: "no_param_error (out, cs, g')" using assms(6,7) by simp
  have settle: "captures_cover cs \<and> (out = Done \<or> out = NoReturn \<and> p_Name p \<in> {''cddf'', ''cdsf''})"
    if "fst (run e ts path m g) \<noteq> ProcErr TooLong" and "(\<exists>err. out = ProcErr err) \<or> out = Done \<and> plan_fits ts cs"
    using that not_param_error [OF noerr] run by (simp add: plan_fits_def)
  from assms(1,2) m_def show ?thesis
  proof (cases rule: default_groups)
    case interval
    have "fst (run e ts path m g) \<noteq> ProcErr TooLong"
      using interval(1) unfolding interval_procedures_def by (auto simp: no_TooLong)
    then show ?thesis
      using interval_plan_fits [OF interval(1) assms(3) small default_known_ccas [of m, OF interval(2)] assms(4) run]
      by (rule settle)
  next
    case packets
    have "fst (run e ts path m g) \<noteq> ProcErr TooLong" using packets(1) no_TooLong by simp
    then show ?thesis
      using packets run PacketsDuration_fits [OF assms(3) small assms(4)]
      by (intro settle) (simp_all add: ms_duration_exact)
  next
    case (rates durs)
    then show ?thesis
      using prograte_outcome [OF assms(3) small rates(4) _ rates(1) run, of durs] by (simp add: plan_fits_def)
  next
    case cddf
    have "out = NoReturn \<Longrightarrow> cs = []"
      using run cddf(1) by (auto simp: CoolDownDifferentFlow_def split: sum.splits option.splits)
    then show ?thesis
      using cddf(2) CoolDownDifferentFlow_fits [OF assms(3) run [unfolded cddf(1)]] not_param_error [OF noerr] run
        no_TooLong(11) [of fuel e ts path m g]
      by (auto simp: plan_fits_def cddf(1) captures_cover_flows)
  next
    case cdsf
    then show ?thesis using cdsf_outcome [OF run [unfolded cdsf(1)] assms(3) small cdsf(3,4) _ cdsf(6)] by auto
  next
    case plain
    have "out = Done" using plain run noerr
      by (auto simp: MeasOWD_def MeasRate_def TraceRi_def Let_def no_param_error_def split: sum.splits)
    then show ?thesis using plain run MeasOWD_covers MeasRate_covers TraceRi_covers by auto
  next
    case ri
    then have "out = Done" using run by (auto simp: RateRI_def Let_def split: prod.splits)
    then show ?thesis using ri run RateRI_covers by auto
  next
    case tcpri
    then have "out = Done" using run tcpri_outcome by auto
    then show ?thesis using tcpri run DurationTCPRI_covers by auto
  qed
qed

text \<open>C2. Running any registered procedure without parameters, for every direction it is invoked with:
  at a reconfiguration instant, for every random source and every behaviour of the product package
  that has the right elements, the procedure neither fails nor panics (only \<open>cddf\<close> and \<open>cdsf\<close>
  may not return, when the random source never answers with new cooldowns), and each packet capture it
  schedules starts no later and ends no earlier than each flow it schedules.\<close>

theorem default_run_captured:
  assumes "the_registry fuel = Returns reg" and "Lookup reg name = Some proc"
    and "ov \<in> set (invocations proc Map.empty)" and "set order = dom ov"
    and "PrepareParams proc ov order = Inr prepared" and "p_Run proc = Some run"
    and "is_RI ts" and "product_ok e" and "run e ts path prepared g = (out, cs, g')"
  shows "captures_cover cs \<and> (out = Done \<or> out = NoReturn \<and> name \<in> {''cddf'', ''cdsf''})"
proof -
  note proc = registry_procedures [OF assms(1,2)]
  have ok: "overrides_ok proc ov" and prepared: "prepared = prepared_map proc ov"
    using PrepareParams_Inr [OF proc(2) assms(4), of prepared] assms(5) by auto
  obtain d where d: "prepared = default_map proc d"
    using invocations_no_params [OF assms(3)] prepared by auto
  have dir: "\<exists>d. pm_Direction prepared = Inr d" if "p_Mode proc = PerDirection"
    using that unfolding prepared
    by (intro prepared_pm_Direction [OF proc(2) ok] invocations_direction [OF assms(3)])
  have dir': "prepared ''direction'' \<noteq> None \<longrightarrow> (\<exists>d. pm_Direction prepared = Inr d)"
    using prepared_direction [OF proc(2) ok] unfolding prepared by (auto split: option.splits)
  have "no_param_error (run e ts path prepared g)"
    using prepared_typed [OF proc(2) ok] unfolding prepared [symmetric]
    by (rule registrations_accept_params [OF proc(1) _ assms(6) dir dir'])
  then show ?thesis
    using default_plan [OF proc(1) assms(6-8) default_map_small [OF registrations_small [OF proc(1)]], of path d g]
      assms(9) proc(3) by (simp add: d)
qed

theorem default_run_captured_witness:
  "case Burst example_env (12 * second) ''r'' [''direction'' \<mapsto> PString ''ul''] (\<lambda>k. k) of (out, cs, g') \<Rightarrow>
     captures_cover cs \<and> (out = Done \<or> out = NoReturn \<and> ''burst'' \<in> {''cddf'', ''cdsf''})"
proof -
  obtain reg where reg: "the_registry 9 = Returns reg" "dom reg = set (map p_Name (registrations 9))"
    using the_registry_Returns [of 9] by blast
  let ?p = "per_direction ''burst'' Burst []" and ?ov = "[''direction'' \<mapsto> PString ''UL'']"
  have inv: "?ov \<in> set (invocations ?p Map.empty)" by (simp add: invocations_def per_direction_def)
  have dom: "set [''direction''] = dom ?ov" by simp
  have prep: "PrepareParams ?p ?ov [''direction''] = Inr [''direction'' \<mapsto> PString ''ul'']"
    by (simp add: per_direction_def PrepareParams_def override_value_def supportsDirection_def ParseDirection_def)
  have run: "p_Run ?p = Some Burst" by (simp add: per_direction_def)
  show ?thesis
    using default_run_captured [OF reg(1) burst_lookup [OF reg] inv dom prep run example_RI example_env_product]
    by (auto split: prod.split)
qed

section \<open>The help text\<close>

lemma registrations_printable:
  "p \<in> set (registrations fuel) \<Longrightarrow>
   list_all (\<lambda>spec. plain (sp_Name spec) \<and> printable_default (sp_Default spec)) (p_Params p)"
  by (auto simp: registrations_list per_direction_def once_per_round_def uints_def uint_spec_def ccas_spec_def
      owdParams_def rateParams_def plain_def TCPCCAS_def)

text \<open>C20. The help is true: for every registered procedure \<open>procedures <name>\<close> prints, without a panic, the default of
  every parameter; and a user who gives these texts back as \<open>--params\<close> gets exactly the parameters
  the procedure has without any, in whatever order the map is traversed.\<close>

theorem help_defaults_accepted:
  assumes "the_registry fuel = Returns reg" and "Lookup reg name = Some proc"
  shows "\<exists>out args m. printProcedures other descr paramText reg names name = Returns (Some out) \<and>
     list_all (\<lambda>spec. \<exists>d. defaultText other (sp_Default spec) = Returns d \<and> sublist ('' default: '' @ d) out) (p_Params proc) \<and>
     default_args other (p_Params proc) = Returns args \<and> parseParams (join_with '';'' args) = Inr m \<and>
     (\<forall>order. set order = dom m \<longrightarrow> PrepareParams proc m order = PrepareParams proc Map.empty [])"
proof -
  note proc = registry_procedures [OF assms]
  obtain args m where args: "default_args other (p_Params proc) = Returns args" "parseParams (join_with '';'' args) = Inr m"
    "\<forall>order. set order = dom m \<longrightarrow> PrepareParams proc m order = PrepareParams proc Map.empty []"
    using default_args_prepare [OF proc(2) registrations_printable [OF proc(1)]] by blast
  obtain out where out: "procedureHelpText other (paramText name) (descr name) proc = Returns out"
    "list_all (\<lambda>spec. \<exists>d. defaultText other (sp_Default spec) = Returns d \<and> sublist ('' default: '' @ d) out) (p_Params proc)"
    using help_text [OF args(1)] by blast
  have "name \<noteq> []" using proc(2,3) by (auto simp: proc_wf_def)
  then have "printProcedures other descr paramText reg names name = Returns (Some out)"
    using assms(2) out(1) by (simp add: printProcedures_def)
  then show ?thesis using out(2) args by blast
qed

theorem help_defaults_accepted_witness:
  "\<exists>reg proc. the_registry 9 = Returns reg \<and> Lookup reg ''burst'' = Some proc \<and>
     (\<exists>out. printProcedures [] (\<lambda>n. []) (\<lambda>n k. []) reg [] ''burst'' = Returns (Some out))"
proof -
  obtain reg where reg: "the_registry 9 = Returns reg" "dom reg = set (map p_Name (registrations 9))"
    using the_registry_Returns [of 9] by blast
  show ?thesis using reg(1) burst_lookup [OF reg] help_defaults_accepted [OF reg(1) burst_lookup [OF reg]] by blast
qed

end
